(* ===== verification/Prelude.thy ===== *)
theory Prelude
  imports Main
begin

section \<open>Shared vocabulary of the development\<close>

text \<open>
  The exceptions the modelled Python raises, the result type that carries them, the
  combinators that thread it, association lists in the role of Python's ordered
  dictionaries, and the two interfaces that several components implement: a codec (an
  encoder with the decoder that undoes it) and a state machine with an invariant.
\<close>

subsection \<open>Exceptions and results\<close>

datatype pyexc =
    ValueError
  | ValidationError        \<comment> \<open>pydantic's, a subclass of ValueError\<close>
  | UnicodeDecodeError     \<comment> \<open>a subclass of ValueError\<close>
  | UnicodeEncodeError     \<comment> \<open>a subclass of ValueError\<close>
  | BinasciiError          \<comment> \<open>a subclass of ValueError\<close>
  | JSONDecodeError        \<comment> \<open>a subclass of ValueError\<close>
  | RecursionError
  | TypeError
  | IndexError
  | KeyError
  | AttributeError
  | ZeroDivisionError
  | OverflowError
  | BufferError
  | AssertionError
  | RuntimeError
  | FileNotFoundError
  | ConnectionError
  | CancelledError         \<comment> \<open>asyncio's, not a subclass of Exception\<close>
  | TimeoutError
  | WebSocketDisconnect
  | HTTPException nat
  | ExceptionGroup         \<comment> \<open>what asyncio.TaskGroup raises\<close>

type_synonym 'a res = "pyexc + 'a"

definition is_value_error :: "pyexc \<Rightarrow> bool" where
  "is_value_error e \<longleftrightarrow> e \<in> {ValueError, ValidationError, UnicodeDecodeError,
     UnicodeEncodeError, BinasciiError, JSONDecodeError}"

fun rbind :: "'a res \<Rightarrow> ('a \<Rightarrow> 'b res) \<Rightarrow> 'b res" where
  "rbind (Inl e) f = Inl e"
| "rbind (Inr x) f = f x"

fun traverse :: "('a \<Rightarrow> 'b res) \<Rightarrow> 'a list \<Rightarrow> 'b list res" where
  "traverse f [] = Inr []"
| "traverse f (x # xs) = rbind (f x) (\<lambda>y. rbind (traverse f xs) (\<lambda>ys. Inr (y # ys)))"

definition is_ok :: "'a res \<Rightarrow> bool" where
  "is_ok r \<longleftrightarrow> (case r of Inl _ \<Rightarrow> False | Inr _ \<Rightarrow> True)"

text \<open>The exception an \<open>except\<close> clause of the source replaces by one of its own.\<close>

fun on_error :: "pyexc \<Rightarrow> 'a res \<Rightarrow> 'a res" where
  "on_error e (Inl _) = Inl e"
| "on_error e (Inr x) = Inr x"

named_theorems res_simps \<open>inversion of computations that returned\<close>

lemma rbind_Inr [res_simps]: "rbind r f = Inr y \<longleftrightarrow> (\<exists>x. r = Inr x \<and> f x = Inr y)"
  by (cases r) auto

lemma case_list_Inr [res_simps]:
  "(case xs of [] \<Rightarrow> Inl e | c # r \<Rightarrow> f c r) = Inr y \<longleftrightarrow> (\<exists>c r. xs = c # r \<and> f c r = Inr y)"
  by (cases xs) auto

lemma case_option_Inr [res_simps]:
  "(case v of None \<Rightarrow> Inl e | Some x \<Rightarrow> f x) = Inr y \<longleftrightarrow> (\<exists>x. v = Some x \<and> f x = Inr y)"
  by (cases v) auto

lemma if_Inl_Inr [res_simps]: "(if b then Inl e else r) = Inr y \<longleftrightarrow> \<not> b \<and> r = Inr y"
  "(if b then r else Inl e) = Inr y \<longleftrightarrow> b \<and> r = Inr y"
  by auto

named_theorems err_simps \<open>inversion of computations that raised\<close>

lemma case_list_Inl [err_simps]:
  "(case xs of [] \<Rightarrow> Inl e | c # r \<Rightarrow> f c r) = Inl e' \<longleftrightarrow>
    xs = [] \<and> e' = e \<or> (\<exists>c r. xs = c # r \<and> f c r = Inl e')"
  by (cases xs) auto

lemma case_option_Inl [err_simps]:
  "(case v of None \<Rightarrow> Inl e | Some x \<Rightarrow> f x) = Inl e' \<longleftrightarrow> v = None \<and> e' = e \<or> (\<exists>x. v = Some x \<and> f x = Inl e')"
  by (cases v) auto

lemma rbind_Inl [err_simps]: "rbind r f = Inl e \<longleftrightarrow> r = Inl e \<or> (\<exists>x. r = Inr x \<and> f x = Inl e)"
  by (cases r) auto

lemma on_error_Inr [res_simps]: "on_error e r = Inr x \<longleftrightarrow> r = Inr x"
  by (cases r) auto

lemma on_error_Inl [err_simps]: "on_error e r = Inl e' \<longleftrightarrow> (\<exists>e0. r = Inl e0) \<and> e' = e"
  by (cases r) auto

lemma rbind_assoc: "rbind (rbind r f) g = rbind r (\<lambda>x. rbind (f x) g)"
  by (cases r) auto

lemma rbind_return [simp]: "rbind r Inr = r"
  by (cases r) auto

lemma rbind_cong [fundef_cong]:
  "r = r' \<Longrightarrow> (\<And>x. r' = Inr x \<Longrightarrow> f x = f' x) \<Longrightarrow> rbind r f = rbind r' f'"
  by (cases r') auto

lemma traverse_map: "traverse f (map g xs) = traverse (\<lambda>x. f (g x)) xs"
  by (induction xs) auto

lemma traverse_Inr:
  "(\<And>x. x \<in> set xs \<Longrightarrow> f x = Inr (g x)) \<Longrightarrow> traverse f xs = Inr (map g xs)"
  by (induction xs) auto

lemma traverse_append:
  "traverse f (xs @ ys) = rbind (traverse f xs) (\<lambda>as. rbind (traverse f ys) (\<lambda>bs. Inr (as @ bs)))"
  by (induction xs) (auto simp: rbind_assoc)

lemma traverse_length: "traverse f xs = Inr ys \<Longrightarrow> length ys = length xs"
  by (induction xs arbitrary: ys) (auto simp: res_simps)

lemma traverse_cong [fundef_cong]:
  "xs = ys \<Longrightarrow> (\<And>x. x \<in> set ys \<Longrightarrow> f x = g x) \<Longrightarrow> traverse f xs = traverse g ys"
  by (induction xs arbitrary: ys) auto

subsection \<open>Computations with a state\<close>

text \<open>An exception keeps the state changes made before it was raised.\<close>

type_synonym ('s, 'a) act = "'s \<Rightarrow> 'a res \<times> 's"

definition abind :: "('s, 'a) act \<Rightarrow> ('a \<Rightarrow> ('s, 'b) act) \<Rightarrow> ('s, 'b) act" where
  "abind m f = (\<lambda>s. case m s of (Inl e, s') \<Rightarrow> (Inl e, s') | (Inr x, s') \<Rightarrow> f x s')"

text \<open>A computation that does not touch the state.\<close>

definition lift_res :: "'a res \<Rightarrow> ('s, 'a) act" where
  "lift_res r = (\<lambda>s. (r, s))"

lemma abind_simps [simp]:
  "m s = (Inl e, s') \<Longrightarrow> abind m f s = (Inl e, s')"
  "m s = (Inr x, s') \<Longrightarrow> abind m f s = f x s'"
  by (simp_all add: abind_def)

lemma abind_Inr [res_simps]: "abind m f s = (Inr y, t) \<longleftrightarrow> (\<exists>x s'. m s = (Inr x, s') \<and> f x s' = (Inr y, t))"
  by (auto simp: abind_def split: prod.splits sum.splits)

lemma lift_res_simps [simp]: "lift_res r s = (r, s)"
  by (simp add: lift_res_def)

lemma abind_lift [simp]:
  "abind (lift_res (Inr x)) f = f x" "abind (lift_res (Inl e)) f = lift_res (Inl e)"
  by (simp_all add: abind_def fun_eq_iff)

subsection \<open>Ordered dictionaries\<close>

text \<open>
  A Python dictionary keeps its insertion order and has one value per key: assignment
  replaces the value in place, or appends a new entry.
\<close>

fun dict_set :: "'k \<Rightarrow> 'v \<Rightarrow> ('k \<times> 'v) list \<Rightarrow> ('k \<times> 'v) list" where
  "dict_set k v [] = [(k, v)]"
| "dict_set k v ((k', v') # d) = (if k' = k then (k, v) # d else (k', v') # dict_set k v d)"

definition dict_del :: "'k \<Rightarrow> ('k \<times> 'v) list \<Rightarrow> ('k \<times> 'v) list" where
  "dict_del k d = filter (\<lambda>(k', _). k' \<noteq> k) d"

definition dict_ok :: "('k \<times> 'v) list \<Rightarrow> bool" where
  "dict_ok d \<longleftrightarrow> distinct (map fst d)"

named_theorems dict_simps \<open>lookups after dictionary updates\<close>

lemma map_of_dict_set [dict_simps]: "map_of (dict_set k v d) = (map_of d)(k \<mapsto> v)"
  by (induction d) auto

lemma keys_dict_set [dict_simps]: "fst ` set (dict_set k v d) = insert k (fst ` set d)"
  by (induction k v d rule: dict_set.induct) auto

lemma map_fst_dict_set:
  "map fst (dict_set k v d) = (if k \<in> fst ` set d then map fst d else map fst d @ [k])"
  by (induction k v d rule: dict_set.induct) auto

lemma dict_set_ok: "dict_ok d \<Longrightarrow> dict_ok (dict_set k v d)"
  by (auto simp: dict_ok_def map_fst_dict_set)

lemma dict_set_new: "k \<notin> fst ` set d \<Longrightarrow> dict_set k v d = d @ [(k, v)]"
  by (induction d) auto

lemma map_of_dict_del [dict_simps]: "map_of (dict_del k d) = (map_of d)(k := None)"
  by (induction d) (auto simp: dict_del_def fun_eq_iff)

lemma dict_del_ok: "dict_ok d \<Longrightarrow> dict_ok (dict_del k d)"
  unfolding dict_ok_def dict_del_def by (induction d) auto

lemma dict_set_same:
  "dict_ok d \<Longrightarrow> map_of d k = Some v \<Longrightarrow> dict_set k v d = d"
  by (induction d) (auto simp: dict_ok_def split: if_splits)

subsection \<open>Prefixes\<close>

text \<open>A proper prefix of a list that has two parts.\<close>

lemma prefix_cases [consumes 2, case_names left right]:
  assumes "p @ q = s @ t" "q \<noteq> []"
  obtains q' where "s = p @ q'" "q' \<noteq> []" | p' where "p = s @ p'" "p' @ q = t"
proof -
  from assms(1) obtain us where "p = s @ us \<and> us @ q = t \<or> p @ us = s \<and> q = us @ t"
    by (auto simp: append_eq_append_conv2)
  then show thesis using that(1) [of us] that(2) [of us] that(2) [of "[]"] by (cases "us = []") auto
qed

subsection \<open>Codecs\<close>

text \<open>
  What base64, UTF-8, JSON and the message formats all promise: on the values \<open>ok\<close> the
  encoder succeeds and the decoder returns the value that was encoded. A codec behind
  another is again a codec, which is how the wire formats are layered.
\<close>

locale codec =
  fixes enc :: "'a \<Rightarrow> 'b res"
    and dec :: "'b \<Rightarrow> 'a res"
    and ok :: "'a \<Rightarrow> bool"
  assumes round: "ok x \<Longrightarrow> rbind (enc x) dec = Inr x"
begin

lemma enc_succeeds: "ok x \<Longrightarrow> \<exists>y. enc x = Inr y \<and> dec y = Inr x"
  using round [of x] by (auto simp: res_simps)

lemma dec_enc: "ok x \<Longrightarrow> enc x = Inr y \<Longrightarrow> dec y = Inr x"
  using round [of x] by simp

lemma enc_inj: "ok x \<Longrightarrow> ok x' \<Longrightarrow> enc x = enc x' \<Longrightarrow> x = x'"
  using round [of x] round [of x'] by (metis sum.inject(2))

lemma round_list: "\<forall>x \<in> set xs. ok x \<Longrightarrow> rbind (traverse enc xs) (traverse dec) = Inr xs"
proof (induction xs)
  case Nil
  then show ?case by simp
next
  case (Cons x xs)
  then obtain y where y: "enc x = Inr y" "dec y = Inr x"
    using enc_succeeds [of x] by auto
  from Cons obtain ys where "traverse enc xs = Inr ys" "traverse dec ys = Inr xs"
    by (auto simp: res_simps)
  with y show ?case by simp
qed

end

text \<open>A list of values, encoded and decoded value by value.\<close>

locale codec_list =
  elem: codec enc dec ok
  for enc :: "'a \<Rightarrow> 'b res" and dec :: "'b \<Rightarrow> 'a res" and ok :: "'a \<Rightarrow> bool"

sublocale codec_list \<subseteq> lists: codec "traverse enc" "traverse dec" "list_all ok"
  by unfold_locales (simp add: list_all_iff elem.round_list)

locale codec_chain =
  inner: codec enc dec ok + outer: codec enc' dec' ok'
  for enc :: "'a \<Rightarrow> 'b res" and dec :: "'b \<Rightarrow> 'a res" and ok :: "'a \<Rightarrow> bool"
  and enc' :: "'b \<Rightarrow> 'c res" and dec' :: "'c \<Rightarrow> 'b res" and ok' :: "'b \<Rightarrow> bool" +
  assumes fits: "ok x \<Longrightarrow> enc x = Inr y \<Longrightarrow> ok' y"
begin

lemma chain_round: "ok x \<Longrightarrow> rbind (rbind (enc x) enc') (\<lambda>z. rbind (dec' z) dec) = Inr x"
proof -
  assume ok: "ok x"
  then obtain y where y: "enc x = Inr y" "dec y = Inr x"
    using inner.enc_succeeds by blast
  with ok obtain z where "enc' y = Inr z" "dec' z = Inr y"
    using fits outer.enc_succeeds by blast
  with y show ?thesis by simp
qed

end

sublocale codec_chain \<subseteq> chain: codec "\<lambda>x. rbind (enc x) enc'" "\<lambda>z. rbind (dec' z) dec" ok
  by unfold_locales (rule chain_round)

subsection \<open>State machines\<close>

inductive reach :: "('s \<Rightarrow> bool) \<Rightarrow> ('s \<Rightarrow> 's \<Rightarrow> bool) \<Rightarrow> 's \<Rightarrow> bool"
  for start :: "'s \<Rightarrow> bool" and step :: "'s \<Rightarrow> 's \<Rightarrow> bool" where
  reach_start: "start s \<Longrightarrow> reach start step s"
| reach_step: "reach start step s \<Longrightarrow> step s t \<Longrightarrow> reach start step t"

locale machine =
  fixes start :: "'s \<Rightarrow> bool"
    and step :: "'s \<Rightarrow> 's \<Rightarrow> bool"
    and inv :: "'s \<Rightarrow> bool"
  assumes inv_start: "start s \<Longrightarrow> inv s"
    and inv_step: "inv s \<Longrightarrow> step s t \<Longrightarrow> inv t"
begin

lemma reach_inv: "reach start step s \<Longrightarrow> inv s"
  by (induction rule: reach.induct) (auto intro: inv_start inv_step)

lemma steps_inv: "inv s \<Longrightarrow> step\<^sup>*\<^sup>* s t \<Longrightarrow> inv t"
  by (rotate_tac, induction rule: rtranclp_induct) (auto intro: inv_step)

end

lemma reach_steps: "reach start step s \<Longrightarrow> step\<^sup>*\<^sup>* s t \<Longrightarrow> reach start step t"
  by (rotate_tac, induction rule: rtranclp_induct) (auto intro: reach_step)

text \<open>
  A component driven by events implements an abstract one when the abstraction of every
  step is the abstract step; then so is the abstraction of every run. The events \<open>ok\<close>
  delimits are those the contract speaks of.
\<close>

locale simulation =
  fixes step :: "'e \<Rightarrow> 's \<Rightarrow> 's"
    and spec :: "'e \<Rightarrow> 'a \<Rightarrow> 'a"
    and abs :: "'s \<Rightarrow> 'a"
    and inv :: "'s \<Rightarrow> bool"
    and ok :: "'e \<Rightarrow> bool"
  assumes inv_keep: "inv s \<Longrightarrow> ok e \<Longrightarrow> inv (step e s)"
    and commute: "inv s \<Longrightarrow> ok e \<Longrightarrow> abs (step e s) = spec e (abs s)"
begin

lemma run: "inv s \<Longrightarrow> list_all ok es \<Longrightarrow> inv (fold step es s) \<and> abs (fold step es s) = fold spec es (abs s)"
  by (induction es arbitrary: s) (auto simp: inv_keep commute)

end

end
