(* ===== verification/PyStr.thy ===== *)
theory PyStr
  imports Prelude "HOL-Library.Word"
begin

section \<open>Python strings and bytes\<close>

text \<open>
  A Python \<open>str\<close> is a sequence of code points and is modelled as the list of the
  integers that \<open>ord\<close> gives for them; a code point is a scalar value when it is not a surrogate. A \<open>bytes\<close> object
  is a list of 8-bit words. The theory holds the operations of the standard library that
  the program applies to both: slicing and indexing, \<open>split\<close>, \<open>startswith\<close>, the
  decimal notation of integers, and the UTF-8 codec with its strict error handling.
\<close>

type_synonym pystr = "int list"
type_synonym byte = "8 word"

text \<open>A literal of the source, whose characters are all ASCII.\<close>

definition u :: "string \<Rightarrow> pystr" where
  "u s = map of_char s"

definition scalar :: "int \<Rightarrow> bool" where
  "scalar c \<longleftrightarrow> (0 \<le> c \<and> c < 0xD800) \<or> (0xE000 \<le> c \<and> c < 0x110000)"

definition scalar_str :: "pystr \<Rightarrow> bool" where
  "scalar_str s \<longleftrightarrow> list_all scalar s"

definition ascii_str :: "pystr \<Rightarrow> bool" where
  "ascii_str s \<longleftrightarrow> list_all (\<lambda>c. 0 \<le> c \<and> c < 128) s"

lemma scalar_str_simps [simp]:
  "scalar_str []"
  "scalar_str (c # s) \<longleftrightarrow> scalar c \<and> scalar_str s"
  "scalar_str (s @ t) \<longleftrightarrow> scalar_str s \<and> scalar_str t"
  by (auto simp: scalar_str_def)

lemma ascii_str_simps [simp]:
  "ascii_str []"
  "ascii_str (c # s) \<longleftrightarrow> 0 \<le> c \<and> c < 128 \<and> ascii_str s"
  "ascii_str (s @ t) \<longleftrightarrow> ascii_str s \<and> ascii_str t"
  by (auto simp: ascii_str_def)

lemma ascii_scalar: "ascii_str s \<Longrightarrow> scalar_str s"
  by (auto simp: ascii_str_def scalar_str_def scalar_def list_all_iff)

text \<open>Printable ASCII: what the textual formats emit.\<close>

definition plain_str :: "pystr \<Rightarrow> bool" where
  "plain_str s \<longleftrightarrow> list_all (\<lambda>c. 32 \<le> c \<and> c \<le> 126) s"

lemma plain_str_simps [simp]:
  "plain_str []"
  "plain_str (c # s) \<longleftrightarrow> 32 \<le> c \<and> c \<le> 126 \<and> plain_str s"
  "plain_str (s @ t) \<longleftrightarrow> plain_str s \<and> plain_str t"
  by (auto simp: plain_str_def)

lemma plain_ascii: "plain_str s \<Longrightarrow> ascii_str s"
  by (auto simp: plain_str_def ascii_str_def list_all_iff)

lemma u_simps [simp]: "u [] = []" "u (c # s) = of_char c # u s" "u (s @ t) = u s @ u t"
  by (simp_all add: u_def)

subsection \<open>Slices, indexing, searching\<close>

text \<open>\<open>xs[i:j]\<close> with the usual reading of negative bounds.\<close>

definition slice_bound :: "'a list \<Rightarrow> int \<Rightarrow> nat" where
  "slice_bound xs i =
     (let n = int (length xs); k = (if i < 0 then max 0 (n + i) else min n i) in nat k)"

definition py_slice :: "'a list \<Rightarrow> int \<Rightarrow> int \<Rightarrow> 'a list" where
  "py_slice xs i j =
     (let a = slice_bound xs i; b = slice_bound xs j in take (b - a) (drop a xs))"

definition py_index :: "'a list \<Rightarrow> int \<Rightarrow> 'a res" where
  "py_index xs i =
     (let n = int (length xs); k = (if i < 0 then n + i else i)
      in if 0 \<le> k \<and> k < n then Inr (xs ! nat k) else Inl IndexError)"

definition startswith :: "pystr \<Rightarrow> pystr \<Rightarrow> bool" where
  "startswith s p \<longleftrightarrow> take (length p) s = p"

text \<open>\<open>s.split(sep)\<close> for a separator of one character: never empty.\<close>

fun split_on :: "int \<Rightarrow> pystr \<Rightarrow> pystr list" where
  "split_on c [] = [[]]"
| "split_on c (x # xs) =
     (if x = c then [] # split_on c xs
      else (case split_on c xs of [] \<Rightarrow> [[x]] | w # ws \<Rightarrow> (x # w) # ws))"

lemma split_on_not_Nil [simp]: "split_on c s \<noteq> []"
  by (induction s) (auto split: list.splits)

lemma split_on_none: "c \<notin> set s \<Longrightarrow> split_on c s = [s]"
  by (induction s) auto

lemma split_on_sep: "c \<notin> set s \<Longrightarrow> split_on c (s @ c # t) = s # split_on c t"
  by (induction s) auto

lemma split_on_singleD: "split_on c s = [w] \<Longrightarrow> w = s \<and> c \<notin> set s"
proof (induction s arbitrary: w)
  case Nil
  then show ?case by simp
next
  case (Cons x s)
  then show ?case
    by (cases "split_on c s"; cases "x = c") auto
qed

lemma split_on_single: "split_on c s = [w] \<longleftrightarrow> w = s \<and> c \<notin> set s"
  using split_on_singleD split_on_none by metis

lemma split_on_pair:
  "split_on c s = [a, b] \<longleftrightarrow> s = a @ c # b \<and> c \<notin> set a \<and> c \<notin> set b"
proof
  assume "split_on c s = [a, b]"
  then show "s = a @ c # b \<and> c \<notin> set a \<and> c \<notin> set b"
  proof (induction s arbitrary: a)
    case (Cons x s)
    then show ?case
      by (cases "split_on c s"; cases "x = c") (auto simp: split_on_single)
  qed simp
qed (simp add: split_on_sep split_on_none)

lemma split_on_parts: "w \<in> set (split_on c s) \<Longrightarrow> c \<notin> set w"
  by (induction s arbitrary: w) (auto split: if_splits list.splits)

lemma py_index_0: "py_index (x # xs) 0 = Inr x"
  by (simp add: py_index_def)

lemma py_index_1: "py_index (x # y # xs) 1 = Inr y"
  by (simp add: py_index_def)

lemma slice_nat:
  "0 \<le> i \<Longrightarrow> 0 \<le> j \<Longrightarrow> py_slice xs i j = take (nat j - nat i) (drop (nat i) xs)"
  by (auto simp: py_slice_def slice_bound_def Let_def min_def nat_le_iff)

subsection \<open>Decimal notation\<close>

function digits :: "int \<Rightarrow> pystr" where
  "digits n = (if n < 10 then [48 + n] else digits (n div 10) @ [48 + n mod 10])"
  by pat_completeness auto
termination
  by (relation "measure nat") (auto simp: nat_less_iff)

declare digits.simps [simp del]

text \<open>\<open>str(i)\<close>.\<close>

definition str_of_int :: "int \<Rightarrow> pystr" where
  "str_of_int i = (if i < 0 then 45 # digits (- i) else digits i)"

definition is_digit :: "int \<Rightarrow> bool" where
  "is_digit c \<longleftrightarrow> 48 \<le> c \<and> c \<le> 57"

definition int_of_digits :: "pystr \<Rightarrow> int" where
  "int_of_digits ds = foldl (\<lambda>n d. 10 * n + (d - 48)) 0 ds"

lemma digits_not_Nil [simp]: "digits n \<noteq> []"
  by (subst digits.simps) simp

lemma digits_digits: "0 \<le> n \<Longrightarrow> list_all is_digit (digits n)"
proof (induction n rule: digits.induct)
  case (1 n)
  have "is_digit (48 + n mod 10)" by (simp add: is_digit_def)
  moreover have "n < 10 \<Longrightarrow> is_digit (48 + n)" using 1 by (simp add: is_digit_def)
  ultimately show ?case
    using 1 by (subst digits.simps) auto
qed

lemma int_of_digits_snoc: "int_of_digits (ds @ [d]) = 10 * int_of_digits ds + (d - 48)"
  by (simp add: int_of_digits_def)

lemma int_of_digits_digits [simp]: "int_of_digits (digits n) = n"
proof (induction n rule: digits.induct)
  case (1 n)
  show ?case
  proof (cases "n < 10")
    case True
    then show ?thesis by (subst digits.simps) (simp add: int_of_digits_def)
  next
    case False
    with 1 show ?thesis by (subst digits.simps) (simp add: int_of_digits_snoc)
  qed
qed

lemma digits_head: "0 < n \<Longrightarrow> hd (digits n) \<noteq> 48"
proof (induction n rule: digits.induct)
  case (1 n)
  show ?case
  proof (cases "n < 10")
    case True
    with 1 show ?thesis by (subst digits.simps) simp
  next
    case False
    with 1 have "hd (digits (n div 10)) \<noteq> 48" by auto
    with False show ?thesis by (subst digits.simps) simp
  qed
qed

lemma digits_0: "digits 0 = [48]"
  by (subst digits.simps) simp

lemma plain_digits: "0 \<le> n \<Longrightarrow> plain_str (digits n)"
  using digits_digits [of n] by (auto simp: plain_str_def is_digit_def list_all_iff)

lemma plain_str_of_int: "plain_str (str_of_int i)"
  by (simp add: str_of_int_def plain_digits)

subsection \<open>Reading integers\<close>

text \<open>
  \<open>int(s)\<close>: surrounding white space is dropped, then an optional sign and digits, with
  single underscores allowed between digits. The digits are the ASCII ones.
\<close>

definition py_space :: "int \<Rightarrow> bool" where
  "py_space c \<longleftrightarrow> (9 \<le> c \<and> c \<le> 13) \<or> (28 \<le> c \<and> c \<le> 32) \<or> c = 0x85 \<or> c = 0xA0 \<or> c = 0x1680
     \<or> (0x2000 \<le> c \<and> c \<le> 0x200A) \<or> c \<in> {0x2028, 0x2029, 0x202F, 0x205F, 0x3000}"

definition strip :: "pystr \<Rightarrow> pystr" where
  "strip s = rev (dropWhile py_space (rev (dropWhile py_space s)))"

fun digits_us :: "pystr \<Rightarrow> pystr option" where
  "digits_us [] = None"
| "digits_us [c] = (if is_digit c then Some [c] else None)"
| "digits_us (c # d # s) =
     (if \<not> is_digit c then None
      else if d = 95 then map_option (Cons c) (digits_us s)
      else map_option (Cons c) (digits_us (d # s)))"

definition int_of_str :: "pystr \<Rightarrow> int res" where
  "int_of_str s0 =
     (let s = strip s0;
          (neg, ds) = (case s of [] \<Rightarrow> (False, [])
             | c # cs \<Rightarrow> if c = 45 then (True, cs) else if c = 43 then (False, cs) else (False, s))
      in case digits_us ds of None \<Rightarrow> Inl ValueError
         | Some d \<Rightarrow> Inr (if neg then - int_of_digits d else int_of_digits d))"

lemma digits_us_digits: "ds \<noteq> [] \<Longrightarrow> list_all is_digit ds \<Longrightarrow> digits_us ds = Some ds"
  by (induction ds rule: digits_us.induct) (auto simp: is_digit_def)

lemma dropWhile_hd: "s \<noteq> [] \<Longrightarrow> \<not> P (hd s) \<Longrightarrow> dropWhile P s = s"
  by (cases s) auto

lemma strip_id:
  "s \<noteq> [] \<Longrightarrow> \<not> py_space (hd s) \<Longrightarrow> \<not> py_space (last s) \<Longrightarrow> strip s = s"
  by (simp add: strip_def dropWhile_hd hd_rev)

lemma digit_not_space: "is_digit c \<Longrightarrow> \<not> py_space c"
  by (auto simp: is_digit_def py_space_def)

lemma int_of_str_of_int: "int_of_str (str_of_int i) = Inr i"
proof -
  have d: "is_digit (hd (digits n))" "is_digit (last (digits n))" if "0 \<le> n" for n
    using digits_digits [OF that] by (auto simp: list_all_iff)
  have us: "digits_us (digits n) = Some (digits n)" if "0 \<le> n" for n
    by (rule digits_us_digits) (auto simp: digits_digits that)
  have "strip (str_of_int i) = str_of_int i"
    by (rule strip_id) (use d digit_not_space in \<open>auto simp: str_of_int_def py_space_def\<close>)
  moreover obtain c cs where c: "digits i = c # cs" by (cases "digits i") auto
  then have "0 \<le> i \<Longrightarrow> is_digit c" using d(1) [of i] by simp
  moreover have "0 \<le> i \<Longrightarrow> digits_us (c # cs) = Some (c # cs)" "int_of_digits (c # cs) = i"
    using us [of i] int_of_digits_digits [of i] by (simp_all add: c)
  ultimately show ?thesis
    using c us [of "- i"] by (auto simp: int_of_str_def str_of_int_def is_digit_def Let_def)
qed

end
