(* ===== verification/Utf8.thy ===== *)
theory Utf8
  imports PyStr
begin

section \<open>UTF-8\<close>

text \<open>
  \<open>str.encode()\<close> and \<open>bytes.decode()\<close> with their default codec and strict errors:
  surrogates do not encode; overlong forms, surrogates, values beyond the code space and
  truncated or stray bytes do not decode. The flag of the decoder is the
  \<open>surrogatepass\<close> error handler that \<open>json.loads\<close> selects for a \<open>bytes\<close> argument.
\<close>

definition utf8_char :: "int \<Rightarrow> int list res" where
  "utf8_char c =
     (if c < 0 then Inl UnicodeEncodeError
      else if c < 0x80 then Inr [c]
      else if c < 0x800 then Inr [0xC0 + c div 64, 0x80 + c mod 64]
      else if 0xD800 \<le> c \<and> c < 0xE000 then Inl UnicodeEncodeError
      else if c < 0x10000 then
        Inr [0xE0 + c div 4096, 0x80 + c div 64 mod 64, 0x80 + c mod 64]
      else if c < 0x110000 then
        Inr [0xF0 + c div 262144, 0x80 + c div 4096 mod 64, 0x80 + c div 64 mod 64, 0x80 + c mod 64]
      else Inl UnicodeEncodeError)"

definition bytes_of_ints :: "int list \<Rightarrow> byte list" where
  "bytes_of_ints = map word_of_int"

definition ints_of_bytes :: "byte list \<Rightarrow> int list" where
  "ints_of_bytes = map uint"

definition utf8_encode :: "pystr \<Rightarrow> byte list res" where
  "utf8_encode s = rbind (traverse utf8_char s) (\<lambda>bss. Inr (bytes_of_ints (concat bss)))"

definition cont :: "int \<Rightarrow> bool" where
  "cont b \<longleftrightarrow> 0x80 \<le> b \<and> b < 0xC0"

definition surrogate :: "int \<Rightarrow> bool" where
  "surrogate c \<longleftrightarrow> 0xD800 \<le> c \<and> c < 0xE000"

text \<open>One code point: the leading byte, then the bytes after it.\<close>

definition utf8_step :: "bool \<Rightarrow> int \<Rightarrow> int list \<Rightarrow> (int \<times> int list) option" where
  "utf8_step sp a bs =
     (if a < 0x80 then Some (a, bs)
      else if 0xC2 \<le> a \<and> a < 0xE0 then
        (case bs of b # bs' \<Rightarrow>
           if cont b then Some ((a - 0xC0) * 64 + (b - 0x80), bs') else None
         | _ \<Rightarrow> None)
      else if 0xE0 \<le> a \<and> a < 0xF0 then
        (case bs of b1 # b2 # bs' \<Rightarrow>
           (let c = (a - 0xE0) * 4096 + (b1 - 0x80) * 64 + (b2 - 0x80) in
            if cont b1 \<and> cont b2 \<and> 0x800 \<le> c \<and> (sp \<or> \<not> surrogate c) then Some (c, bs') else None)
         | _ \<Rightarrow> None)
      else if 0xF0 \<le> a \<and> a < 0xF5 then
        (case bs of b1 # b2 # b3 # bs' \<Rightarrow>
           (let c = (a - 0xF0) * 262144 + (b1 - 0x80) * 4096 + (b2 - 0x80) * 64 + (b3 - 0x80) in
            if cont b1 \<and> cont b2 \<and> cont b3 \<and> 0x10000 \<le> c \<and> c < 0x110000 then Some (c, bs') else None)
         | _ \<Rightarrow> None)
      else None)"

lemma utf8_step_shrinks [termination_simp]:
  "utf8_step sp a bs = Some (c, rest) \<Longrightarrow> length rest < Suc (length bs)"
  by (auto simp: utf8_step_def Let_def split: if_splits list.splits)

fun utf8_dec :: "bool \<Rightarrow> int list \<Rightarrow> pystr res" where
  "utf8_dec sp [] = Inr []"
| "utf8_dec sp (a # bs) =
     (case utf8_step sp a bs of None \<Rightarrow> Inl UnicodeDecodeError
      | Some (c, rest) \<Rightarrow> rbind (utf8_dec sp rest) (\<lambda>s. Inr (c # s)))"

definition utf8_decode :: "byte list \<Rightarrow> pystr res" where
  "utf8_decode bs = utf8_dec False (ints_of_bytes bs)"

subsection \<open>The codec\<close>

lemma digits64_3: "(c::int) = c div 4096 * 4096 + c div 64 mod 64 * 64 + c mod 64"
proof -
  have "c div 4096 = c div 64 div 64" by (simp flip: zdiv_zmult2_eq)
  then show ?thesis
    using div_mult_mod_eq [of c 64] div_mult_mod_eq [of "c div 64" 64] by linarith
qed

lemma digits64_4:
  "(c::int) = c div 262144 * 262144 + c div 4096 mod 64 * 4096 + c div 64 mod 64 * 64 + c mod 64"
proof -
  have "c div 262144 = c div 4096 div 64" by (simp flip: zdiv_zmult2_eq)
  then show ?thesis
    using digits64_3 [of c] div_mult_mod_eq [of "c div 4096" 64] by linarith
qed

lemma utf8_step2_raw:
  assumes "2 \<le> x" "x < 32" "0 \<le> y" "y < 64" "c = x * 64 + y"
  shows "utf8_step sp (0xC0 + x) ((0x80 + y) # rest) = Some (c, rest)"
  using assms by (simp add: utf8_step_def cont_def)

lemma utf8_step3_raw:
  assumes "0 \<le> x" "x < 16" "0 \<le> y" "y < 64" "0 \<le> z" "z < 64" "c = x * 4096 + y * 64 + z" "0x800 \<le> c" "\<not> surrogate c"
  shows "utf8_step sp (0xE0 + x) ((0x80 + y) # (0x80 + z) # rest) = Some (c, rest)"
  using assms by (simp add: utf8_step_def cont_def)

lemma utf8_step4_raw:
  assumes "0 \<le> w" "w < 5" "0 \<le> x" "x < 64" "0 \<le> y" "y < 64" "0 \<le> z" "z < 64"
    "c = w * 262144 + x * 4096 + y * 64 + z" "0x10000 \<le> c" "c < 0x110000"
  shows "utf8_step sp (0xF0 + w) ((0x80 + x) # (0x80 + y) # (0x80 + z) # rest) = Some (c, rest)"
  using assms by (simp add: utf8_step_def cont_def)

lemma mod64: "0 \<le> (c::int) mod 64" "(c::int) mod 64 < 64"
  by simp_all

lemma utf8_step2:
  "0x80 \<le> c \<Longrightarrow> c < 0x800 \<Longrightarrow> utf8_step sp (0xC0 + c div 64) ((0x80 + c mod 64) # rest) = Some (c, rest)"
  by (rule utf8_step2_raw) (simp_all add: mod64 )

lemma utf8_step3:
  "0x800 \<le> c \<Longrightarrow> c < 0x10000 \<Longrightarrow> \<not> surrogate c \<Longrightarrow>
    utf8_step sp (0xE0 + c div 4096) ((0x80 + c div 64 mod 64) # (0x80 + c mod 64) # rest) = Some (c, rest)"
  by (rule utf8_step3_raw) (simp_all add: mod64 digits64_3 [symmetric])

lemma utf8_step4:
  "0x10000 \<le> c \<Longrightarrow> c < 0x110000 \<Longrightarrow> utf8_step sp (0xF0 + c div 262144)
    ((0x80 + c div 4096 mod 64) # (0x80 + c div 64 mod 64) # (0x80 + c mod 64) # rest) = Some (c, rest)"
  by (rule utf8_step4_raw) (simp_all add: mod64 digits64_4 [symmetric])

lemma utf8_char_dec:
  assumes "utf8_char c = Inr bs"
  shows "utf8_dec sp (bs @ rest) = rbind (utf8_dec sp rest) (\<lambda>s. Inr (c # s))"
proof -
  consider "0 \<le> c" "c < 0x80" "bs = [c]"
    | "0x80 \<le> c" "c < 0x800" "bs = [0xC0 + c div 64, 0x80 + c mod 64]"
    | "0x800 \<le> c" "c < 0x10000" "\<not> surrogate c"
      "bs = [0xE0 + c div 4096, 0x80 + c div 64 mod 64, 0x80 + c mod 64]"
    | "0x10000 \<le> c" "c < 0x110000"
      "bs = [0xF0 + c div 262144, 0x80 + c div 4096 mod 64, 0x80 + c div 64 mod 64, 0x80 + c mod 64]"
    using assms by (fastforce simp: utf8_char_def surrogate_def split: if_splits)
  then show ?thesis
  proof cases
    case 1
    then show ?thesis by (simp add: utf8_step_def)
  qed (simp_all add: utf8_step2 utf8_step3 utf8_step4)
qed

lemma utf8_char_scalar: "scalar c \<Longrightarrow> \<exists>bs. utf8_char c = Inr bs"
  by (auto simp: scalar_def utf8_char_def)

definition byte_range :: "int list \<Rightarrow> bool" where
  "byte_range bs \<longleftrightarrow> list_all (\<lambda>b. 0 \<le> b \<and> b < 256) bs"

lemma mod64_bound: "128 + (c::int) mod 64 < 256" "0 \<le> 128 + (c::int) mod 64"
  using mod64 [of c] by simp_all

lemma utf8_char_bytes: "utf8_char c = Inr bs \<Longrightarrow> byte_range bs"
  by (auto simp: utf8_char_def byte_range_def mod64_bound split: if_splits)

lemma ints_of_bytes_of_ints: "byte_range bs \<Longrightarrow> ints_of_bytes (bytes_of_ints bs) = bs"
  by (induction bs) (auto simp: byte_range_def ints_of_bytes_def bytes_of_ints_def unsigned_of_int take_bit_int_eq_self)

lemma bytes_of_ints_of_bytes [simp]: "bytes_of_ints (ints_of_bytes bs) = bs"
  by (induction bs) (auto simp: bytes_of_ints_def ints_of_bytes_def)

lemma utf8_dec_encode:
  "traverse utf8_char s = Inr bss \<Longrightarrow> utf8_dec sp (concat bss) = Inr s"
  by (induction s arbitrary: bss) (auto simp: res_simps utf8_char_dec)

lemma traverse_utf8_bytes: "traverse utf8_char s = Inr bss \<Longrightarrow> byte_range (concat bss)"
proof (induction s arbitrary: bss)
  case (Cons c s)
  then show ?case using utf8_char_bytes by (auto simp: res_simps byte_range_def)
qed (simp add: byte_range_def)

lemma utf8_encode_ints:
  "utf8_encode s = Inr bs \<Longrightarrow> \<exists>bss. traverse utf8_char s = Inr bss \<and> ints_of_bytes bs = concat bss"
  by (auto simp: utf8_encode_def res_simps ints_of_bytes_of_ints traverse_utf8_bytes)

lemma utf8_dec_of_encode: "utf8_encode s = Inr bs \<Longrightarrow> utf8_dec sp (ints_of_bytes bs) = Inr s"
  by (auto dest!: utf8_encode_ints simp: utf8_dec_encode)

lemma utf8_encode_ok: "scalar_str s \<Longrightarrow> \<exists>bs. utf8_encode s = Inr bs"
proof (induction s)
  case Nil
  then show ?case by (simp add: utf8_encode_def)
next
  case (Cons c s)
  then show ?case
    using utf8_char_scalar [of c] by (auto simp: utf8_encode_def res_simps)
qed

interpretation utf8: codec utf8_encode utf8_decode scalar_str
proof
  fix s
  assume "scalar_str s"
  then obtain bs where "utf8_encode s = Inr bs" using utf8_encode_ok by blast
  then show "rbind (utf8_encode s) utf8_decode = Inr s"
    by (simp add: utf8_decode_def utf8_dec_of_encode)
qed

text \<open>An ASCII string is its own encoding, byte for byte.\<close>

lemma utf8_encode_ascii: "ascii_str s \<Longrightarrow> utf8_encode s = Inr (bytes_of_ints s)"
proof -
  assume "ascii_str s"
  then have "traverse utf8_char s = Inr (map (\<lambda>c. [c]) s)"
    by (intro traverse_Inr) (auto simp: utf8_char_def ascii_str_def list_all_iff)
  moreover have "concat (map (\<lambda>c. [c]) s) = s" by (induction s) auto
  ultimately show ?thesis by (simp add: utf8_encode_def)
qed

lemma length_utf8_ascii: "ascii_str s \<Longrightarrow> utf8_encode s = Inr bs \<Longrightarrow> length bs = length s"
  by (simp add: utf8_encode_ascii bytes_of_ints_def) (metis length_map)

lemma utf8_dec_error: "utf8_dec sp ns = Inl e \<Longrightarrow> e = UnicodeDecodeError"
  by (induction sp ns rule: utf8_dec.induct) (auto simp: rbind_Inl split: option.splits)

lemma utf8_decode_error: "utf8_decode bs = Inl e \<Longrightarrow> e = UnicodeDecodeError"
  by (simp add: utf8_decode_def utf8_dec_error)

subsection \<open>Parts of an encoded text\<close>

text \<open>The encoding marks where a character starts, so a part of an encoded text decodes only when it consists of whole characters.\<close>

definition utf8_text :: "pystr \<Rightarrow> int list \<Rightarrow> bool" where
  "utf8_text s ns \<longleftrightarrow> (\<exists>bss. traverse utf8_char s = Inr bss \<and> ns = concat bss)"

lemma utf8_text_simps [simp]:
  "utf8_text [] ns \<longleftrightarrow> ns = []"
  "utf8_text (c # s) ns \<longleftrightarrow> (\<exists>b ns'. utf8_char c = Inr b \<and> utf8_text s ns' \<and> ns = b @ ns')"
  by (auto simp: utf8_text_def res_simps)

lemma utf8_text_encode: "utf8_encode s = Inr bs \<longleftrightarrow> utf8_text s (ints_of_bytes bs)"
proof
  assume "utf8_text s (ints_of_bytes bs)"
  then obtain bss where "traverse utf8_char s = Inr bss" "ints_of_bytes bs = concat bss" by (auto simp: utf8_text_def)
  moreover from this have "bytes_of_ints (concat bss) = bs" by (metis bytes_of_ints_of_bytes)
  ultimately show "utf8_encode s = Inr bs" by (simp add: utf8_encode_def)
qed (auto simp: utf8_text_def dest: utf8_encode_ints)

lemma cont_mod: "cont (128 + c mod 64)"
  using mod64 [of c] by (simp add: cont_def)

lemma utf8_char_shape:
  assumes "utf8_char c = Inr bs"
  obtains a cs where "bs = a # cs" "list_all cont cs"
    "a < 0x80 \<and> cs = [] \<or> 0xC2 \<le> a \<and> a < 0xE0 \<and> length cs = 1 \<or> 0xE0 \<le> a \<and> a < 0xF0 \<and> length cs = 2 \<or>
      0xF0 \<le> a \<and> a < 0xF5 \<and> length cs = 3"
proof -
  consider "c < 0x80" "bs = [c]"
    | "0x80 \<le> c" "c < 0x800" "bs = [0xC0 + c div 64, 0x80 + c mod 64]"
    | "0x800 \<le> c" "c < 0x10000" "bs = [0xE0 + c div 4096, 0x80 + c div 64 mod 64, 0x80 + c mod 64]"
    | "0x10000 \<le> c" "c < 0x110000"
      "bs = [0xF0 + c div 262144, 0x80 + c div 4096 mod 64, 0x80 + c div 64 mod 64, 0x80 + c mod 64]"
    using assms by (fastforce simp: utf8_char_def split: if_splits)
  then show thesis
  proof cases
    case 1
    then show thesis using that [of c "[]"] by simp
  next
    case 2
    then have "2 \<le> c div 64" "c div 64 < 32" by linarith+
    with 2 show thesis using that [of "0xC0 + c div 64" "[0x80 + c mod 64]"] by (simp add: cont_mod)
  next
    case 3
    then have "0 \<le> c div 4096" "c div 4096 < 16" by linarith+
    with 3 show thesis using that [of "0xE0 + c div 4096" "[0x80 + c div 64 mod 64, 0x80 + c mod 64]"] by (simp add: cont_mod)
  next
    case 4
    then have "0 \<le> c div 262144" "c div 262144 < 5" by linarith+
    with 4 show thesis
      using that [of "0xF0 + c div 262144" "[0x80 + c div 4096 mod 64, 0x80 + c div 64 mod 64, 0x80 + c mod 64]"]
      by (simp add: cont_mod)
  qed
qed

lemma utf8_char_cont:
  assumes "utf8_char c = Inr (p @ b # q)" "p \<noteq> []"
  shows "cont b" "\<not> is_ok (utf8_dec sp p)"
proof -
  obtain a cs where a: "p @ b # q = a # cs" "list_all cont cs"
      "a < 0x80 \<and> cs = [] \<or> 0xC2 \<le> a \<and> a < 0xE0 \<and> length cs = 1 \<or> 0xE0 \<le> a \<and> a < 0xF0 \<and> length cs = 2 \<or>
        0xF0 \<le> a \<and> a < 0xF5 \<and> length cs = 3"
    using utf8_char_shape [OF assms(1)] .
  obtain p' where p': "p = a # p'" "cs = p' @ b # q" using a(1) assms(2) by (cases p) auto
  show "cont b" using a(2) p'(2) by simp
  have "length p' < length cs" using p'(2) by simp
  then have "utf8_step sp a p' = None" using a(3)
    by (elim disjE conjE) (auto simp: utf8_step_def numeral_eq_Suc less_Suc_eq length_Suc_conv split: list.split)
  then show "\<not> is_ok (utf8_dec sp p)" using p'(1) by (simp add: is_ok_def)
qed

lemma utf8_dec_start: "is_ok (utf8_dec sp (b # bs)) \<Longrightarrow> \<not> cont b"
  by (auto simp: cont_def utf8_step_def is_ok_def)

lemma utf8_text_tail:
  "utf8_text s (p @ b # q) \<Longrightarrow> \<not> cont b \<Longrightarrow> \<exists>s1 s2. s = s1 @ s2 \<and> utf8_text s1 p \<and> utf8_text s2 (b # q)"
proof (induction s arbitrary: p)
  case (Cons c s)
  then obtain ch ns where c: "utf8_char c = Inr ch" "utf8_text s ns" "p @ b # q = ch @ ns" "b # q \<noteq> []" by auto
  show ?case
  proof (cases "p = []")
    case True
    with Cons.prems show ?thesis by (intro exI [of _ "[]"] exI [of _ "c # s"]) simp
  next
    case False
    from c(3,4) show ?thesis
    proof (cases rule: prefix_cases)
      case (left q')
      then obtain q1 where "ch = p @ b # q1" using c(3) by (cases q') auto
      with utf8_char_cont(1) [of c p b q1] c(1) False Cons.prems(2) show ?thesis by simp
    next
      case (right p')
      with c(2) Cons.IH [of p'] Cons.prems(2) obtain s1 s2 where "s = s1 @ s2" "utf8_text s1 p'" "utf8_text s2 (b # q)" by auto
      with c(1) right(1) show ?thesis by (intro exI [of _ "c # s1"] exI [of _ s2]) auto
    qed
  qed
qed simp

lemma utf8_text_head:
  "utf8_text s (r @ q) \<Longrightarrow> utf8_dec sp r = Inr x \<Longrightarrow> \<exists>s2. s = x @ s2 \<and> utf8_text x r \<and> utf8_text s2 q"
proof (induction s arbitrary: r x)
  case (Cons c s)
  then obtain ch ns where c: "utf8_char c = Inr ch" "utf8_text s ns" "r @ q = ch @ ns" by auto
  consider "r = []" | "r \<noteq> []" "q = []" | "r \<noteq> []" "q \<noteq> []" by blast
  then show ?case
  proof cases
    case 1
    with Cons.prems show ?thesis by (intro exI [of _ "c # s"]) simp
  next
    case 2
    then have "utf8_text (c # s) r" using Cons.prems(1) by simp
    with utf8_dec_encode [of "c # s"] Cons.prems(2) have "x = c # s" unfolding utf8_text_def by auto
    with \<open>utf8_text (c # s) r\<close> 2 show ?thesis by (intro exI [of _ "[]"]) simp
  next
    case 3
    from c(3) 3(2) show ?thesis
    proof (cases rule: prefix_cases)
      case (left q')
      then obtain b q1 where "ch = r @ b # q1" by (cases q') auto
      with utf8_char_cont(2) [of c r b q1 sp] c(1) 3(1) Cons.prems(2) show ?thesis by (simp add: is_ok_def)
    next
      case (right r')
      then obtain x' where x': "utf8_dec sp r' = Inr x'" "x = c # x'"
        using Cons.prems(2) utf8_char_dec [OF c(1)] by (auto simp: res_simps)
      with Cons.IH [of r' x'] c(2) right(2) obtain s2 where "s = x' @ s2" "utf8_text x' r'" "utf8_text s2 q" by auto
      with x'(2) c(1) right(1) show ?thesis by auto
    qed
  qed
qed simp

lemma utf8_slice:
  assumes "utf8_encode s = Inr (p @ rd @ q)" "utf8_decode rd = Inr x" "rd \<noteq> []"
  obtains s1 s2 where "s = s1 @ x @ s2" "utf8_encode s1 = Inr p" "utf8_encode x = Inr rd" "utf8_encode s2 = Inr q"
proof -
  let ?i = ints_of_bytes
  have e: "utf8_text s (?i p @ ?i rd @ ?i q)" "utf8_dec False (?i rd) = Inr x"
    using assms(1,2) by (simp_all add: utf8_text_encode utf8_decode_def ints_of_bytes_def)
  obtain b r where b: "?i rd = b # r" using assms(3) by (cases rd) (auto simp: ints_of_bytes_def)
  with e(2) have "\<not> cont b" using utf8_dec_start [of False b r] by (simp add: is_ok_def)
  with utf8_text_tail [of s "?i p" b "r @ ?i q"] e(1) b obtain s1 s' where
    1: "s = s1 @ s'" "utf8_text s1 (?i p)" "utf8_text s' (?i rd @ ?i q)" by auto
  from utf8_text_head [OF 1(3) e(2)] 1 that show thesis by (auto simp: utf8_text_encode)
qed
end
