(* ===== verification/PyFloat.thy ===== *)
theory PyFloat
  imports PyStr Complex_Main
begin

section \<open>Python floats\<close>

text \<open>
  A \<open>float\<close> is an IEEE double. A finite one is the rational number it denotes, with
  negative zero apart; the operations compute the exact rational result and round it to the
  nearest double, ties to even, as the hardware and CPython do.
\<close>

datatype pyfloat = Fin rat | NegZero | PInf | NInf | NaN

subsection \<open>Rounding\<close>

definition rpow :: "rat \<Rightarrow> int \<Rightarrow> rat" where
  "rpow b e = (if 0 \<le> e then b ^ nat e else 1 / b ^ nat (- e))"

function nbits :: "int \<Rightarrow> int" where
  "nbits n = (if n \<le> 0 then 0 else 1 + nbits (n div 2))"
  by pat_completeness auto
termination
  by (relation "measure nat") (auto simp: nat_less_iff)

declare nbits.simps [simp del]

text \<open>The exponent of the greatest power of two that is at most \<open>q\<close>, for \<open>0 < q\<close>.\<close>

definition ilog2 :: "rat \<Rightarrow> int" where
  "ilog2 q =
     (let (n, d) = quotient_of q; e = nbits n - nbits d
      in if rpow 2 e \<le> q then e else e - 1)"

definition round_half_even :: "rat \<Rightarrow> int" where
  "round_half_even q =
     (let n = \<lfloor>q\<rfloor>; r = q - of_int n
      in if r < 1 / 2 then n else if 1 / 2 < r then n + 1 else if even n then n else n + 1)"

text \<open>
  53 bits of precision, exponents from -1022 (gradual underflow below), overflow from
  \<open>2 ^ 1024\<close> on. \<open>round_double q\<close> is the rounded magnitude of \<open>0 \<le> q\<close>.
\<close>

definition round_double :: "rat \<Rightarrow> rat" where
  "round_double q =
     (if q = 0 then 0
      else (let e = max (ilog2 q) (-1022) - 52 in of_int (round_half_even (q / rpow 2 e)) * rpow 2 e))"

definition fl_abs :: "rat \<Rightarrow> pyfloat" where
  "fl_abs q = (let r = round_double q in if rpow 2 1024 \<le> r then PInf else Fin r)"

fun fneg :: "pyfloat \<Rightarrow> pyfloat" where
  "fneg (Fin q) = (if q = 0 then NegZero else Fin (- q))"
| "fneg NegZero = Fin 0"
| "fneg PInf = NInf"
| "fneg NInf = PInf"
| "fneg NaN = NaN"

definition fl :: "rat \<Rightarrow> pyfloat" where
  "fl q = (if q < 0 then fneg (fl_abs (- q)) else fl_abs q)"

subsection \<open>Conversions and comparisons\<close>

definition float_of_int :: "int \<Rightarrow> pyfloat res" where
  "float_of_int i = (let f = fl (of_int i) in if f = PInf \<or> f = NInf then Inl OverflowError else Inr f)"

fun int_of_float :: "pyfloat \<Rightarrow> int res" where
  "int_of_float (Fin q) = Inr (if q < 0 then - \<lfloor>- q\<rfloor> else \<lfloor>q\<rfloor>)"
| "int_of_float NegZero = Inr 0"
| "int_of_float PInf = Inl OverflowError"
| "int_of_float NInf = Inl OverflowError"
| "int_of_float NaN = Inl ValueError"

fun float_truth :: "pyfloat \<Rightarrow> bool" where
  "float_truth (Fin q) = (q \<noteq> 0)"
| "float_truth NegZero = False"
| "float_truth _ = True"

text \<open>The number a comparison sees: none for NaN, both zeros are 0.\<close>

fun fval :: "pyfloat \<Rightarrow> rat option" where
  "fval (Fin q) = Some q"
| "fval NegZero = Some 0"
| "fval _ = None"

fun flt :: "pyfloat \<Rightarrow> pyfloat \<Rightarrow> bool" where
  "flt NaN _ = False"
| "flt _ NaN = False"
| "flt _ NInf = False"
| "flt NInf _ = True"
| "flt PInf _ = False"
| "flt _ PInf = True"
| "flt a b = (case (fval a, fval b) of (Some p, Some q) \<Rightarrow> p < q | _ \<Rightarrow> False)"

fun feq :: "pyfloat \<Rightarrow> pyfloat \<Rightarrow> bool" where
  "feq NaN _ = False"
| "feq _ NaN = False"
| "feq PInf b = (b = PInf)"
| "feq NInf b = (b = NInf)"
| "feq a b = (case (fval a, fval b) of (Some p, Some q) \<Rightarrow> p = q | _ \<Rightarrow> False)"

text \<open>\<open>max(a, b)\<close>: the first argument unless the second is greater.\<close>

definition fmax :: "pyfloat \<Rightarrow> pyfloat \<Rightarrow> pyfloat" where
  "fmax a b = (if flt a b then b else a)"

text \<open>\<open>a / b\<close> on integers: the correctly rounded quotient.\<close>

definition true_div :: "int \<Rightarrow> int \<Rightarrow> pyfloat res" where
  "true_div a b =
     (if b = 0 then Inl ZeroDivisionError
      else (let q = fl_abs (of_int \<bar>a\<bar> / of_int \<bar>b\<bar>)
            in if q = PInf then Inl OverflowError
               else Inr (if (a < 0) \<noteq> (b < 0) then fneg q else q)))"

lemma fl_abs_1: "fl_abs 1 = Fin 1"
  by code_simp

lemma float_of_int_7: "float_of_int 7 = Inr (Fin 7)"
  by code_simp

lemma true_div_half: "true_div 1 2 = Inr (Fin (1 / 2))"
  by code_simp

text \<open>The number of bits, and the exponent of the leading one.\<close>

lemma nbits_bounds: "0 < n \<Longrightarrow> 0 < nbits n \<and> 2 ^ nat (nbits n - 1) \<le> n \<and> n < 2 ^ nat (nbits n)"
proof (induction n rule: nbits.induct)
  case (1 n)
  show ?case
  proof (cases "n = 1")
    case True
    then show ?thesis by (simp add: nbits.simps)
  next
    case False
    then have h: "0 < n div 2" using 1(2) by linarith
    note ih = 1(1) [OF _ h]
    have b: "nbits n = 1 + nbits (n div 2)" using 1(2) by (simp add: nbits.simps)
    have ih': "0 < nbits (n div 2)" "2 ^ nat (nbits (n div 2) - 1) \<le> n div 2" "n div 2 < 2 ^ nat (nbits (n div 2))"
      using ih 1(2) by simp_all
    have e: "nat (nbits n - 1) = Suc (nat (nbits (n div 2) - 1))" "nat (nbits n) = Suc (nat (nbits (n div 2)))"
      using b ih'(1) by linarith+
    have "2 ^ nat (nbits n - 1) \<le> n" unfolding e(1) power_Suc using ih'(2) by linarith
    moreover have "n < 2 ^ nat (nbits n)" unfolding e(2) power_Suc using ih'(3) by linarith
    ultimately show ?thesis using b ih'(1) by simp
  qed
qed

lemma rpow2_add: "rpow 2 (a + b) = rpow 2 a * rpow 2 b"
proof -
  have "rpow 2 e = (2::rat) powi e" for e
    by (cases "0 \<le> e") (simp_all add: rpow_def power_int_def inverse_eq_divide power_one_over)
  then show ?thesis by (simp add: power_int_add)
qed

lemma rpow2_pos: "0 < rpow 2 e"
  by (simp add: rpow_def)

lemma ilog2_le:
  assumes "0 < q"
  shows "rpow 2 (ilog2 q) \<le> q"
proof -
  obtain n d where nd: "quotient_of q = (n, d)" by (cases "quotient_of q")
  have q: "q = of_int n / of_int d" "0 < d" using quotient_of_div [OF nd] quotient_of_denom_pos [OF nd] by auto
  then have n: "0 < n" using assms by (simp add: zero_less_divide_iff)
  let ?e = "nbits n - nbits d"
  have "rpow 2 (?e - 1) \<le> q"
  proof -
    have "rpow 2 (nbits n - 1) = of_int (2 ^ nat (nbits n - 1))"
      using nbits_bounds [OF n] by (simp add: rpow_def)
    also have "\<dots> \<le> of_int n" using nbits_bounds [OF n] by (simp only: of_int_le_iff)
    finally have "rpow 2 (nbits n - 1) \<le> of_int n" .
    moreover have "nbits n - 1 = (?e - 1) + nbits d" by simp
    ultimately have a: "rpow 2 (?e - 1) * rpow 2 (nbits d) \<le> of_int n" by (metis rpow2_add)
    have "rpow 2 (nbits d) = of_int (2 ^ nat (nbits d))" using nbits_bounds [OF q(2)] by (simp add: rpow_def)
    then have "of_int d \<le> rpow 2 (nbits d)" using nbits_bounds [OF q(2)] by (simp only: of_int_le_iff) simp
    then have "rpow 2 (?e - 1) * of_int d \<le> rpow 2 (?e - 1) * rpow 2 (nbits d)"
      by (intro mult_left_mono) (simp_all add: rpow2_pos less_imp_le)
    with a have "rpow 2 (?e - 1) * of_int d \<le> of_int n" by linarith
    then show ?thesis using q by (simp add: le_divide_eq)
  qed
  then show ?thesis by (simp add: ilog2_def nd Let_def)
qed

text \<open>Rounding loses at most half a unit in the 53rd place.\<close>

lemma round_half_even_low: "q - 1 / 2 \<le> of_int (round_half_even q)"
  using of_int_floor_le [of q] floor_correct [of q] by (simp add: round_half_even_def Let_def)

lemma round_double_low:
  assumes "1 / 2 \<le> q"
  shows "q * (1 - 1 / 2 ^ 53) \<le> round_double q"
proof -
  define e where "e = max (ilog2 q) (-1022) - 52"
  define y where "y = q / rpow 2 e"
  have p: "0 < rpow 2 e" by (rule rpow2_pos)
  have "rpow 2 (e + 52) \<le> q"
  proof (cases "ilog2 q \<ge> -1022")
    case True
    then show ?thesis using ilog2_le [of q] assms by (simp add: e_def max_def)
  next
    case False
    have "rpow 2 (- 1022) \<le> (1 / 2 :: rat)" by (simp add: rpow_def)
    with False assms show ?thesis by (simp add: e_def max_def)
  qed
  then have "rpow 2 e * rpow 2 52 \<le> q" by (simp add: rpow2_add)
  then have y: "2 ^ 52 \<le> y" using p by (simp add: y_def le_divide_eq rpow_def mult.commute)
  have "y * (1 - 1 / 2 ^ 53) \<le> y - 1 / 2" using y by (simp add: algebra_simps)
  with round_half_even_low [of y] have "y * (1 - 1 / 2 ^ 53) \<le> of_int (round_half_even y)" by linarith
  then have "y * (1 - 1 / 2 ^ 53) * rpow 2 e \<le> of_int (round_half_even y) * rpow 2 e"
    using p by (intro mult_right_mono) simp_all
  moreover have "round_double q = of_int (round_half_even y) * rpow 2 e"
    using assms by (simp add: round_double_def Let_def y_def e_def)
  moreover have "y * (1 - 1 / 2 ^ 53) * rpow 2 e = q * (1 - 1 / 2 ^ 53)" using p by (simp add: y_def)
  ultimately show ?thesis by simp
qed

subsection \<open>Decimal notation\<close>

text \<open>
  \<open>repr(f)\<close>: the shortest decimal that reads back as \<open>f\<close>, of those the nearest to it,
  in positional notation for exponents from -4 to 15 and in scientific notation otherwise.
  Seventeen digits always identify a double.
\<close>

definition ilog10 :: "rat \<Rightarrow> int" where
  "ilog10 q =
     (let k0 = (ilog2 q * 30103) div 100000 - 1;
          k1 = (if rpow 10 (k0 + 1) \<le> q then k0 + 1 else k0)
      in if rpow 10 (k1 + 1) \<le> q then k1 + 1 else k1)"

definition digits_at :: "rat \<Rightarrow> nat \<Rightarrow> (int \<times> int) option" where
  "digits_at q n =
     (let s = rpow 10 (ilog10 q - int n + 1); lo = \<lfloor>q / s\<rfloor>; hi = lo + 1;
          back = (\<lambda>m. fl_abs (of_int m * s) = Fin q);
          dlo = q - of_int lo * s; dhi = of_int hi * s - q
      in if back lo \<and> (dlo < dhi \<or> (dlo = dhi \<and> even lo) \<or> \<not> back hi) then Some (lo, ilog10 q - int n + 1)
         else if back hi then Some (hi, ilog10 q - int n + 1) else None)"

fun shortest :: "rat \<Rightarrow> nat list \<Rightarrow> (int \<times> int)" where
  "shortest q [] = (let s = rpow 10 (ilog10 q - 16) in (round_half_even (q / s), ilog10 q - 16))"
| "shortest q (n # ns) = (case digits_at q n of Some r \<Rightarrow> r | None \<Rightarrow> shortest q ns)"

fun strip_zeros :: "pystr \<Rightarrow> pystr" where
  "strip_zeros s = rev (dropWhile (\<lambda>c. c = 48) (rev s))"

definition repr_pos :: "rat \<Rightarrow> pystr" where
  "repr_pos q =
     (let (m, e) = shortest q [1..<18]; all = digits m; p = int (length all) + e; ds = strip_zeros all
      in if -4 < p \<and> p \<le> 16
         then (if p \<le> 0 then u ''0.'' @ replicate (nat (- p)) 48 @ ds
               else if int (length ds) \<le> p then ds @ replicate (nat p - length ds) 48 @ u ''.0''
               else take (nat p) ds @ u ''.'' @ drop (nat p) ds)
         else (let x = p - 1; xs = digits \<bar>x\<bar>
               in hd ds # (if tl ds = [] then [] else u ''.'' @ tl ds) @ u ''e'' @ (if x < 0 then u ''-'' else u ''+'')
                  @ (if length xs < 2 then 48 # xs else xs)))"

fun repr_float :: "pyfloat \<Rightarrow> pystr" where
  "repr_float (Fin q) = (if q = 0 then u ''0.0'' else if q < 0 then 45 # repr_pos (- q) else repr_pos q)"
| "repr_float NegZero = u ''-0.0''"
| "repr_float PInf = u ''inf''"
| "repr_float NInf = u ''-inf''"
| "repr_float NaN = u ''nan''"

text \<open>
  \<open>float(s)\<close>: white space around, underscores between digits, a sign, then a decimal
  number or one of the special names in any case.
\<close>

fun drop_underscores :: "bool \<Rightarrow> pystr \<Rightarrow> pystr option" where
  "drop_underscores d [] = Some []"
| "drop_underscores d (c # s) =
     (if c = 95 then (case s of x # _ \<Rightarrow> if d \<and> is_digit x then drop_underscores False s else None | [] \<Rightarrow> None)
      else map_option (Cons c) (drop_underscores (is_digit c) s))"

definition lower_ascii :: "pystr \<Rightarrow> pystr" where
  "lower_ascii s = map (\<lambda>c. if 65 \<le> c \<and> c \<le> 90 then c + 32 else c) s"

definition read_exp :: "pystr \<Rightarrow> int option" where
  "read_exp s =
     (case s of [] \<Rightarrow> Some 0
      | c # r \<Rightarrow>
        if c = 101 \<or> c = 69 then
          (let (neg, ds) = (case r of x # xs \<Rightarrow> if x = 45 then (True, xs) else if x = 43 then (False, xs) else (False, r)
                            | [] \<Rightarrow> (False, []))
           in if ds \<noteq> [] \<and> list_all is_digit ds
              then Some (if neg then - int_of_digits ds else int_of_digits ds) else None)
        else None)"

definition read_decimal :: "pystr \<Rightarrow> rat option" where
  "read_decimal s =
     (let ip = takeWhile is_digit s; r1 = dropWhile is_digit s;
          (fp, r2) = (case r1 of c # r \<Rightarrow> if c = 46 then (takeWhile is_digit r, dropWhile is_digit r) else ([], r1)
                      | [] \<Rightarrow> ([], []))
      in if ip = [] \<and> fp = [] then None
         else (case read_exp r2 of None \<Rightarrow> None
               | Some e \<Rightarrow> Some (of_int (int_of_digits (ip @ fp)) * rpow 10 (e - int (length fp)))))"

definition float_of_str :: "pystr \<Rightarrow> pyfloat res" where
  "float_of_str s0 =
     (case drop_underscores False (strip s0) of None \<Rightarrow> Inl ValueError
      | Some s1 \<Rightarrow>
        (let (neg, s) = (case s1 of c # r \<Rightarrow> if c = 45 then (True, r) else if c = 43 then (False, r) else (False, s1)
                         | [] \<Rightarrow> (False, []));
             sgn = (if neg then fneg else (\<lambda>f. f)); l = lower_ascii s
         in if l = u ''inf'' \<or> l = u ''infinity'' then Inr (sgn PInf)
            else if l = u ''nan'' then Inr NaN
            else (case read_decimal s of None \<Rightarrow> Inl ValueError | Some q \<Rightarrow> Inr (sgn (fl_abs q)))))"

end
