(* ===== verification/PyVal.thy ===== *)
theory PyVal
  imports Utf8 PyFloat
begin

section \<open>Dynamic Python values\<close>

text \<open>
  The values that JSON documents, dictionaries of the wire formats and untyped arguments
  range over. A dictionary is its list of entries in insertion order, with string keys.
\<close>

datatype pyval =
    PNone
  | PBool bool
  | PInt int
  | PFloat pyfloat
  | PStr pystr
  | PBytes "byte list"
  | PBytearray "byte list"
  | PList "pyval list"
  | PDict "(pystr \<times> pyval) list"

text \<open>\<open>v[k]\<close> and \<open>v[k] = x\<close> for a string \<open>k\<close>.\<close>

fun get_item :: "pyval \<Rightarrow> pystr \<Rightarrow> pyval res" where
  "get_item (PDict d) k = (case map_of d k of None \<Rightarrow> Inl KeyError | Some v \<Rightarrow> Inr v)"
| "get_item _ k = Inl TypeError"

fun set_item :: "pyval \<Rightarrow> pystr \<Rightarrow> pyval \<Rightarrow> pyval res" where
  "set_item (PDict d) k x = Inr (PDict (dict_set k x d))"
| "set_item _ k x = Inl TypeError"

text \<open>Every dictionary inside a value has one entry per key.\<close>

fun val_ok :: "pyval \<Rightarrow> bool" where
  "val_ok (PList vs) = list_all val_ok vs"
| "val_ok (PDict d) = (dict_ok d \<and> list_all (\<lambda>(k, v). val_ok v) d)"
| "val_ok _ = True"

end
