(* ===== verification/Base64.thy ===== *)
theory Base64
  imports PyVal
begin

section \<open>Base64\<close>

text \<open>
  \<open>base64.b64encode\<close> and \<open>base64.b64decode\<close>. The decoder is CPython's lenient one: it
  skips characters outside the alphabet, stops at the padding that completes a group and
  rejects input that ends inside a group.
\<close>

definition b64_char :: "int \<Rightarrow> int" where
  "b64_char n =
     (if n < 26 then 65 + n else if n < 52 then 71 + n else if n < 62 then n - 4
      else if n = 62 then 43 else 47)"

definition b64_val :: "int \<Rightarrow> int option" where
  "b64_val c =
     (if 65 \<le> c \<and> c \<le> 90 then Some (c - 65)
      else if 97 \<le> c \<and> c \<le> 122 then Some (c - 71)
      else if 48 \<le> c \<and> c \<le> 57 then Some (c + 4)
      else if c = 43 then Some 62 else if c = 47 then Some 63 else None)"

fun b2a :: "int list \<Rightarrow> int list" where
  "b2a [] = []"
| "b2a [a] = [b64_char (a div 4), b64_char (a mod 4 * 16), 61, 61]"
| "b2a [a, b] = [b64_char (a div 4), b64_char (a mod 4 * 16 + b div 16), b64_char (b mod 16 * 4), 61]"
| "b2a (a # b # c # bs) =
     b64_char (a div 4) # b64_char (a mod 4 * 16 + b div 16) # b64_char (b mod 16 * 4 + c div 64)
       # b64_char (c mod 64) # b2a bs"

text \<open>
  The decoder's state: the position in the group of four, the bits left over from the
  characters read so far, the padding characters seen since the last one of the alphabet.
\<close>

fun a2b :: "nat \<Rightarrow> int \<Rightarrow> nat \<Rightarrow> int list \<Rightarrow> int list res" where
  "a2b q l p [] = (if q = 0 then Inr [] else Inl BinasciiError)"
| "a2b q l p (c # cs) =
     (if c = 61 then
        (if 2 \<le> q then (if 4 \<le> q + Suc p then Inr [] else a2b q l (Suc p) cs) else a2b q l p cs)
      else (case b64_val c of
          None \<Rightarrow> a2b q l p cs
        | Some v \<Rightarrow>
            (if q = 0 then a2b 1 v 0 cs
             else if q = 1 then rbind (a2b 2 (v mod 16) 0 cs) (\<lambda>r. Inr ((l * 4 + v div 16) # r))
             else if q = 2 then rbind (a2b 3 (v mod 4) 0 cs) (\<lambda>r. Inr ((l * 16 + v div 4) # r))
             else rbind (a2b 0 0 0 cs) (\<lambda>r. Inr ((l * 64 + v) # r)))))"

definition b64encode :: "byte list \<Rightarrow> byte list" where
  "b64encode bs = bytes_of_ints (b2a (ints_of_bytes bs))"

definition b64decode :: "byte list \<Rightarrow> byte list res" where
  "b64decode bs = rbind (a2b 0 0 0 (ints_of_bytes bs)) (\<lambda>r. Inr (bytes_of_ints r))"

text \<open>
  \<open>b64encode(data).decode("ascii")\<close> (or \<open>"utf-8"\<close>), and \<open>b64decode\<close> of a \<open>str\<close>.
\<close>

definition b64_str :: "byte list \<Rightarrow> pystr" where
  "b64_str bs = b2a (ints_of_bytes bs)"

definition b64decode_str :: "pystr \<Rightarrow> byte list res" where
  "b64decode_str s = (if ascii_str s then b64decode (bytes_of_ints s) else Inl ValueError)"

subsection \<open>The codec\<close>

lemma b64_val_char: "0 \<le> n \<Longrightarrow> n < 64 \<Longrightarrow> b64_val (b64_char n) = Some n"
  by (simp add: b64_val_def b64_char_def)

lemma b64_char_not_pad: "0 \<le> n \<Longrightarrow> n < 64 \<Longrightarrow> b64_char n \<noteq> 61"
  by (simp add: b64_char_def)

lemma b64_char_ascii: "0 \<le> n \<Longrightarrow> n < 64 \<Longrightarrow> 0 \<le> b64_char n \<and> b64_char n < 128"
  by (simp add: b64_char_def)

lemma a2b_char:
  "0 \<le> n \<Longrightarrow> n < 64 \<Longrightarrow> a2b q l p (b64_char n # cs) =
    (if q = 0 then a2b 1 n 0 cs
     else if q = 1 then rbind (a2b 2 (n mod 16) 0 cs) (\<lambda>r. Inr ((l * 4 + n div 16) # r))
     else if q = 2 then rbind (a2b 3 (n mod 4) 0 cs) (\<lambda>r. Inr ((l * 16 + n div 4) # r))
     else rbind (a2b 0 0 0 cs) (\<lambda>r. Inr ((l * 64 + n) # r)))"
  by (simp add: b64_val_char b64_char_not_pad)

text \<open>The six-bit digits of a group, and how they give back its bytes.\<close>

lemma sextet1: "0 \<le> a \<Longrightarrow> a < 256 \<Longrightarrow> 0 \<le> a div 4 \<and> a div 4 < (64::int)"
  by auto

lemma sextet2: "0 \<le> b \<Longrightarrow> b < 256 \<Longrightarrow> 0 \<le> a mod 4 * 16 + b div 16 \<and> a mod 4 * 16 + b div 16 < (64::int)"
  using pos_mod_bound [of 4 a] pos_mod_sign [of 4 a] by auto

lemma sextet3: "0 \<le> c \<Longrightarrow> c < 256 \<Longrightarrow> 0 \<le> b mod 16 * 4 + c div 64 \<and> b mod 16 * 4 + c div 64 < (64::int)"
  using pos_mod_bound [of 16 b] pos_mod_sign [of 16 b] by auto

lemma sextet4: "0 \<le> c mod 64 \<and> c mod 64 < (64::int)"
  by auto

lemmas sextets = sextet1 sextet2 sextet3 sextet4
  sextet2 [of 0, simplified] sextet3 [of 0, simplified]

lemma octet1: "0 \<le> b \<Longrightarrow> b < 256 \<Longrightarrow> a div 4 * 4 + (a mod 4 * 16 + b div 16) div 16 = (a::int)"
  by (simp add: div_pos_pos_trivial flip: zdiv_zmult2_eq)

lemma octet2: "0 \<le> b \<Longrightarrow> b < 256 \<Longrightarrow> 0 \<le> c \<Longrightarrow> c < 256 \<Longrightarrow>
  (a mod 4 * 16 + b div 16) mod 16 * 16 + (b mod 16 * 4 + c div 64) div 4 = (b::int)"
proof -
  assume b: "0 \<le> b" "b < 256" "0 \<le> c" "c < 256"
  have "(a mod 4 * 16 + b div 16) mod 16 = b div 16"
    using b by (simp add: mod_add_eq mod_pos_pos_trivial)
  moreover have "(b mod 16 * 4 + c div 64) div 4 = b mod 16"
    using b by (simp flip: zdiv_zmult2_eq)
  ultimately show ?thesis by simp
qed

lemma octet3: "0 \<le> c \<Longrightarrow> c < 256 \<Longrightarrow> (b mod 16 * 4 + c div 64) mod 4 * 64 + c mod 64 = (c::int)"
proof -
  assume c: "0 \<le> c" "c < 256"
  then have "(b mod 16 * 4 + c div 64) mod 4 = c div 64" by simp
  then show ?thesis by simp
qed

lemmas octets = octet1 octet2 octet3 octet1 [of 0, simplified] octet2 [of _ 0, simplified]

lemma a2b_b2a: "byte_range bs \<Longrightarrow> a2b 0 0 0 (b2a bs) = Inr bs"
proof (induction bs rule: b2a.induct)
  case (2 a)
  then have a: "0 \<le> a" "a < 256" by (simp_all add: byte_range_def)
  then show ?case by (simp add: a2b_char sextets octets del: a2b.simps) simp
next
  case (3 a b)
  then have "0 \<le> a" "a < 256" "0 \<le> b" "b < 256" by (simp_all add: byte_range_def)
  then show ?case by (simp add: a2b_char sextets octets del: a2b.simps) simp
next
  case (4 a b c bs)
  then have "0 \<le> a" "a < 256" "0 \<le> b" "b < 256" "0 \<le> c" "c < 256" "byte_range bs"
    by (simp_all add: byte_range_def)
  with 4 show ?case by (simp add: a2b_char sextets octets del: a2b.simps)
qed simp

lemma b2a_ascii: "byte_range bs \<Longrightarrow> ascii_str (b2a bs)"
  by (induction bs rule: b2a.induct) (auto simp: byte_range_def b64_char_ascii sextets)

lemma byte_range_ints_of_bytes [simp]: "byte_range (ints_of_bytes bs)"
proof -
  have "0 \<le> uint (b::byte) \<and> uint b < 256" for b
    using uint_lt2p [of b] by simp
  then show ?thesis by (simp add: byte_range_def ints_of_bytes_def list_all_iff)
qed

lemma ascii_byte_range: "ascii_str s \<Longrightarrow> byte_range s"
  by (auto simp: ascii_str_def byte_range_def list_all_iff)

lemma b64_str_ascii: "ascii_str (b64_str bs)"
  by (simp add: b64_str_def b2a_ascii)

lemma b64_str_encode: "utf8_decode (b64encode bs) = Inr (b64_str bs)"
proof -
  have "utf8_encode (b64_str bs) = Inr (b64encode bs)"
    using utf8_encode_ascii [OF b64_str_ascii] by (simp add: b64_str_def b64encode_def)
  then show ?thesis
    by (rule utf8.dec_enc [OF ascii_scalar [OF b64_str_ascii]])
qed

lemma b64decode_encode: "b64decode (b64encode bs) = Inr bs"
  by (simp add: b64decode_def b64encode_def ints_of_bytes_of_ints ascii_byte_range b2a_ascii a2b_b2a)

lemma b64decode_str_b64_str [simp]: "b64decode_str (b64_str bs) = Inr bs"
  using b64decode_encode [of bs] b64_str_ascii [of bs]
  by (simp add: b64decode_str_def b64_str_def b64encode_def)

interpretation b64: codec "\<lambda>bs. Inr (b64encode bs)" b64decode "\<lambda>_. True"
  by unfold_locales (simp add: b64decode_encode)

interpretation b64s: codec "\<lambda>bs. Inr (b64_str bs)" b64decode_str "\<lambda>_. True"
  by unfold_locales simp

text \<open>Four characters for every three bytes or part of them.\<close>

lemma length_b2a: "length (b2a bs) = 4 * ((length bs + 2) div 3)"
proof (induction bs rule: b2a.induct)
  case (4 a b c bs)
  have "(length (a # b # c # bs) + 2) div 3 = (length bs + 2) div 3 + 1" by simp
  with 4 show ?case by simp
qed simp_all

end
