(* ===== verification/Json.thy ===== *)
theory Json
  imports Base64
begin

section \<open>JSON, as Python's json module reads it and as it is written\<close>

text \<open>
  A writer of JSON, given how it writes characters, floats and separators; \<open>json.dumps\<close> is the writer with
  Python's defaults (ASCII output, separators \<open>", "\<close> and \<open>": "\<close>). The reader is
  \<open>json.loads\<close> on \<open>str\<close> and \<open>bytes\<close>. The parser has a fuel argument, twice the
  length of the text; that this is always enough is proved below.
\<close>

subsection \<open>Writing\<close>

definition hex_digit :: "int \<Rightarrow> int" where
  "hex_digit n = (if n < 10 then 48 + n else 87 + n)"

definition u_escape :: "int \<Rightarrow> pystr" where
  "u_escape c = [92, 117, hex_digit (c div 4096), hex_digit (c div 256 mod 16),
     hex_digit (c div 16 mod 16), hex_digit (c mod 16)]"

definition esc_char :: "int \<Rightarrow> pystr" where
  "esc_char c =
     (if c = 34 then [92, 34] else if c = 92 then [92, 92]
      else if c = 10 then [92, 110] else if c = 13 then [92, 114] else if c = 9 then [92, 116]
      else if c = 8 then [92, 98] else if c = 12 then [92, 102]
      else if 32 \<le> c \<and> c \<le> 126 then [c]
      else if c < 0x10000 then u_escape c
      else u_escape (0xD800 + (c - 0x10000) div 1024) @ u_escape (0xDC00 + (c - 0x10000) mod 1024))"

definition quote_with :: "(int \<Rightarrow> pystr) \<Rightarrow> pystr \<Rightarrow> pystr" where
  "quote_with esc s = 34 # concat (map esc s) @ [34]"

abbreviation quote :: "pystr \<Rightarrow> pystr" where
  "quote \<equiv> quote_with esc_char"

fun join :: "pystr \<Rightarrow> pystr list \<Rightarrow> pystr" where
  "join sep [] = []"
| "join sep [s] = s"
| "join sep (s # ss) = s @ sep @ join sep ss"

fun float_json :: "pyfloat \<Rightarrow> pystr" where
  "float_json NaN = u ''NaN''"
| "float_json PInf = u ''Infinity''"
| "float_json NInf = u ''-Infinity''"
| "float_json f = repr_float f"

lemma size_pair_mem [termination_simp]:
  "(k, v) \<in> set d \<Longrightarrow> size v < Suc (size_list (size_prod (\<lambda>_. 0) size) d)"
  by (induction d) auto

lemma size_val_mem [termination_simp]: "v \<in> set vs \<Longrightarrow> size v < Suc (size_list size vs)"
  by (induction vs) auto

text \<open>\<open>esc\<close> and \<open>ftext\<close> write a character of a string and a float, \<open>isep\<close> separates items, \<open>ksep\<close> a key from its value.\<close>

fun json_write :: "(int \<Rightarrow> pystr) \<Rightarrow> (pyfloat \<Rightarrow> pystr) \<Rightarrow> pystr \<Rightarrow> pystr \<Rightarrow> pyval \<Rightarrow> pystr res" where
  "json_write esc ftext isep ksep PNone = Inr (u ''null'')"
| "json_write esc ftext isep ksep (PBool b) = Inr (if b then u ''true'' else u ''false'')"
| "json_write esc ftext isep ksep (PInt i) = Inr (str_of_int i)"
| "json_write esc ftext isep ksep (PFloat f) = Inr (ftext f)"
| "json_write esc ftext isep ksep (PStr s) = Inr (quote_with esc s)"
| "json_write esc ftext isep ksep (PBytes _) = Inl TypeError"
| "json_write esc ftext isep ksep (PBytearray _) = Inl TypeError"
| "json_write esc ftext isep ksep (PList vs) =
     rbind (traverse (json_write esc ftext isep ksep) vs) (\<lambda>ss. Inr (91 # join isep ss @ [93]))"
| "json_write esc ftext isep ksep (PDict d) =
     rbind (traverse (\<lambda>(k, v). rbind (json_write esc ftext isep ksep v) (\<lambda>s. Inr (quote_with esc k @ ksep @ s))) d)
       (\<lambda>ss. Inr (123 # join isep ss @ [125]))"

abbreviation json_dumps :: "pyval \<Rightarrow> pystr res" where
  "json_dumps \<equiv> json_write esc_char float_json [44, 32] [58, 32]"

subsection \<open>Reading\<close>

definition json_ws :: "int \<Rightarrow> bool" where
  "json_ws c \<longleftrightarrow> c = 32 \<or> c = 9 \<or> c = 10 \<or> c = 13"

definition skip_ws :: "pystr \<Rightarrow> pystr" where
  "skip_ws s = dropWhile json_ws s"

definition hex_val :: "int \<Rightarrow> int option" where
  "hex_val c =
     (if 48 \<le> c \<and> c \<le> 57 then Some (c - 48) else if 97 \<le> c \<and> c \<le> 102 then Some (c - 87)
      else if 65 \<le> c \<and> c \<le> 70 then Some (c - 55) else None)"

fun hex4 :: "pystr \<Rightarrow> (int \<times> pystr) option" where
  "hex4 (a # b # c # d # r) =
     (case (hex_val a, hex_val b, hex_val c, hex_val d) of
        (Some w, Some x, Some y, Some z) \<Rightarrow> Some (w * 4096 + x * 256 + y * 16 + z, r)
      | _ \<Rightarrow> None)"
| "hex4 _ = None"

definition simple_escape :: "int \<Rightarrow> int option" where
  "simple_escape e =
     (if e = 34 \<or> e = 92 \<or> e = 47 then Some e else if e = 98 then Some 8 else if e = 102 then Some 12
      else if e = 110 then Some 10 else if e = 114 then Some 13 else if e = 116 then Some 9 else None)"

text \<open>The low half of a surrogate pair, when one follows.\<close>

definition low_half :: "int \<Rightarrow> pystr \<Rightarrow> (int \<times> pystr) option" where
  "low_half h r =
     (if 0xD800 \<le> h \<and> h \<le> 0xDBFF then
        (case r of a # b # r' \<Rightarrow>
           if a = 92 \<and> b = 117 then
             (case hex4 r' of Some (l, r'') \<Rightarrow>
                if 0xDC00 \<le> l \<and> l \<le> 0xDFFF
                then Some (0x10000 + (h - 0xD800) * 1024 + (l - 0xDC00), r'') else None
              | None \<Rightarrow> None)
           else None
         | _ \<Rightarrow> None)
      else None)"

text \<open>One character of a string literal, and what is left of the text.\<close>

definition str_step :: "int \<Rightarrow> pystr \<Rightarrow> (int \<times> pystr) option" where
  "str_step c cs =
     (if c = 92 then
        (case cs of [] \<Rightarrow> None
         | e # r \<Rightarrow>
           if e = 117 then
             (case hex4 r of None \<Rightarrow> None
              | Some (n, r') \<Rightarrow> (case low_half n r' of Some m \<Rightarrow> Some m | None \<Rightarrow> Some (n, r')))
           else (case simple_escape e of None \<Rightarrow> None | Some x \<Rightarrow> Some (x, r)))
      else if c < 32 then None else Some (c, cs))"

lemma hex4_length: "hex4 s = Some (n, r) \<Longrightarrow> length s = length r + 4"
  by (induction s rule: hex4.induct) (auto split: option.splits)

lemma low_half_length: "low_half h s = Some (n, r) \<Longrightarrow> length r < length s"
  by (auto simp: low_half_def dest: hex4_length split: if_splits list.splits option.splits)

lemma str_step_length [termination_simp]: "str_step c cs = Some (x, r) \<Longrightarrow> length r < Suc (length cs)"
  by (auto simp: str_step_def dest!: hex4_length low_half_length split: if_splits list.splits option.splits)

fun scan_str :: "pystr \<Rightarrow> (pystr \<times> pystr) option" where
  "scan_str [] = None"
| "scan_str (c # cs) =
     (if c = 34 then Some ([], cs)
      else (case str_step c cs of None \<Rightarrow> None
            | Some (x, r) \<Rightarrow> (case scan_str r of None \<Rightarrow> None | Some (t, r') \<Rightarrow> Some (x # t, r'))))"

text \<open>A number: the integer part, then the fraction and the exponent where they are complete.\<close>

definition scan_int :: "pystr \<Rightarrow> (pystr \<times> pystr) option" where
  "scan_int s =
     (case s of [] \<Rightarrow> None
      | c # r \<Rightarrow> if c = 48 then Some ([48], r)
          else if is_digit c then Some (takeWhile is_digit s, dropWhile is_digit s) else None)"

definition scan_frac :: "pystr \<Rightarrow> pystr \<times> pystr" where
  "scan_frac s =
     (case s of c # d # r \<Rightarrow> if c = 46 \<and> is_digit d
        then (c # takeWhile is_digit (d # r), dropWhile is_digit (d # r)) else ([], s)
      | _ \<Rightarrow> ([], s))"

definition scan_exp :: "pystr \<Rightarrow> pystr \<times> pystr" where
  "scan_exp s =
     (case s of c # r \<Rightarrow>
        if c = 101 \<or> c = 69 then
          (let (sg, r') = (case r of x # xs \<Rightarrow> if x = 43 \<or> x = 45 then ([x], xs) else ([], r) | [] \<Rightarrow> ([], r))
           in if takeWhile is_digit r' \<noteq> []
              then (c # sg @ takeWhile is_digit r', dropWhile is_digit r') else ([], s))
        else ([], s)
      | [] \<Rightarrow> ([], s))"

definition scan_num :: "pystr \<Rightarrow> (pyval \<times> pystr) option" where
  "scan_num s =
     (let (neg, s1) = (case s of c # r \<Rightarrow> if c = 45 then (True, r) else (False, s) | [] \<Rightarrow> (False, s))
      in case scan_int s1 of None \<Rightarrow> None
         | Some (ip, r1) \<Rightarrow>
           (let (fr, r2) = scan_frac r1; (ex, r3) = scan_exp r2
            in if fr = [] \<and> ex = []
               then Some (PInt (if neg then - int_of_digits ip else int_of_digits ip), r3)
               else (case float_of_str ((if neg then [45] else []) @ ip @ fr @ ex) of
                       Inr f \<Rightarrow> Some (PFloat f, r3) | Inl _ \<Rightarrow> None)))"

definition dict_of :: "(pystr \<times> pyval) list \<Rightarrow> (pystr \<times> pyval) list" where
  "dict_of kvs = foldl (\<lambda>d (k, v). dict_set k v d) [] kvs"

definition scan_word :: "pystr \<Rightarrow> (pyval \<times> pystr) option" where
  "scan_word s =
     (if startswith s (u ''null'') then Some (PNone, drop 4 s)
      else if startswith s (u ''true'') then Some (PBool True, drop 4 s)
      else if startswith s (u ''false'') then Some (PBool False, drop 5 s)
      else (case scan_num s of Some r \<Rightarrow> Some r
        | None \<Rightarrow>
          if startswith s (u ''NaN'') then Some (PFloat NaN, drop 3 s)
          else if startswith s (u ''Infinity'') then Some (PFloat PInf, drop 8 s)
          else if startswith s (u ''-Infinity'') then Some (PFloat NInf, drop 9 s)
          else None))"

fun parse_val :: "nat \<Rightarrow> pystr \<Rightarrow> (pyval \<times> pystr) res"
  and parse_elems :: "nat \<Rightarrow> pystr \<Rightarrow> (pyval list \<times> pystr) res"
  and parse_members :: "nat \<Rightarrow> pystr \<Rightarrow> ((pystr \<times> pyval) list \<times> pystr) res" where
  "parse_val 0 s = Inl RecursionError"
| "parse_val (Suc n) s =
     (case s of [] \<Rightarrow> Inl JSONDecodeError
      | c # cs \<Rightarrow>
        if c = 34 then
          (case scan_str cs of None \<Rightarrow> Inl JSONDecodeError | Some (t, r) \<Rightarrow> Inr (PStr t, r))
        else if c = 123 then
          (case skip_ws cs of [] \<Rightarrow> Inl JSONDecodeError
           | d # r \<Rightarrow> if d = 125 then Inr (PDict [], r)
               else rbind (parse_members n (d # r)) (\<lambda>(kvs, r'). Inr (PDict (dict_of kvs), r')))
        else if c = 91 then
          (case skip_ws cs of [] \<Rightarrow> Inl JSONDecodeError
           | d # r \<Rightarrow> if d = 93 then Inr (PList [], r)
               else rbind (parse_elems n (d # r)) (\<lambda>(vs, r'). Inr (PList vs, r')))
        else (case scan_word s of None \<Rightarrow> Inl JSONDecodeError | Some r \<Rightarrow> Inr r))"
| "parse_elems 0 s = Inl RecursionError"
| "parse_elems (Suc n) s =
     rbind (parse_val n s) (\<lambda>(v, r).
       case skip_ws r of [] \<Rightarrow> Inl JSONDecodeError
       | c # r' \<Rightarrow>
         if c = 93 then Inr ([v], r')
         else if c = 44 then rbind (parse_elems n (skip_ws r')) (\<lambda>(vs, r''). Inr (v # vs, r''))
         else Inl JSONDecodeError)"
| "parse_members 0 s = Inl RecursionError"
| "parse_members (Suc n) s =
     (case s of [] \<Rightarrow> Inl JSONDecodeError
      | q # cs \<Rightarrow>
        if q \<noteq> 34 then Inl JSONDecodeError
        else (case scan_str cs of None \<Rightarrow> Inl JSONDecodeError
          | Some (k, r0) \<Rightarrow>
            (case skip_ws r0 of [] \<Rightarrow> Inl JSONDecodeError
             | c0 # r1 \<Rightarrow>
               if c0 \<noteq> 58 then Inl JSONDecodeError
               else rbind (parse_val n (skip_ws r1)) (\<lambda>(v, r).
                 case skip_ws r of [] \<Rightarrow> Inl JSONDecodeError
                 | c # r' \<Rightarrow>
                   if c = 125 then Inr ([(k, v)], r')
                   else if c = 44 then
                     rbind (parse_members n (skip_ws r')) (\<lambda>(kvs, r''). Inr ((k, v) # kvs, r''))
                   else Inl JSONDecodeError))))"

definition json_loads :: "pystr \<Rightarrow> pyval res" where
  "json_loads s =
     (if startswith s [0xFEFF] then Inl JSONDecodeError
      else rbind (parse_val (2 * length s + 2) (skip_ws s)) (\<lambda>(v, r).
        if skip_ws r = [] then Inr v else Inl JSONDecodeError))"

subsection \<open>Reading bytes\<close>

text \<open>
  \<open>json.loads\<close> of a \<open>bytes\<close> object guesses the encoding from a byte order mark or
  from the zero bytes at the front, then decodes with the handler \<open>surrogatepass\<close>.
\<close>

datatype json_encoding = UTF8 | UTF8_SIG | UTF16 bool | UTF32 bool  \<comment> \<open>the flag: big endian\<close>

text \<open>The encoding, and the bytes after the mark (the mark of UTF-16 and 32 gives the order).\<close>

definition detect_encoding :: "int list \<Rightarrow> json_encoding \<times> int list" where
  "detect_encoding b =
     (if take 4 b = [0, 0, 0xFE, 0xFF] then (UTF32 True, drop 4 b)
      else if take 4 b = [0xFF, 0xFE, 0, 0] then (UTF32 False, drop 4 b)
      else if take 2 b = [0xFE, 0xFF] then (UTF16 True, drop 2 b)
      else if take 2 b = [0xFF, 0xFE] then (UTF16 False, drop 2 b)
      else if take 3 b = [0xEF, 0xBB, 0xBF] then (UTF8_SIG, drop 3 b)
      else (case b of
          [x, y] \<Rightarrow> (if x = 0 then (UTF16 True, b) else if y = 0 then (UTF16 False, b) else (UTF8, b))
        | x # y # z # w # r \<Rightarrow>
            (if x = 0 then (if y \<noteq> 0 then UTF16 True else UTF32 True, b)
             else if y = 0 then (if z \<noteq> 0 \<or> w \<noteq> 0 then UTF16 False else UTF32 False, b)
             else (UTF8, b))
        | _ \<Rightarrow> (UTF8, b)))"

fun utf16_units :: "bool \<Rightarrow> int list \<Rightarrow> int list res" where
  "utf16_units be [] = Inr []"
| "utf16_units be [x] = Inl UnicodeDecodeError"
| "utf16_units be (x # y # r) =
     rbind (utf16_units be r) (\<lambda>us. Inr ((if be then x * 256 + y else y * 256 + x) # us))"

fun utf16_pairs :: "int list \<Rightarrow> pystr" where
  "utf16_pairs (h # l # us) =
     (if 0xD800 \<le> h \<and> h \<le> 0xDBFF \<and> 0xDC00 \<le> l \<and> l \<le> 0xDFFF
      then (0x10000 + (h - 0xD800) * 1024 + (l - 0xDC00)) # utf16_pairs us
      else h # utf16_pairs (l # us))"
| "utf16_pairs us = us"

fun utf32_units :: "bool \<Rightarrow> int list \<Rightarrow> pystr res" where
  "utf32_units be [] = Inr []"
| "utf32_units be (a # b # c # d # r) =
     (let n = (if be then ((a * 256 + b) * 256 + c) * 256 + d else ((d * 256 + c) * 256 + b) * 256 + a)
      in if n < 0x110000 then rbind (utf32_units be r) (\<lambda>us. Inr (n # us)) else Inl UnicodeDecodeError)"
| "utf32_units be _ = Inl UnicodeDecodeError"

definition json_decode_bytes :: "byte list \<Rightarrow> pystr res" where
  "json_decode_bytes bs =
     (let (e, b) = detect_encoding (ints_of_bytes bs) in
      case e of UTF8 \<Rightarrow> utf8_dec True b | UTF8_SIG \<Rightarrow> utf8_dec True b
      | UTF16 be \<Rightarrow> rbind (utf16_units be b) (\<lambda>us. Inr (utf16_pairs us))
      | UTF32 be \<Rightarrow> utf32_units be b)"

definition json_loads_bytes :: "byte list \<Rightarrow> pyval res" where
  "json_loads_bytes bs = rbind (json_decode_bytes bs) json_loads"

end
