(* ===== verification/JsonCodec.thy ===== *)
theory JsonCodec
  imports Json
begin

section \<open>Writing and reading JSON are inverse\<close>

text \<open>
  The values that survive: those whose dictionaries have one entry per key, whose strings
  have no surrogates and whose floats fit the writer, without \<open>bytes\<close> (which JSON cannot hold). A float fits Python's
  writer when it reads back from its own decimal notation, a condition that evaluates.
\<close>

definition json_float :: "pyfloat \<Rightarrow> bool" where
  "json_float f \<longleftrightarrow> f = PInf \<or> f = NInf \<or> f = NaN \<or>
     (plain_str (repr_float f) \<and> scan_num (repr_float f) = Some (PFloat f, []))"

fun json_fits :: "(pyfloat \<Rightarrow> bool) \<Rightarrow> pyval \<Rightarrow> bool" where
  "json_fits fok (PFloat f) = fok f"
| "json_fits fok (PBytes _) = False"
| "json_fits fok (PBytearray _) = False"
| "json_fits fok (PStr s) = scalar_str s"
| "json_fits fok (PList vs) = list_all (json_fits fok) vs"
| "json_fits fok (PDict d) = (dict_ok d \<and> list_all (\<lambda>(k, v). scalar_str k \<and> json_fits fok v) d)"
| "json_fits fok _ = True"

abbreviation json_ok :: "pyval \<Rightarrow> bool" where
  "json_ok \<equiv> json_fits json_float"

subsection \<open>Strings\<close>

lemma hex_val_digit: "0 \<le> n \<Longrightarrow> n < 16 \<Longrightarrow> hex_val (hex_digit n) = Some n"
  by (simp add: hex_val_def hex_digit_def)

lemma nibbles:
  "c = x * 16 + i \<Longrightarrow> x = y * 16 + j \<Longrightarrow> y = z * 16 + k \<Longrightarrow>
    z * 4096 + k * 256 + j * 16 + i = (c::int)"
  by simp

lemma hex4_digits:
  assumes "0 \<le> w" "w < 16" "0 \<le> x" "x < 16" "0 \<le> y" "y < 16" "0 \<le> z" "z < 16"
  shows "hex4 (hex_digit w # hex_digit x # hex_digit y # hex_digit z # r)
    = Some (w * 4096 + x * 256 + y * 16 + z, r)"
  using assms by (simp add: hex_val_digit)

lemma hex4_u_escape:
  assumes "0 \<le> c" "c < 0x10000"
  shows "hex4 (drop 2 (u_escape c) @ r) = Some (c, r)"
proof -
  have q: "c div 256 = c div 16 div 16" "c div 4096 = c div 16 div 16 div 16"
    by (simp_all flip: zdiv_zmult2_eq)
  have sum: "c div 4096 * 4096 + c div 256 mod 16 * 256 + c div 16 mod 16 * 16 + c mod 16 = c"
    unfolding q
    by (rule nibbles [where x = "c div 16" and y = "c div 16 div 16"]) (simp_all only: div_mult_mod_eq)
  have "drop 2 (u_escape c) @ r = hex_digit (c div 4096) # hex_digit (c div 256 mod 16)
      # hex_digit (c div 16 mod 16) # hex_digit (c mod 16) # r"
    by (simp add: u_escape_def)
  moreover have "hex4 (hex_digit (c div 4096) # hex_digit (c div 256 mod 16)
      # hex_digit (c div 16 mod 16) # hex_digit (c mod 16) # r) =
    Some (c div 4096 * 4096 + c div 256 mod 16 * 256 + c div 16 mod 16 * 16 + c mod 16, r)"
    by (rule hex4_digits) (use assms in auto)
  ultimately show ?thesis by (simp only: sum)
qed

lemma u_escape_shape: "u_escape c = 92 # 117 # drop 2 (u_escape c)"
  by (simp add: u_escape_def)

lemma str_step_u_escape:
  assumes "0 \<le> c" "c < 0x10000" "\<not> (0xD800 \<le> c \<and> c \<le> 0xDBFF)"
  shows "str_step 92 (117 # drop 2 (u_escape c) @ r) = Some (c, r)"
proof -
  have "low_half c r = None" unfolding low_half_def using assms(3) by (rule if_not_P)
  with assms show ?thesis by (simp add: str_step_def hex4_u_escape)
qed

lemma str_step_pair:
  assumes "0 \<le> a" "a < 1024" "0 \<le> b" "b < 1024"
  shows "str_step 92 (117 # drop 2 (u_escape (0xD800 + a)) @ u_escape (0xDC00 + b) @ r)
    = Some (0x10000 + a * 1024 + b, r)"
proof -
  have "low_half (0xD800 + a) (u_escape (0xDC00 + b) @ r) = Some (0x10000 + a * 1024 + b, r)"
    using assms by (subst u_escape_shape) (simp add: low_half_def hex4_u_escape)
  with assms show ?thesis by (simp add: str_step_def hex4_u_escape)
qed

text \<open>
  The ways in which JSON may write a character: as it is, with a letter after a backslash, or with its number, as a pair of
  surrogates when that has more than four digits.
\<close>

definition pair_escape :: "int \<Rightarrow> pystr" where
  "pair_escape c = u_escape (0xD800 + (c - 0x10000) div 1024) @ u_escape (0xDC00 + (c - 0x10000) mod 1024)"

definition char_form :: "int \<Rightarrow> pystr \<Rightarrow> bool" where
  "char_form c t \<longleftrightarrow> t = [c] \<and> 32 \<le> c \<and> c \<noteq> 34 \<and> c \<noteq> 92 \<or> (\<exists>e. t = [92, e] \<and> simple_escape e = Some c) \<or>
     t = u_escape c \<and> c < 0x10000 \<or> t = pair_escape c \<and> 0x10000 \<le> c"

lemma char_form_cases [consumes 1, case_names plain letter number pair]:
  assumes "char_form c t"
  obtains "t = [c]" "32 \<le> c" "c \<noteq> 34" "c \<noteq> 92" | e where "t = [92, e]" "simple_escape e = Some c" "e \<noteq> 117" "e \<noteq> 123"
    | "t = u_escape c" "c < 0x10000" | "t = pair_escape c" "0x10000 \<le> c"
proof -
  have "e \<noteq> 117 \<and> e \<noteq> 123" if "simple_escape e = Some c" for e using that by (auto simp: simple_escape_def)
  with that assms show thesis unfolding char_form_def by blast
qed

lemma esc_char_form: "scalar c \<Longrightarrow> char_form c (esc_char c)"
  by (auto simp: char_form_def esc_char_def simple_escape_def pair_escape_def)

lemma pair_range:
  assumes "scalar c" "0x10000 \<le> c"
  shows "0 \<le> (c - 0x10000) div 1024" "(c - 0x10000) div 1024 < 1024" "0 \<le> (c - 0x10000) mod 1024" "(c - 0x10000) mod 1024 < 1024"
    "0x10000 + (c - 0x10000) div 1024 * 1024 + (c - 0x10000) mod 1024 = c"
proof -
  have "(c - 0x10000) div 1024 * 1024 + (c - 0x10000) mod 1024 = c - 0x10000" by simp
  then show "0x10000 + (c - 0x10000) div 1024 * 1024 + (c - 0x10000) mod 1024 = c" by linarith
qed (use assms in \<open>auto simp: scalar_def\<close>)

text \<open>A character in any form is read back by one step of the scanner.\<close>

lemma scan_str_form:
  assumes "scalar c" "char_form c t"
  shows "scan_str (t @ r) = (case scan_str r of None \<Rightarrow> None | Some (t, r') \<Rightarrow> Some (c # t, r'))"
proof -
  have c: "0 \<le> c" "\<not> (0xD800 \<le> c \<and> c \<le> 0xDBFF)" using assms(1) by (auto simp: scalar_def)
  from assms(2) show ?thesis
  proof (cases rule: char_form_cases)
    case plain
    then show ?thesis by (simp add: str_step_def)
  next
    case (letter e)
    then show ?thesis by (simp add: str_step_def)
  next
    case number
    with c show ?thesis by (subst number(1), subst u_escape_shape) (simp add: str_step_u_escape)
  next
    case pair
    note r = pair_range [OF assms(1) pair(2)]
    have "str_step 92 (117 # drop 2 (u_escape (0xD800 + (c - 0x10000) div 1024)) @ u_escape (0xDC00 + (c - 0x10000) mod 1024) @ r)
        = Some (c, r)"
      by (subst str_step_pair [OF r(1-4)]) (simp only: r(5))
    then show ?thesis unfolding pair(1) pair_escape_def by (subst u_escape_shape) simp
  qed
qed

subsection \<open>Numbers and words\<close>

definition delim :: "pystr \<Rightarrow> bool" where
  "delim r \<longleftrightarrow> (case r of [] \<Rightarrow> True | c # _ \<Rightarrow> \<not> is_digit c \<and> c \<noteq> 46 \<and> c \<noteq> 101 \<and> c \<noteq> 69 \<and> c \<noteq> 43 \<and> c \<noteq> 45)"

lemma delim_simps [simp]: "delim []" "delim (44 # r)" "delim (93 # r)" "delim (125 # r)"
  by (simp_all add: delim_def is_digit_def)

lemma delim_scans: "delim r \<Longrightarrow> scan_frac r = ([], r) \<and> scan_exp r = ([], r)"
  by (auto simp: delim_def scan_frac_def scan_exp_def split: list.splits)

lemma takeWhile_digits:
  assumes "list_all is_digit ds" "delim r"
  shows "takeWhile is_digit (ds @ r) = ds" "dropWhile is_digit (ds @ r) = r"
proof -
  have "takeWhile is_digit r = []" "dropWhile is_digit r = r"
    using assms(2) by (auto simp: delim_def split: list.splits)
  then show "takeWhile is_digit (ds @ r) = ds" "dropWhile is_digit (ds @ r) = r"
    using assms(1) by (auto simp: list_all_iff takeWhile_append2 dropWhile_append2)
qed

lemma scan_int_digits:
  assumes "0 \<le> n" "delim r"
  shows "scan_int (digits n @ r) = Some (digits n, r)"
proof (cases "n = 0")
  case True
  then show ?thesis by (simp add: scan_int_def digits_0)
next
  case False
  obtain c cs where c: "digits n = c # cs" by (cases "digits n") auto
  then have "c \<noteq> 48" "is_digit c"
    using False assms(1) digits_head [of n] digits_digits [of n] by auto
  with c show ?thesis
    using takeWhile_digits [OF digits_digits [OF assms(1)] assms(2)]
    by (simp add: scan_int_def)
qed

lemma scan_num_int: "delim r \<Longrightarrow> scan_num (str_of_int i @ r) = Some (PInt i, r)"
proof (cases "i < 0")
  case True
  assume "delim r"
  with True scan_int_digits [of "- i" r] delim_scans [of r] show ?thesis
    by (simp add: scan_num_def str_of_int_def)
next
  case False
  assume r: "delim r"
  obtain c cs where c: "digits i = c # cs" by (cases "digits i") auto
  then have "c \<noteq> 45"
    using False digits_digits [of i] by (auto simp: is_digit_def)
  with False c r scan_int_digits [of i r] delim_scans [of r] show ?thesis
    using int_of_digits_digits [of i] by (simp add: scan_num_def str_of_int_def)
qed

lemma str_of_int_head: "\<exists>c cs. str_of_int i = c # cs \<and> (c = 45 \<or> is_digit c)"
proof (cases "i < 0")
  case False
  obtain c cs where c: "digits i = c # cs" by (cases "digits i") auto
  then have "is_digit c" using False digits_digits [of i] by simp
  with c False show ?thesis by (simp add: str_of_int_def)
qed (simp add: str_of_int_def)

lemma scan_word_int: "delim r \<Longrightarrow> scan_word (str_of_int i @ r) = Some (PInt i, r)"
  using str_of_int_head [of i] scan_num_int [of r i]
  by (auto simp: scan_word_def startswith_def is_digit_def)

lemma parse_val_int:
  assumes "delim r"
  shows "parse_val (Suc n) (str_of_int i @ r) = Inr (PInt i, r)"
proof -
  obtain c cs where c: "str_of_int i = c # cs" "c = 45 \<or> is_digit c" using str_of_int_head by blast
  moreover have "scan_word (c # cs @ r) = Some (PInt i, r)" using scan_word_int [OF assms, of i] c by simp
  ultimately show ?thesis by (auto simp: is_digit_def)
qed

lemma parse_val_words:
  "parse_val (Suc n) (u ''null'' @ r) = Inr (PNone, r)"
  "parse_val (Suc n) (u ''true'' @ r) = Inr (PBool True, r)"
  "parse_val (Suc n) (u ''false'' @ r) = Inr (PBool False, r)"
  by (simp_all add: scan_word_def startswith_def)

subsection \<open>Floats\<close>

lemma digits_append:
  assumes "delim r"
  shows "takeWhile is_digit (x @ r) = takeWhile is_digit x" "dropWhile is_digit (x @ r) = dropWhile is_digit x @ r"
  using assms by (induction x) (auto simp: delim_def split: list.splits)

lemma scan_int_append: "delim r \<Longrightarrow> scan_int x = Some (t, y) \<Longrightarrow> scan_int (x @ r) = Some (t, y @ r)"
  using digits_append [of r x]
  by (cases x) (auto simp: scan_int_def split: if_splits)

lemma scan_frac_append:
  assumes "delim r"
  shows "scan_frac (x @ r) = (fst (scan_frac x), snd (scan_frac x) @ r)"
proof (cases x)
  case Nil
  then show ?thesis using delim_scans [OF assms] by (simp add: scan_frac_def)
next
  case (Cons c xs)
  then show ?thesis using digits_append [OF assms, of xs] assms
    by (cases xs) (auto simp: scan_frac_def delim_def split: list.splits)
qed

lemma scan_exp_append:
  assumes "delim r"
  shows "scan_exp (x @ r) = (fst (scan_exp x), snd (scan_exp x) @ r)"
proof (cases x)
  case Nil
  then show ?thesis using delim_scans [OF assms] by (simp add: scan_exp_def)
next
  case (Cons c xs)
  have d: "takeWhile is_digit (z @ r) = takeWhile is_digit z" "dropWhile is_digit (z @ r) = dropWhile is_digit z @ r" for z
    using digits_append [OF assms] by auto
  show ?thesis
  proof (cases xs)
    case Nil
    then show ?thesis using Cons assms by (auto simp: scan_exp_def delim_def split: list.splits)
  next
    case (Cons d ys)
    then show ?thesis using \<open>x = c # xs\<close> d [of ys] d [of "d # ys"] by (auto simp: scan_exp_def Let_def)
  qed
qed

lemma scan_num_append:
  assumes "delim r" "scan_num x = Some (v, y)"
  shows "scan_num (x @ r) = Some (v, y @ r)"
proof -
  obtain c xs where x: "x = c # xs" using assms(2) by (cases x) (auto simp: scan_num_def scan_int_def)
  then obtain t z where t: "scan_int (if c = 45 then xs else x) = Some (t, z)"
    using assms(2) by (cases "c = 45") (auto simp: scan_num_def split: option.splits)
  with scan_int_append [OF assms(1) t] assms(2) x show ?thesis
    by (auto simp: scan_num_def scan_frac_append [OF assms(1)] scan_exp_append [OF assms(1)] case_prod_beta
        split: if_splits sum.splits)
qed

lemma scan_num_head: "scan_num x = Some r \<Longrightarrow> \<exists>c cs. x = c # cs \<and> (c = 45 \<or> is_digit c)"
  by (cases x) (auto simp: scan_num_def scan_int_def is_digit_def split: if_splits)

lemma float_json_plain: "json_float f \<Longrightarrow> plain_str (float_json f)"
  by (cases f) (auto simp: json_float_def)

lemma json_float_0: "json_float (Fin 0)"
proof -
  have "0 < rpow 2 1024" unfolding rpow_def by (simp del: power_numeral)
  then have "fl_abs 0 = Fin 0" by (simp add: fl_abs_def round_double_def)
  moreover have "drop_underscores False (strip [48, 46, 48]) = Some [48, 46, 48]"
    by (simp add: strip_def py_space_def)
  moreover have "int_of_digits [48, 48] = 0" by (simp add: int_of_digits_def)
  ultimately have "float_of_str [48, 46, 48] = Inr (Fin 0)"
    by (simp add: float_of_str_def lower_ascii_def read_decimal_def is_digit_def read_exp_def)
  then show ?thesis
    by (simp add: json_float_def scan_num_def scan_int_def scan_frac_def scan_exp_def is_digit_def)
qed

subsection \<open>Values\<close>

lemma skip_ws_id: "\<not> json_ws c \<Longrightarrow> skip_ws (c # cs) = c # cs"
  by (simp add: skip_ws_def)

lemma skip_ws_gap: "list_all json_ws w \<Longrightarrow> skip_ws (w @ s) = skip_ws s"
  by (simp add: skip_ws_def list_all_iff dropWhile_append2)

lemma skip_ws_punct [simp]:
  "skip_ws (44 # s) = 44 # s" "skip_ws (93 # s) = 93 # s" "skip_ws (125 # s) = 125 # s"
  "skip_ws (58 # s) = 58 # s" "skip_ws (34 # s) = 34 # s"
  by (simp_all add: skip_ws_def json_ws_def)

lemma join_Cons: "ss \<noteq> [] \<Longrightarrow> join sep (s # ss) = s @ sep @ join sep ss"
  by (cases ss) auto

lemma dict_of_ok: "dict_ok d \<Longrightarrow> dict_of d = d"
proof (induction d rule: rev_induct)
  case (snoc kv d)
  then have "dict_ok d" "fst kv \<notin> fst ` set d" by (auto simp: dict_ok_def)
  with snoc.IH show ?case by (auto simp: dict_of_def dict_set_new split: prod.splits)
qed (simp add: dict_of_def)

lemma traverse_ok: "\<forall>x \<in> set xs. \<exists>y. f x = Inr y \<Longrightarrow> \<exists>ys. traverse f xs = Inr ys"
proof (induction xs)
  case (Cons x xs)
  then obtain y ys where "f x = Inr y" "traverse f xs = Inr ys" by auto
  then show ?case by simp
qed simp

subsection \<open>Writers\<close>

text \<open>\<open>parses w v\<close>: what the writer \<open>w\<close> makes of \<open>v\<close> is read back, in front of anything that ends a number.\<close>

definition parses :: "(pyval \<Rightarrow> pystr res) \<Rightarrow> pyval \<Rightarrow> bool" where
  "parses w v \<longleftrightarrow> (\<forall>s n r. w v = Inr s \<longrightarrow> delim r \<longrightarrow> 2 * length s \<le> n \<longrightarrow>
     parse_val (Suc n) (s @ r) = Inr (v, r))"

definition member_text :: "(pyval \<Rightarrow> pystr res) \<Rightarrow> (pystr \<Rightarrow> pystr) \<Rightarrow> pystr \<Rightarrow> pystr \<times> pyval \<Rightarrow> pystr res" where
  "member_text w q ksep = (\<lambda>(k, v). rbind (w v) (\<lambda>s. Inr (q k @ ksep @ s)))"

definition float_form :: "pyfloat \<Rightarrow> pystr \<Rightarrow> bool" where
  "float_form f t \<longleftrightarrow> scan_num t = Some (PFloat f, []) \<or>
     (f, t) \<in> {(NaN, u ''NaN''), (PInf, u ''Infinity''), (NInf, u ''-Infinity'')}"

text \<open>
  A writer of JSON: it writes each character in one of the forms JSON has for it, the floats that fit so that they are read
  back, and white space only after its separators.
\<close>

locale json_writer =
  fixes esc :: "int \<Rightarrow> pystr" and ftext :: "pyfloat \<Rightarrow> pystr" and fok :: "pyfloat \<Rightarrow> bool" and iw kw :: pystr
  assumes esc_form: "scalar c \<Longrightarrow> char_form c (esc c)"
    and fl_form: "fok f \<Longrightarrow> float_form f (ftext f)"
    and gaps: "list_all json_ws iw" "list_all json_ws kw"
begin

abbreviation wr :: "pyval \<Rightarrow> pystr res" where
  "wr \<equiv> json_write esc ftext (44 # iw) (58 # kw)"

abbreviation member :: "pystr \<times> pyval \<Rightarrow> pystr res" where
  "member \<equiv> member_text wr (quote_with esc) (58 # kw)"

abbreviation fits :: "pyval \<Rightarrow> bool" where
  "fits \<equiv> json_fits fok"

lemma scan_str_quote: "scalar_str s \<Longrightarrow> scan_str (concat (map esc s) @ 34 # r) = Some (s, r)"
  by (induction s) (simp_all add: scan_str_form [OF _ esc_form] del: scan_str.simps(2), simp)

lemma parse_val_str: "scalar_str s \<Longrightarrow> parse_val (Suc n) (quote_with esc s @ r) = Inr (PStr s, r)"
  by (simp add: quote_with_def scan_str_quote)

lemma parse_val_float:
  assumes "fok f" "delim r"
  shows "parse_val (Suc n) (ftext f @ r) = Inr (PFloat f, r)"
proof (cases "scan_num (ftext f) = Some (PFloat f, [])")
  case False
  with fl_form [OF assms(1)] show ?thesis
    by (auto simp: float_form_def scan_word_def startswith_def scan_num_def scan_int_def is_digit_def)
next
  case True
  then obtain c cs where c: "ftext f = c # cs" "c = 45 \<or> is_digit c" using scan_num_head by blast
  then have "scan_word (c # cs @ r) = Some (PFloat f, r)"
    using scan_num_append [OF assms(2) True] by (auto simp: scan_word_def startswith_def is_digit_def)
  with c show ?thesis by (auto simp: is_digit_def)
qed

lemma float_head: "fok f \<Longrightarrow> \<exists>c cs. ftext f = c # cs \<and> (c = 45 \<or> c = 73 \<or> c = 78 \<or> is_digit c)"
  using fl_form [of f] by (auto simp: float_form_def dest: scan_num_head)

text \<open>The text of a value starts with a character that is no white space and closes nothing.\<close>

lemma write_head:
  assumes "wr v = Inr s" "fits v"
  shows "\<exists>c cs. s = c # cs \<and> \<not> json_ws c \<and> c \<noteq> 93 \<and> c \<noteq> 125 \<and> c < 127"
proof (cases v)
  case (PInt i)
  with assms str_of_int_head [of i] show ?thesis by (auto simp: json_ws_def is_digit_def)
next
  case (PFloat f)
  with assms float_head [of f] show ?thesis by (auto simp: json_ws_def is_digit_def)
qed (use assms in \<open>auto simp: json_ws_def quote_with_def res_simps\<close>)

lemma skip_ws_write: "wr v = Inr s \<Longrightarrow> fits v \<Longrightarrow> skip_ws (s @ r) = s @ r"
  using write_head [of v s] by (auto simp: skip_ws_id)

lemma parse_elems_join:
  assumes "\<forall>v \<in> set vs. parses wr v \<and> fits v" "traverse wr vs = Inr ss" "vs \<noteq> []"
    "2 * length (join (44 # iw) ss) + 1 \<le> n"
  shows "parse_elems (Suc n) (join (44 # iw) ss @ 93 # r) = Inr (vs, r)"
  using assms
proof (induction vs arbitrary: ss n)
  case (Cons v vs)
  then obtain s ss' where s: "wr v = Inr s" "traverse wr vs = Inr ss'" "ss = s # ss'"
    by (auto simp: res_simps)
  have "s \<noteq> []" using write_head [OF s(1)] Cons.prems by auto
  obtain m where m: "n = Suc m" using Cons.prems(4) by (cases n) auto
  show ?case
  proof (cases "vs = []")
    case True
    with s have "ss' = []" by simp
    moreover have "parse_val (Suc m) (s @ 93 # r) = Inr (v, 93 # r)"
      using Cons.prems s m \<open>ss' = []\<close> by (auto simp: parses_def)
    ultimately show ?thesis using s True m by simp
  next
    case False
    with s have ne: "ss' \<noteq> []" using traverse_length [OF s(2)] by auto
    obtain m' where m': "m = Suc m'" using Cons.prems(4) s m ne \<open>s \<noteq> []\<close> by (cases m) (auto simp: join_Cons)
    let ?tl = "join (44 # iw) ss' @ 93 # r"
    have "parse_val (Suc m) (s @ 44 # iw @ ?tl) = Inr (v, 44 # iw @ ?tl)"
      using Cons.prems s m ne by (auto simp: parses_def join_Cons)
    moreover have "skip_ws (iw @ ?tl) = ?tl"
    proof -
      obtain v' vs' where "vs = v' # vs'" using False by (cases vs) auto
      moreover from this s obtain s' ss'' where "wr v' = Inr s'" "ss' = s' # ss''"
        by (auto simp: res_simps)
      ultimately obtain c cs where "join (44 # iw) ss' = c # cs" "\<not> json_ws c"
        using write_head [of v' s'] Cons.prems(1) by (cases ss'') auto
      then show ?thesis by (simp add: skip_ws_gap [OF gaps(1)] skip_ws_id)
    qed
    moreover have "parse_elems (Suc m) ?tl = Inr (vs, r)"
      by (rule Cons.IH) (use Cons.prems s m ne False in \<open>auto simp: join_Cons\<close>)
    ultimately show ?thesis using s m ne by (simp add: join_Cons del: parse_val.simps)
  qed
qed simp

lemma parse_member:
  assumes "scalar_str k" "parse_val n (s @ r) = Inr (v, r)" "skip_ws (s @ r) = s @ r"
  shows "parse_members (Suc n) (quote_with esc k @ 58 # kw @ s @ r) =
    (case skip_ws r of [] \<Rightarrow> Inl JSONDecodeError
     | c # r' \<Rightarrow> if c = 125 then Inr ([(k, v)], r')
         else if c = 44 then rbind (parse_members n (skip_ws r')) (\<lambda>(kvs, r''). Inr ((k, v) # kvs, r''))
         else Inl JSONDecodeError)"
  using assms by (simp add: quote_with_def scan_str_quote skip_ws_gap [OF gaps(2)])

lemma parse_members_join:
  assumes "\<forall>(k, v) \<in> set d. parses wr v \<and> fits v \<and> scalar_str k" "traverse member d = Inr ss" "d \<noteq> []"
    "2 * length (join (44 # iw) ss) + 1 \<le> n"
  shows "parse_members (Suc n) (join (44 # iw) ss @ 125 # r) = Inr (d, r)"
  using assms
proof (induction d arbitrary: ss n)
  case (Cons kv d)
  obtain k v where kv: "kv = (k, v)" by (cases kv)
  with Cons.prems obtain s ss' where s: "wr v = Inr s" "traverse member d = Inr ss'"
      "ss = (quote_with esc k @ 58 # kw @ s) # ss'"
    by (auto simp: res_simps member_text_def)
  have ok: "parses wr v" "fits v" "scalar_str k" using Cons.prems kv by auto
  obtain m where m: "n = Suc m" using Cons.prems(4) s by (cases n) auto
  show ?case
  proof (cases "d = []")
    case True
    with s have ss': "ss' = []" by simp
    have "parse_val (Suc m) (s @ 125 # r) = Inr (v, 125 # r)"
      using Cons.prems(4) ok s m ss' by (auto simp: parses_def quote_with_def)
    with ok s m True ss' kv show ?thesis
      using parse_member [of k "Suc m" s "125 # r" v] skip_ws_write [OF s(1) ok(2)]
      by (simp del: parse_members.simps parse_val.simps)
  next
    case False
    with s have ne: "ss' \<noteq> []" using traverse_length [OF s(2)] by auto
    let ?tl = "join (44 # iw) ss' @ 125 # r"
    have "parse_val (Suc m) (s @ 44 # iw @ ?tl) = Inr (v, 44 # iw @ ?tl)"
      using Cons.prems(4) ok s m ne by (auto simp: parses_def join_Cons quote_with_def)
    moreover have "skip_ws (iw @ ?tl) = ?tl"
    proof -
      obtain k' v' d' where "d = (k', v') # d'" using False by (cases d) auto
      with s obtain t ss'' where "ss' = (quote_with esc k' @ t) # ss''"
        by (auto simp: res_simps member_text_def)
      then show ?thesis by (cases ss'') (simp_all add: skip_ws_gap [OF gaps(1)] quote_with_def)
    qed
    moreover have "parse_members (Suc m) ?tl = Inr (d, r)"
    proof (rule Cons.IH [OF _ s(2) False])
      show "2 * length (join (44 # iw) ss') + 1 \<le> m" using Cons.prems(4) s m ne by (simp add: join_Cons)
    qed (use Cons.prems(1) in simp)
    ultimately show ?thesis
      using ok s m ne kv parse_member [of k "Suc m" s "44 # iw @ ?tl" v] skip_ws_write [OF s(1) ok(2)]
      by (simp add: join_Cons del: parse_members.simps parse_val.simps)
  qed
qed simp

lemma parses_list:
  assumes "\<forall>v \<in> set vs. parses wr v" "fits (PList vs)"
  shows "parses wr (PList vs)"
  unfolding parses_def
proof (intro allI impI)
  fix s n r
  assume s: "wr (PList vs) = Inr s" and n: "2 * length s \<le> n"
  then obtain ss where ss: "traverse wr vs = Inr ss" "s = 91 # join (44 # iw) ss @ [93]"
    by (auto simp: res_simps)
  show "parse_val (Suc n) (s @ r) = Inr (PList vs, r)"
  proof (cases "vs = []")
    case True
    with ss show ?thesis by simp
  next
    case False
    then obtain v vs' where vs: "vs = v # vs'" by (cases vs) auto
    with ss obtain t ss' where t: "wr v = Inr t" "ss = t # ss'" by (auto simp: res_simps)
    obtain c cs where c: "join (44 # iw) ss = c # cs" "\<not> json_ws c" "c \<noteq> 93"
      using write_head [OF t(1)] assms(2) vs t(2) by (cases ss') auto
    obtain m where m: "n = Suc m" using n ss by (cases n) auto
    have "parse_elems (Suc m) (join (44 # iw) ss @ 93 # r) = Inr (vs, r)"
      by (rule parse_elems_join) (use assms ss n m False in \<open>auto simp: list_all_iff\<close>)
    with c ss m show ?thesis by (simp add: skip_ws_id del: parse_elems.simps)
  qed
qed

lemma parses_dict:
  assumes "\<forall>(k, v) \<in> set d. parses wr v" "fits (PDict d)"
  shows "parses wr (PDict d)"
  unfolding parses_def
proof (intro allI impI)
  fix s n r
  assume s: "wr (PDict d) = Inr s" and n: "2 * length s \<le> n"
  then obtain ss where ss: "traverse member d = Inr ss" "s = 123 # join (44 # iw) ss @ [125]"
    by (auto simp: res_simps member_text_def)
  show "parse_val (Suc n) (s @ r) = Inr (PDict d, r)"
  proof (cases "d = []")
    case True
    with ss show ?thesis by simp
  next
    case False
    then obtain k v d' where "d = (k, v) # d'" by (cases d) auto
    with ss obtain t ss' where t: "ss = (quote_with esc k @ t) # ss'" by (auto simp: res_simps member_text_def)
    then obtain cs where c: "join (44 # iw) ss = 34 # cs" by (cases ss') (auto simp: quote_with_def)
    obtain m where m: "n = Suc m" using n ss by (cases n) auto
    have "parse_members (Suc m) (join (44 # iw) ss @ 125 # r) = Inr (d, r)"
      by (rule parse_members_join) (use assms ss n m False in \<open>auto simp: list_all_iff\<close>)
    with c ss m show ?thesis
      using dict_of_ok assms(2) by (simp del: parse_members.simps)
  qed
qed

lemma parses_ok: "fits v \<Longrightarrow> parses wr v"
proof (induction v)
  case (PBool b)
  then show ?case
    using parse_val_words by (cases b) (auto simp: parses_def simp del: parse_val.simps u_simps)
next
  case (PList vs)
  then show ?case by (intro parses_list) (auto simp: list_all_iff)
next
  case (PDict d)
  have "parses wr v" if "(k, v) \<in> set d" for k v
    using that PDict.prems by (intro PDict.IH [of "(k, v)"]) (auto simp: list_all_iff)
  with PDict.prems show ?case by (intro parses_dict) auto
qed (auto simp: parses_def parse_val_int parse_val_float parse_val_str parse_val_words simp del: parse_val.simps u_simps)

lemma write_ok: "fits v \<Longrightarrow> \<exists>s. wr v = Inr s"
proof (induction v)
  case (PList vs)
  then have "\<forall>v \<in> set vs. \<exists>s. wr v = Inr s" by (auto simp: list_all_iff)
  then have "\<exists>ss. traverse wr vs = Inr ss" by (rule traverse_ok)
  then show ?case by auto
next
  case (PDict d)
  have "\<exists>s. wr v = Inr s" if "(k, v) \<in> set d" for k v
    using that PDict.prems by (intro PDict.IH [of "(k, v)"]) (auto simp: list_all_iff)
  then have "\<forall>kv \<in> set d. \<exists>t. member kv = Inr t" by (fastforce simp: member_text_def)
  then have "\<exists>ss. traverse member d = Inr ss" by (rule traverse_ok)
  then show ?case unfolding member_text_def by auto
qed auto

lemma loads_write:
  assumes "fits v" "wr v = Inr s"
  shows "json_loads s = Inr v"
proof -
  obtain c cs where c: "s = c # cs" "\<not> json_ws c" "c < 127" using write_head assms by blast
  have "parse_val (Suc (2 * length s + 1)) (s @ []) = Inr (v, [])"
    by (rule parses_ok [OF assms(1), unfolded parses_def, rule_format, OF assms(2)]) simp_all
  then have "parse_val (2 * length s + 2) s = Inr (v, [])" by (simp del: parse_val.simps)
  moreover have "skip_ws s = s" "skip_ws [] = []" using c by (simp_all add: skip_ws_id skip_ws_def)
  moreover have "\<not> startswith s [0xFEFF]" using c by (auto simp: startswith_def)
  ultimately show ?thesis by (simp add: json_loads_def)
qed

lemma write_codec: "codec wr json_loads fits"
  using write_ok loads_write by unfold_locales fastforce

end

text \<open>Python's writer.\<close>

interpretation py: json_writer esc_char float_json json_float "[32]" "[32]"
proof
  show "float_form f (float_json f)" if "json_float f" for f
    using that by (cases f) (auto simp: float_form_def json_float_def)
qed (simp_all add: esc_char_form json_ws_def)

subsection \<open>ASCII output\<close>

lemma u_escape_plain: "0 \<le> c \<Longrightarrow> c < 0x10000 \<Longrightarrow> plain_str (u_escape c)"
proof -
  assume c: "0 \<le> c" "c < 0x10000"
  have hex: "32 \<le> hex_digit n \<and> hex_digit n \<le> 126" if "0 \<le> n" "n < 16" for n
    using that by (simp add: hex_digit_def)
  have "0 \<le> c div 4096" "c div 4096 < 16" using c by auto
  then show ?thesis by (simp add: u_escape_def hex)
qed

lemma esc_char_plain: "scalar c \<Longrightarrow> plain_str (esc_char c)"
proof -
  assume "scalar c"
  then have c: "0 \<le> c" "c < 0x110000" by (auto simp: scalar_def)
  have "0 \<le> (c - 0x10000) div 1024" "(c - 0x10000) div 1024 < 1024" if "0x10000 \<le> c"
    using c that by auto
  moreover have "0 \<le> 0xDC00 + (c - 0x10000) mod 1024" "0xDC00 + (c - 0x10000) mod 1024 < 0x10000"
    using pos_mod_bound [of 1024 "c - 0x10000"] pos_mod_sign [of 1024 "c - 0x10000"] by linarith+
  ultimately show ?thesis
    using c by (simp add: esc_char_def u_escape_plain)
qed

lemma quote_plain: "scalar_str s \<Longrightarrow> plain_str (quote s)"
proof -
  assume "scalar_str s"
  then have "plain_str (concat (map esc_char s))"
    by (induction s) (auto simp: esc_char_plain)
  then show ?thesis by (simp add: quote_with_def)
qed

lemma join_plain: "plain_str sep \<Longrightarrow> \<forall>s \<in> set ss. plain_str s \<Longrightarrow> plain_str (join sep ss)"
  by (induction sep ss rule: join.induct) auto

lemma traverse_set: "traverse f xs = Inr ys \<Longrightarrow> y \<in> set ys \<Longrightarrow> \<exists>x \<in> set xs. f x = Inr y"
  by (induction xs arbitrary: ys) (auto simp: res_simps)

lemma json_dumps_plain: "json_ok v \<Longrightarrow> json_dumps v = Inr s \<Longrightarrow> plain_str s"
proof (induction v arbitrary: s)
  case (PList vs)
  then obtain ss where "traverse json_dumps vs = Inr ss" "s = 91 # join [44, 32] ss @ [93]"
    by (auto simp: res_simps)
  moreover have "plain_str t" if "t \<in> set ss" for t
    using traverse_set [OF \<open>traverse json_dumps vs = Inr ss\<close> that] PList by (auto simp: list_all_iff)
  ultimately show ?case by (auto intro!: join_plain)
next
  case (PDict d)
  then obtain ss where ss: "traverse (member_text json_dumps quote [58, 32]) d = Inr ss" "s = 123 # join [44, 32] ss @ [125]"
    by (auto simp: res_simps member_text_def)
  have "plain_str t" if t: "t \<in> set ss" for t
  proof -
    obtain k v where kv: "(k, v) \<in> set d" "member_text json_dumps quote [58, 32] (k, v) = Inr t"
      using traverse_set [OF ss(1) t] by auto
    moreover from kv obtain w where "json_dumps v = Inr w" "t = quote k @ [58, 32] @ w"
      by (auto simp: member_text_def res_simps)
    moreover have "scalar_str k" "json_ok v" using PDict.prems kv by (auto simp: list_all_iff)
    ultimately show ?thesis
      using PDict.IH [of "(k, v)" v w] by (auto simp: quote_plain)
  qed
  with ss show ?case by (auto intro!: join_plain)
qed (auto simp: plain_str_of_int quote_plain float_json_plain)

subsection \<open>The codecs\<close>

interpretation json: codec json_dumps json_loads json_ok
  by (rule py.write_codec)

lemmas json_dumps_ok = py.write_ok
lemmas json_loads_dumps = py.loads_write

text \<open>The text of a value is ASCII, so a reader of bytes takes it for UTF-8 and decodes it.\<close>

lemma detect_plain: "\<forall>b \<in> set bs. 0 < b \<and> b < 128 \<Longrightarrow> detect_encoding bs = (UTF8, bs)"
  by (auto simp: detect_encoding_def take_Cons' split: list.splits)

definition json_dump_bytes :: "pyval \<Rightarrow> byte list res" where
  "json_dump_bytes v = rbind (json_dumps v) utf8_encode"

lemma json_dump_bytes_plain:
  assumes "json_ok v" "json_dump_bytes v = Inr bs"
  shows "\<exists>s. json_dumps v = Inr s \<and> plain_str s \<and> bs = bytes_of_ints s"
  using assms json_dumps_plain utf8_encode_ascii plain_ascii
  by (auto simp: json_dump_bytes_def res_simps)

lemma json_dump_bytes_length:
  "json_ok v \<Longrightarrow> json_dump_bytes v = Inr bs \<Longrightarrow> json_dumps v = Inr s \<Longrightarrow> length bs = length s"
  using json_dump_bytes_plain [of v bs] by (auto simp: bytes_of_ints_def)

lemma json_dump_bytes_ok: "json_ok v \<Longrightarrow> \<exists>bs. json_dump_bytes v = Inr bs"
  using json_dumps_ok [of v] json_dumps_plain utf8_encode_ascii plain_ascii
  by (fastforce simp: json_dump_bytes_def)

lemma json_decode_plain:
  assumes "plain_str s"
  shows "json_decode_bytes (bytes_of_ints s) = Inr s"
proof -
  have s: "ints_of_bytes (bytes_of_ints s) = s"
    using assms by (simp add: ints_of_bytes_of_ints ascii_byte_range plain_ascii)
  have "\<forall>b \<in> set s. 0 < b \<and> b < 128" using assms by (auto simp: plain_str_def list_all_iff)
  moreover have "utf8_dec True s = Inr s"
    using utf8_dec_of_encode [OF utf8_encode_ascii [OF plain_ascii [OF assms]], of True] s by simp
  ultimately show ?thesis by (simp add: json_decode_bytes_def s detect_plain)
qed

interpretation jsonb: codec json_dump_bytes json_loads_bytes json_ok
proof
  fix v
  assume v: "json_ok v"
  obtain bs where bs: "json_dump_bytes v = Inr bs" using json_dump_bytes_ok v by blast
  then obtain s where "json_dumps v = Inr s" "plain_str s" "bs = bytes_of_ints s"
    using json_dump_bytes_plain v by blast
  with v bs show "rbind (json_dump_bytes v) json_loads_bytes = Inr v"
    by (simp add: json_loads_bytes_def json_decode_plain json_loads_dumps)
qed

subsection \<open>The parser's fuel\<close>

text \<open>Every part of the parser that returns has consumed at least one character.\<close>

lemma skip_ws_length: "length (skip_ws s) \<le> length s"
  by (simp add: skip_ws_def length_dropWhile_le)

lemma scan_str_length: "scan_str s = Some (t, r) \<Longrightarrow> length r < length s"
  by (induction s arbitrary: t r rule: scan_str.induct)
    (auto dest!: str_step_length split: if_splits option.splits, fastforce)

lemma scan_int_length: "scan_int s = Some (t, r) \<Longrightarrow> length r < length s"
  by (auto simp: scan_int_def length_dropWhile_le le_imp_less_Suc split: list.splits if_splits)

lemma scan_frac_length: "scan_frac s = (t, r) \<Longrightarrow> length r \<le> length s"
  using length_dropWhile_le [of is_digit]
  by (auto simp: scan_frac_def split: list.splits if_splits) (meson le_SucI le_trans)+

lemma scan_exp_length: "scan_exp s = (t, r) \<Longrightarrow> length r \<le> length s"
  using length_dropWhile_le [of is_digit]
  by (auto simp: scan_exp_def Let_def split: list.splits if_splits prod.splits) (meson le_SucI le_trans)+

lemma scan_num_length: "scan_num s = Some (v, r) \<Longrightarrow> length r < length s"
  by (fastforce simp: scan_num_def Let_def
      dest: scan_int_length scan_frac_length scan_exp_length
      split: list.splits if_splits prod.splits option.splits sum.splits)

lemma startswith_length: "startswith s p \<Longrightarrow> length p \<le> length s"
  by (auto simp: startswith_def min_def dest!: arg_cong [of _ _ length] split: if_splits)

lemma scan_word_length: "scan_word s = Some (v, r) \<Longrightarrow> length r < length s"
  by (auto simp: scan_word_def dest: scan_num_length dest!: startswith_length split: if_splits option.splits)

lemma skip_ws_Cons_length: "skip_ws s = c # r \<Longrightarrow> length r < length s"
  using skip_ws_length [of s] by simp

lemma parse_consumes:
  "(\<forall>s v r. parse_val n s = Inr (v, r) \<longrightarrow> length r < length s) \<and>
   (\<forall>s vs r. parse_elems n s = Inr (vs, r) \<longrightarrow> length r < length s) \<and>
   (\<forall>s kvs r. parse_members n s = Inr (kvs, r) \<longrightarrow> length r < length s)"
proof (induction n)
  case 0
  then show ?case by simp
next
  case (Suc n)
  then have v: "\<And>s v r. parse_val n s = Inr (v, r) \<Longrightarrow> length r < length s"
    and e: "\<And>s vs r. parse_elems n s = Inr (vs, r) \<Longrightarrow> length r < length s"
    and m: "\<And>s kvs r. parse_members n s = Inr (kvs, r) \<Longrightarrow> length r < length s"
    by blast+
  have v': "\<And>s v r. parse_val n (skip_ws s) = Inr (v, r) \<Longrightarrow> length r < length s"
    and e': "\<And>s vs r. parse_elems n (skip_ws s) = Inr (vs, r) \<Longrightarrow> length r < length s"
    and m': "\<And>s kvs r. parse_members n (skip_ws s) = Inr (kvs, r) \<Longrightarrow> length r < length s"
    using v e m skip_ws_length by (meson less_le_trans)+
  have "length r < length s" if "parse_val (Suc n) s = Inr (w, r)" for s w r
    using that
    by (auto simp: res_simps split: if_splits
        dest!: e m scan_str_length scan_word_length skip_ws_Cons_length)
  moreover have "length r < length s" if "parse_elems (Suc n) s = Inr (w, r)" for s w r
    using that
    by (auto simp: res_simps split: if_splits dest!: e' v skip_ws_Cons_length)
  moreover have "length r < length s" if "parse_members (Suc n) s = Inr (w, r)" for s w r
    using that
    by (auto simp: res_simps split: if_splits
        dest!: m' v' scan_str_length skip_ws_Cons_length)
  ultimately show ?case by blast
qed

lemmas parse_val_consumes = parse_consumes [THEN conjunct1, rule_format]
lemmas parse_elems_consumes = parse_consumes [THEN conjunct2, THEN conjunct1, rule_format]
lemmas parse_members_consumes = parse_consumes [THEN conjunct2, THEN conjunct2, rule_format]

lemma parse_fuel:
  "(\<forall>s. 2 * length s + 1 \<le> n \<longrightarrow> parse_val n s \<noteq> Inl RecursionError) \<and>
   (\<forall>s. 2 * length s + 2 \<le> n \<longrightarrow> parse_elems n s \<noteq> Inl RecursionError) \<and>
   (\<forall>s. 2 * length s + 2 \<le> n \<longrightarrow> parse_members n s \<noteq> Inl RecursionError)"
proof (induction n)
  case 0
  then show ?case by simp
next
  case (Suc n)
  then have v: "\<And>s. parse_val n s = Inl RecursionError \<Longrightarrow> n < 2 * length s + 1"
    and e: "\<And>s. parse_elems n s = Inl RecursionError \<Longrightarrow> n < 2 * length s + 2"
    and m: "\<And>s. parse_members n s = Inl RecursionError \<Longrightarrow> n < 2 * length s + 2"
    by (meson not_le)+
  have v': "\<And>s. parse_val n (skip_ws s) = Inl RecursionError \<Longrightarrow> n < 2 * length s + 1"
    and e': "\<And>s. parse_elems n (skip_ws s) = Inl RecursionError \<Longrightarrow> n < 2 * length s + 2"
    and m': "\<And>s. parse_members n (skip_ws s) = Inl RecursionError \<Longrightarrow> n < 2 * length s + 2"
    by (drule v e m, use skip_ws_length in \<open>fastforce intro: less_le_trans\<close>)+
  have vc: "\<And>s v r. parse_val n (skip_ws s) = Inr (v, r) \<Longrightarrow> length r < length s"
    using parse_val_consumes skip_ws_length by (meson less_le_trans)
  have "Suc n < 2 * length s + 1" if "parse_val (Suc n) s = Inl RecursionError" for s
    using that
    by (auto simp: err_simps split: if_splits
        dest!: e m skip_ws_Cons_length)
  moreover have "Suc n < 2 * length s + 2" if "parse_elems (Suc n) s = Inl RecursionError" for s
    using that
    by (auto simp: err_simps split: if_splits
        dest!: v e' parse_val_consumes skip_ws_Cons_length)
  moreover have "Suc n < 2 * length s + 2" if "parse_members (Suc n) s = Inl RecursionError" for s
    using that
    by (auto simp: err_simps split: if_splits
        dest!: v' m' vc scan_str_length skip_ws_Cons_length)
  ultimately show ?case by (meson not_le)
qed

text \<open>So the fuel is always enough: reading never fails for lack of it.\<close>

lemma json_loads_fuel: "json_loads s \<noteq> Inl RecursionError"
proof -
  have "parse_val (2 * length s + 2) (skip_ws s) \<noteq> Inl RecursionError"
    using parse_fuel [of "2 * length s + 2"] skip_ws_length [of s] by simp
  then show ?thesis by (auto simp: json_loads_def rbind_Inl simp del: parse_val.simps split: if_splits)
qed

end
