(* ===== verification/SharedTelemetry.thy ===== *)
theory SharedTelemetry
  imports JsonCodec
begin

section \<open>Segmented telemetry: src/shared\<close>

text \<open>
  The datagram format of \<open>shared/src\<close>: a sample is cut into segments, each segment becomes
  a datagram (a dictionary with the segment's bytes), datagrams are collected in a payload
  of bounded size, and the payload travels as one JSON array with base64 text in place of
  the bytes. A datagram that was decoded is whatever dictionary the JSON held, so the
  operations on datagrams act on dynamic values and can raise.
\<close>

subsection \<open>Data\<close>

record segmentation_params =
  seq_num :: int
  segment_size :: int
  num_segments :: int
  segment_data :: "byte list"

record segmented_data_dict =
  dd_metric_id :: pystr
  dd_sample_time :: int
  sample_data_segment :: segmentation_params

record shared_sample =
  sm_metric_id :: pystr
  sm_sample_time :: int
  sm_sample_data :: "byte list"

text \<open>The typed dictionaries as the dictionaries they are at run time.\<close>

definition params_py :: "segmentation_params \<Rightarrow> pyval" where
  "params_py p = PDict
     [(u ''seq_num'', PInt (seq_num p)), (u ''segment_size'', PInt (segment_size p)),
      (u ''num_segments'', PInt (num_segments p)), (u ''segment_data'', PBytes (segment_data p))]"

definition datagram_py :: "segmented_data_dict \<Rightarrow> pyval" where
  "datagram_py d = PDict
     [(u ''metric_id'', PStr (dd_metric_id d)), (u ''sample_time'', PInt (dd_sample_time d)),
      (u ''sample_data_segment'', params_py (sample_data_segment d))]"

subsection \<open>shared/src/sample.py\<close>

definition sample_get_id :: "shared_sample \<Rightarrow> pystr" where
  "sample_get_id s = sm_metric_id s @ str_of_int (sm_sample_time s)"

definition get_data_segment :: "shared_sample \<Rightarrow> int \<Rightarrow> int \<Rightarrow> byte list" where
  "get_data_segment s seq sz =
     py_slice (sm_sample_data s) (seq * sz)
       (min (int (length (sm_sample_data s))) ((seq + 1) * sz))"

definition get_datagram :: "shared_sample \<Rightarrow> int \<Rightarrow> int \<Rightarrow> int \<Rightarrow> segmented_data_dict" where
  "get_datagram s seq sz num =
     \<lparr>dd_metric_id = sm_metric_id s, dd_sample_time = sm_sample_time s,
      sample_data_segment =
        \<lparr>seq_num = seq, segment_size = sz, num_segments = num,
         segment_data = get_data_segment s seq sz\<rparr>\<rparr>"

subsection \<open>shared/src/encode_telemetry.py\<close>

definition datagram_get_id :: "segmented_data_dict \<Rightarrow> pystr" where
  "datagram_get_id d = dd_metric_id d @ str_of_int (dd_sample_time d)"

text \<open>\<open>base64.b64encode(v)\<close> needs a bytes-like object.\<close>

fun b64encode_val :: "pyval \<Rightarrow> pyval res" where
  "b64encode_val (PBytes bs) = Inr (PStr (b64_str bs))"
| "b64encode_val (PBytearray bs) = Inr (PStr (b64_str bs))"
| "b64encode_val _ = Inl TypeError"

definition json_dict :: "pyval \<Rightarrow> pyval res" where
  "json_dict d =
     rbind (get_item d (u ''sample_data_segment'')) (\<lambda>seg.
     rbind (get_item seg (u ''segment_data'')) (\<lambda>raw.
     rbind (b64encode_val raw) (\<lambda>text.
     rbind (set_item seg (u ''segment_data'') text) (\<lambda>seg'.
     set_item d (u ''sample_data_segment'') seg'))))"

definition datagram_repr :: "pyval \<Rightarrow> pystr res" where
  "datagram_repr d = rbind (json_dict d) json_dumps"

definition datagram_size :: "pyval \<Rightarrow> int res" where
  "datagram_size d = rbind (datagram_repr d) (\<lambda>s. Inr (int (length s)))"

definition min_datagram_size :: "shared_sample \<Rightarrow> int res" where
  "min_datagram_size s = datagram_size (datagram_py
     \<lparr>dd_metric_id = sm_metric_id s, dd_sample_time = sm_sample_time s,
      sample_data_segment =
        \<lparr>seq_num = 0, segment_size = 1, num_segments = 1, segment_data = [48]\<rparr>\<rparr>)"

record payload =
  samples :: "pyval list"
  max_size :: int

definition new_payload :: "int \<Rightarrow> payload" where
  "new_payload n = \<lparr>samples = [], max_size = n\<rparr>"

definition to_bytes :: "payload \<Rightarrow> byte list res" where
  "to_bytes p = rbind (traverse json_dict (samples p)) (\<lambda>ds. json_dump_bytes (PList ds))"

definition payload_size :: "payload \<Rightarrow> int res" where
  "payload_size p = rbind (to_bytes p) (\<lambda>bs. Inr (int (length bs)))"

definition payload_add :: "payload \<Rightarrow> pyval \<Rightarrow> payload res" where
  "payload_add p d =
     rbind (payload_size p) (\<lambda>n. rbind (datagram_size d) (\<lambda>m.
       if max_size p < n + m + 2 then Inl BufferError
       else Inr (p\<lparr>samples := samples p @ [d]\<rparr>)))"

fun payload_add_all :: "payload \<Rightarrow> pyval list \<Rightarrow> payload res" where
  "payload_add_all p [] = Inr p"
| "payload_add_all p (d # ds) = rbind (payload_add p d) (\<lambda>p'. payload_add_all p' ds)"

subsection \<open>shared/src/decode_telemetry.py\<close>

text \<open>What a \<open>for\<close> loop over a decoded document visits.\<close>

fun py_iter :: "pyval \<Rightarrow> pyval list res" where
  "py_iter (PList vs) = Inr vs"
| "py_iter (PDict d) = Inr (map (\<lambda>(k, v). PStr k) d)"
| "py_iter (PStr s) = Inr (map (\<lambda>c. PStr [c]) s)"
| "py_iter _ = Inl TypeError"

fun b64decode_val :: "pyval \<Rightarrow> pyval res" where
  "b64decode_val (PStr s) = rbind (b64decode_str s) (\<lambda>bs. Inr (PBytes bs))"
| "b64decode_val (PBytes bs) = rbind (b64decode bs) (\<lambda>bs'. Inr (PBytes bs'))"
| "b64decode_val (PBytearray bs) = rbind (b64decode bs) (\<lambda>bs'. Inr (PBytes bs'))"
| "b64decode_val _ = Inl TypeError"

definition decode_sample :: "pyval \<Rightarrow> pyval res" where
  "decode_sample d =
     rbind (get_item d (u ''sample_data_segment'')) (\<lambda>seg.
     rbind (get_item seg (u ''segment_data'')) (\<lambda>text.
     rbind (b64decode_val text) (\<lambda>raw.
     rbind (set_item seg (u ''segment_data'') raw) (\<lambda>seg'.
     set_item d (u ''sample_data_segment'') seg'))))"

definition decode_telemetry :: "byte list \<Rightarrow> pyval list res" where
  "decode_telemetry bs =
     rbind (json_loads_bytes bs) (\<lambda>v. rbind (py_iter v) (traverse decode_sample))"

subsection \<open>The wire format\<close>

definition is_datagram :: "pyval \<Rightarrow> bool" where
  "is_datagram v \<longleftrightarrow> (\<exists>d. v = datagram_py d \<and> scalar_str (dd_metric_id d))"

text \<open>A datagram as it stands in the JSON document.\<close>

definition datagram_json :: "segmented_data_dict \<Rightarrow> pyval" where
  "datagram_json d = PDict
     [(u ''metric_id'', PStr (dd_metric_id d)), (u ''sample_time'', PInt (dd_sample_time d)),
      (u ''sample_data_segment'', PDict
         [(u ''seq_num'', PInt (seq_num (sample_data_segment d))),
          (u ''segment_size'', PInt (segment_size (sample_data_segment d))),
          (u ''num_segments'', PInt (num_segments (sample_data_segment d))),
          (u ''segment_data'', PStr (b64_str (segment_data (sample_data_segment d))))])]"

lemma json_dict_datagram [simp]: "json_dict (datagram_py d) = Inr (datagram_json d)"
  by (simp add: json_dict_def datagram_py_def params_py_def datagram_json_def)

lemma decode_sample_json [simp]: "decode_sample (datagram_json d) = Inr (datagram_py d)"
  by (simp add: decode_sample_def datagram_py_def params_py_def datagram_json_def)

lemma datagram_json_ok: "scalar_str (dd_metric_id d) \<Longrightarrow> json_ok (datagram_json d)"
  by (simp add: datagram_json_def dict_ok_def scalar_def ascii_scalar b64_str_ascii)

lemma is_datagram_cases:
  assumes "is_datagram v"
  obtains d where "v = datagram_py d" "json_dict v = Inr (datagram_json d)" "json_ok (datagram_json d)"
  using assms datagram_json_ok by (auto simp: is_datagram_def)

interpretation dgrams: codec_list json_dict decode_sample is_datagram
  by unfold_locales (auto simp: is_datagram_def)

interpretation wire: codec_chain "traverse json_dict" "traverse decode_sample" "list_all is_datagram"
    "\<lambda>ds. json_dump_bytes (PList ds)" "\<lambda>bs. rbind (json_loads_bytes bs) py_iter" "list_all json_ok"
proof
  fix ds
  assume "list_all json_ok ds"
  then show "rbind (json_dump_bytes (PList ds)) (\<lambda>bs. rbind (json_loads_bytes bs) py_iter) = Inr ds"
    using jsonb.round [of "PList ds"] by (auto simp: res_simps)
next
  fix vs ds
  assume "list_all is_datagram vs" "traverse json_dict vs = Inr ds"
  then show "list_all json_ok ds"
    unfolding list_all_iff by (metis traverse_set is_datagram_cases sum.inject(2))
qed

lemma decode_telemetry_eq:
  "decode_telemetry bs = rbind (rbind (json_loads_bytes bs) py_iter) (traverse decode_sample)"
  by (simp add: decode_telemetry_def rbind_assoc)

lemma to_bytes_ok: "list_all is_datagram (samples p) \<Longrightarrow> \<exists>bs. to_bytes p = Inr bs"
  using wire.chain.enc_succeeds [of "samples p"] by (auto simp: to_bytes_def)

subsection \<open>Sizes\<close>

lemma traverse_json_dict:
  "list_all is_datagram vs \<Longrightarrow> \<exists>ds. traverse json_dict vs = Inr ds \<and> list_all json_ok ds"
  using dgrams.lists.enc_succeeds [of vs] wire.fits [of vs] by blast

lemma length_join:
  "length (join sep ss) = sum_list (map length ss) + length sep * (length ss - 1)"
  by (induction sep ss rule: join.induct) (auto simp: algebra_simps)

lemma payload_size_texts:
  assumes "traverse json_dict (samples p) = Inr ds" "list_all json_ok ds" "traverse json_dumps ds = Inr ss"
  shows "payload_size p = Inr (int (2 + sum_list (map length ss) + 2 * (length ss - 1)))"
proof -
  have d: "json_dumps (PList ds) = Inr (91 # join [44, 32] ss @ [93])" using assms by simp
  obtain bs where bs: "json_dump_bytes (PList ds) = Inr bs"
    using json_dump_bytes_ok [of "PList ds"] assms by auto
  then have "length bs = length (91 # join [44, 32] ss @ [93])"
    using json_dump_bytes_length [OF _ bs d] assms by simp
  with assms bs show ?thesis by (simp add: payload_size_def to_bytes_def length_join)
qed

text \<open>Adding a datagram costs its own text, and a separator unless it is the first.\<close>

lemma payload_size_snoc:
  assumes "list_all is_datagram (samples p)" "is_datagram d"
  obtains n m where "payload_size p = Inr n" "datagram_size d = Inr m" "0 \<le> m"
    "payload_size (p\<lparr>samples := samples p @ [d]\<rparr>) = Inr (n + m + (if samples p = [] then 0 else 2))"
proof -
  obtain ds where ds: "traverse json_dict (samples p) = Inr ds" "list_all json_ok ds"
    using traverse_json_dict assms by blast
  obtain sd where sd: "d = datagram_py sd" "json_ok (datagram_json sd)"
    using assms(2) datagram_json_ok by (auto simp: is_datagram_def)
  obtain ss where ss: "traverse json_dumps ds = Inr ss"
    using json_dumps_ok [of "PList ds"] ds by (auto simp: res_simps)
  obtain s where s: "json_dumps (datagram_json sd) = Inr s" using json_dumps_ok sd by blast
  have "traverse json_dict (samples p @ [d]) = Inr (ds @ [datagram_json sd])"
    using ds sd by (simp add: traverse_append)
  moreover have "traverse json_dumps (ds @ [datagram_json sd]) = Inr (ss @ [s])"
    using ss s by (simp add: traverse_append)
  ultimately have "payload_size (p\<lparr>samples := samples p @ [d]\<rparr>)
      = Inr (int (2 + sum_list (map length (ss @ [s])) + 2 * (length (ss @ [s]) - 1)))"
    using ds sd by (intro payload_size_texts) auto
  moreover have "payload_size p = Inr (int (2 + sum_list (map length ss) + 2 * (length ss - 1)))"
    using payload_size_texts ds ss by blast
  moreover have "datagram_size d = Inr (int (length s))"
    using sd s by (simp add: datagram_size_def datagram_repr_def)
  moreover have "length ss = length (samples p)"
    using traverse_length [OF ss] traverse_length [OF ds(1)] by simp
  moreover have "int (2 * (Suc k - 1)) = 2 * int (Suc k) - 2" for k by simp
  ultimately show thesis
    by (intro that) (auto simp: algebra_simps neq_Nil_conv)
qed

definition payload_fits :: "payload \<Rightarrow> bool" where
  "payload_fits p \<longleftrightarrow> list_all is_datagram (samples p) \<and>
     (samples p = [] \<or> (\<exists>n. payload_size p = Inr n \<and> n \<le> max_size p))"

lemma payload_add_Inr:
  "payload_add p d = Inr p' \<longleftrightarrow> (\<exists>n m. payload_size p = Inr n \<and> datagram_size d = Inr m \<and>
     n + m + 2 \<le> max_size p \<and> p' = p\<lparr>samples := samples p @ [d]\<rparr>)"
  by (auto simp: payload_add_def res_simps)

lemma payload_add_fits:
  assumes "payload_fits p" "is_datagram d" "payload_add p d = Inr p'"
  shows "payload_fits p'"
proof -
  from assms have "list_all is_datagram (samples p)" by (simp add: payload_fits_def)
  from payload_size_snoc [OF this assms(2)] obtain n m where
    "payload_size p = Inr n" "datagram_size d = Inr m"
    "payload_size (p\<lparr>samples := samples p @ [d]\<rparr>) = Inr (n + m + (if samples p = [] then 0 else 2))"
    by blast
  with assms show ?thesis by (auto simp: payload_add_Inr payload_fits_def)
qed

interpretation payloads: machine "\<lambda>p. samples p = []"
    "\<lambda>p p'. \<exists>d. is_datagram d \<and> payload_add p d = Inr p'" payload_fits
  by unfold_locales (simp add: payload_fits_def, blast intro: payload_add_fits)

subsection \<open>Segmentation\<close>

lemma concat_segments:
  "0 < k \<Longrightarrow> concat (map (\<lambda>i. take k (drop (i * k) xs)) [0..<n]) = take (n * k) xs"
proof (induction n)
  case (Suc n)
  then have "concat (map (\<lambda>i. take k (drop (i * k) xs)) [0..<Suc n]) = take (n * k) xs @ take k (drop (n * k) xs)"
    by simp
  also have "\<dots> = take (n * k + k) xs" by (rule take_add [symmetric])
  finally show ?case by (simp add: add.commute)
qed simp

lemma slice_of_nat: "py_slice xs (int a) (int b) = take (b - a) (drop a xs)"
  by (simp add: slice_nat)

lemma get_data_segment_of_nat:
  "get_data_segment s (int i) (int k) = take k (drop (i * k) (sm_sample_data s))"
proof -
  let ?n = "length (sm_sample_data s)"
  have "min (int ?n) ((int i + 1) * int k) = int (min ?n (i * k + k))"
    by (simp add: algebra_simps of_nat_min)
  then have "get_data_segment s (int i) (int k) = take (min ?n (i * k + k) - i * k) (drop (i * k) (sm_sample_data s))"
    unfolding get_data_segment_def by (simp only: slice_of_nat flip: of_nat_mult)
  also have "\<dots> = take k (drop (i * k) (sm_sample_data s))"
    by (cases "i * k + k \<le> ?n") (simp_all add: min_def)
  finally show ?thesis .
qed

text \<open>The receiver's side of the segmentation: the segments' bytes in order.\<close>

definition datagrams_of :: "shared_sample \<Rightarrow> int \<Rightarrow> nat \<Rightarrow> segmented_data_dict list" where
  "datagrams_of s sz n = map (\<lambda>i. get_datagram s (int i) sz (int n)) [0..<n]"

definition reassemble :: "segmented_data_dict list \<Rightarrow> byte list" where
  "reassemble ds = concat (map (\<lambda>d. segment_data (sample_data_segment d)) ds)"

lemma reassemble_datagrams:
  assumes "0 < k" "length (sm_sample_data s) \<le> n * k"
  shows "reassemble (datagrams_of s (int k) n) = sm_sample_data s"
  using assms concat_segments [of k "sm_sample_data s" n]
  by (simp add: reassemble_def datagrams_of_def get_datagram_def get_data_segment_of_nat o_def)

subsection \<open>The smallest datagram\<close>

lemma length_quote_lit: "list_all (\<lambda>c. 32 \<le> c \<and> c \<le> 126 \<and> c \<noteq> 34 \<and> c \<noteq> 92) s \<Longrightarrow> length (quote s) = length s + 2"
proof -
  assume "list_all (\<lambda>c. 32 \<le> c \<and> c \<le> 126 \<and> c \<noteq> 34 \<and> c \<noteq> 92) s"
  then have "concat (map esc_char s) = s" by (induction s) (auto simp: esc_char_def)
  then show ?thesis by (simp add: quote_with_def)
qed

lemma datagram_size_eq:
  "datagram_size (datagram_py d) = Inr (124 + int (
     length (quote (dd_metric_id d)) + length (str_of_int (dd_sample_time d))
     + length (str_of_int (seq_num (sample_data_segment d)))
     + length (str_of_int (segment_size (sample_data_segment d)))
     + length (str_of_int (num_segments (sample_data_segment d)))
     + length (quote (b64_str (segment_data (sample_data_segment d))))))"
  by (simp add: datagram_size_def datagram_repr_def datagram_json_def length_quote_lit)

lemma length_quote: "length s + 2 \<le> length (quote s)"
proof -
  have "1 \<le> length (esc_char c)" for c by (simp add: esc_char_def u_escape_def)
  then have "length s \<le> length (concat (map esc_char s))"
  proof (induction s)
    case (Cons c s)
    then have "length s \<le> length (concat (map esc_char s))" "1 \<le> length (esc_char c)" by blast+
    then show ?case by simp
  qed simp
  then show ?thesis by (simp add: quote_with_def)
qed

lemma length_str_of_int: "1 \<le> length (str_of_int i)"
  using str_of_int_head [of i] by auto

lemma quote_b64_one: "length (quote (b64_str [48])) = 6"
  by (simp add: b64_str_def ints_of_bytes_def b64_char_def quote_with_def esc_char_def)

lemma str_of_int_digit: "0 \<le> i \<Longrightarrow> i < 10 \<Longrightarrow> length (str_of_int i) = 1"
  by (simp add: str_of_int_def, subst digits.simps) simp

subsection \<open>Properties\<close>

lemma payload_add_all_fits:
  "payload_fits p \<Longrightarrow> list_all is_datagram ds \<Longrightarrow> payload_add_all p ds = Inr p' \<Longrightarrow>
    payload_fits p' \<and> samples p' = samples p @ ds \<and> max_size p' = max_size p"
proof (induction ds arbitrary: p)
  case (Cons d ds)
  then obtain p1 where p1: "payload_add p d = Inr p1" "payload_add_all p1 ds = Inr p'"
    by (auto simp: res_simps)
  then have "payload_fits p1" using Cons.prems payload_add_fits by auto
  moreover have "samples p1 = samples p @ [d]" "max_size p1 = max_size p"
    using p1(1) by (auto simp: payload_add_Inr)
  ultimately show ?case using Cons p1 by auto
qed simp

lemma payload_wire:
  "list_all is_datagram (samples p) \<Longrightarrow>
    \<exists>bs. to_bytes p = Inr bs \<and> decode_telemetry bs = Inr (samples p)"
  using wire.chain.enc_succeeds [of "samples p"] by (simp add: to_bytes_def decode_telemetry_eq)

text \<open>C9: A payload of well-formed datagrams always serialises, and \<open>decode_telemetry\<close> gives
  back exactly the datagrams it holds, in order, with the original segment bytes.\<close>

theorem payload_roundtrip:
  assumes "list_all is_datagram (samples p)"
  shows "\<exists>bs. to_bytes p = Inr bs \<and> decode_telemetry bs = Inr (samples p)"
  by (rule payload_wire [OF assms])

definition demo_sample :: shared_sample where
  "demo_sample = \<lparr>sm_metric_id = u ''cpu'', sm_sample_time = 7, sm_sample_data = [1, 2, 255, 0, 9]\<rparr>"

lemma demo_ok: "scalar_str (sm_metric_id demo_sample)" "length (sm_sample_data demo_sample) = 5"
  by (simp_all add: demo_sample_def scalar_def)

lemma demo_datagrams: "list_all is_datagram (map datagram_py (datagrams_of demo_sample k n))"
  by (auto simp: list_all_iff is_datagram_def datagrams_of_def get_datagram_def demo_sample_def scalar_def)

theorem payload_roundtrip_witness:
  "\<exists>bs. to_bytes \<lparr>samples = map datagram_py (datagrams_of demo_sample 2 3), max_size = 9\<rparr> = Inr bs \<and>
    decode_telemetry bs = Inr (map datagram_py (datagrams_of demo_sample 2 3))"
  using payload_roundtrip [of "\<lparr>samples = map datagram_py (datagrams_of demo_sample 2 3), max_size = 9\<rparr>"]
    demo_datagrams by simp

text \<open>C10: Whatever datagrams are added to a new payload, if every \<open>add\<close> returns then the payload
  holds them in order and its serialised size never exceeds \<open>max_size\<close>.\<close>

theorem payload_bounded:
  assumes "list_all is_datagram ds" "ds \<noteq> []" "payload_add_all (new_payload n) ds = Inr p"
  shows "samples p = ds \<and> (\<exists>m. payload_size p = Inr m \<and> m \<le> n)"
proof -
  have "payload_fits (new_payload n)" by (simp add: payload_fits_def new_payload_def)
  from payload_add_all_fits [OF this assms(1,3)] assms(2) show ?thesis
    by (auto simp: payload_fits_def new_payload_def)
qed

theorem payload_bounded_witness:
  "\<exists>p. payload_add_all (new_payload 400) (map datagram_py (datagrams_of demo_sample 3 2)) = Inr p \<and>
    samples p = map datagram_py (datagrams_of demo_sample 3 2) \<and> (\<exists>m. payload_size p = Inr m \<and> m \<le> 400)"
proof -
  have "is_ok (payload_add_all (new_payload 400) (map datagram_py (datagrams_of demo_sample 3 2)))"
    by code_simp
  then obtain p where p: "payload_add_all (new_payload 400) (map datagram_py (datagrams_of demo_sample 3 2)) = Inr p"
    by (auto simp: is_ok_def split: sum.splits)
  moreover have "map datagram_py (datagrams_of demo_sample 3 2) \<noteq> []" by (simp add: datagrams_of_def)
  ultimately show ?thesis using payload_bounded [OF demo_datagrams _ p] by blast
qed

text \<open>C31: \<open>add\<close> raises \<open>BufferError\<close> exactly when the payload's and the datagram's serialised
  sizes and a separator exceed the limit; otherwise the new size is the old one plus the
  datagram's, plus the separator unless the payload was empty.\<close>

theorem payload_add_exact:
  assumes "list_all is_datagram (samples p)" "is_datagram d"
  shows "\<exists>n m. payload_size p = Inr n \<and> datagram_size d = Inr m \<and>
    (if max_size p < n + m + 2 then payload_add p d = Inl BufferError
     else \<exists>p'. payload_add p d = Inr p' \<and> samples p' = samples p @ [d] \<and>
       payload_size p' = Inr (n + m + (if samples p = [] then 0 else 2)))"
proof -
  obtain n m where nm: "payload_size p = Inr n" "datagram_size d = Inr m"
    "payload_size (p\<lparr>samples := samples p @ [d]\<rparr>) = Inr (n + m + (if samples p = [] then 0 else 2))"
    using payload_size_snoc [OF assms] by blast
  have "payload_add p d = (if max_size p < n + m + 2 then Inl BufferError
      else Inr (p\<lparr>samples := samples p @ [d]\<rparr>))"
    by (simp add: payload_add_def nm)
  with nm show ?thesis
    by (intro exI [of _ n] exI [of _ m]) simp
qed

theorem payload_add_exact_witness:
  "\<exists>n m. payload_size (new_payload 9) = Inr n \<and>
    datagram_size (datagram_py (get_datagram demo_sample 0 3 2)) = Inr m \<and>
    (if 9 < n + m + 2 then payload_add (new_payload 9) (datagram_py (get_datagram demo_sample 0 3 2)) = Inl BufferError
     else \<exists>p'. payload_add (new_payload 9) (datagram_py (get_datagram demo_sample 0 3 2)) = Inr p' \<and>
       samples p' = samples (new_payload 9) @ [datagram_py (get_datagram demo_sample 0 3 2)] \<and>
       payload_size p' = Inr (n + m + (if samples (new_payload 9) = [] then 0 else 2)))"
proof -
  have "is_datagram (datagram_py (get_datagram demo_sample 0 3 2))"
    using demo_ok by (auto simp: is_datagram_def get_datagram_def)
  then show ?thesis
    using payload_add_exact [of "new_payload 9" "datagram_py (get_datagram demo_sample 0 3 2)"]
    by (simp add: new_payload_def)
qed

text \<open>C19: Cut into segments of positive size, with enough segments to cover it, sent as datagrams
  in one payload and decoded on the other side, a sample's bytes come back unchanged.\<close>

theorem sample_transfer:
  assumes "scalar_str (sm_metric_id s)" "0 < k" "length (sm_sample_data s) \<le> n * k"
    "samples p = map datagram_py (datagrams_of s (int k) n)"
  shows "\<exists>bs ds. to_bytes p = Inr bs \<and> decode_telemetry bs = Inr (map datagram_py ds) \<and>
    length ds = n \<and> (\<forall>d \<in> set ds. length (segment_data (sample_data_segment d)) \<le> k) \<and>
    reassemble ds = sm_sample_data s"
proof -
  let ?ds = "datagrams_of s (int k) n"
  have "list_all is_datagram (samples p)"
    using assms by (auto simp: list_all_iff is_datagram_def datagrams_of_def get_datagram_def)
  from payload_wire [OF this] obtain bs where "to_bytes p = Inr bs" "decode_telemetry bs = Inr (map datagram_py ?ds)"
    using assms(4) by auto
  moreover have "length ?ds = n" by (simp add: datagrams_of_def)
  moreover have "\<forall>d \<in> set ?ds. length (segment_data (sample_data_segment d)) \<le> k"
    by (auto simp: datagrams_of_def get_datagram_def get_data_segment_of_nat)
  ultimately show ?thesis using reassemble_datagrams [OF assms(2,3)] by blast
qed

theorem sample_transfer_witness:
  "\<exists>bs ds. to_bytes \<lparr>samples = map datagram_py (datagrams_of demo_sample 2 3), max_size = 9\<rparr> = Inr bs \<and>
    decode_telemetry bs = Inr (map datagram_py ds) \<and> length ds = 3 \<and>
    (\<forall>d \<in> set ds. length (segment_data (sample_data_segment d)) \<le> 2) \<and>
    reassemble ds = sm_sample_data demo_sample"
  using sample_transfer [of demo_sample 2 3
      "\<lparr>samples = map datagram_py (datagrams_of demo_sample 2 3), max_size = 9\<rparr>"] demo_ok
  by simp

text \<open>\<open>min_datagram_size\<close> is a lower bound: no datagram of the sample with a non-empty segment
  is smaller.\<close>

theorem min_datagram_size_bound:
  assumes "segment_data (sample_data_segment (get_datagram s seq sz num)) \<noteq> []"
  shows "\<exists>l m. min_datagram_size s = Inr l \<and> datagram_size (datagram_py (get_datagram s seq sz num)) = Inr m \<and> l \<le> m"
proof -
  let ?b = "segment_data (sample_data_segment (get_datagram s seq sz num))"
  have "4 \<le> length (b64_str ?b)"
    using assms by (cases ?b) (simp_all add: b64_str_def length_b2a ints_of_bytes_def)
  then have "6 \<le> length (quote (b64_str ?b))" using length_quote [of "b64_str ?b"] by simp
  then show ?thesis
    using length_str_of_int [of seq] length_str_of_int [of sz] length_str_of_int [of num]
    by (simp add: min_datagram_size_def datagram_size_eq quote_b64_one str_of_int_digit)
      (simp add: get_datagram_def)
qed

theorem min_datagram_size_bound_witness:
  "\<exists>l m. min_datagram_size demo_sample = Inr l \<and>
    datagram_size (datagram_py (get_datagram demo_sample 1 2 3)) = Inr m \<and> l \<le> m"
  by (rule min_datagram_size_bound)
    (simp add: get_datagram_def get_data_segment_def py_slice_def slice_bound_def demo_sample_def Let_def)

end
