(* ===== verification/SharedCommand.thy ===== *)
theory SharedCommand
  imports JsonCodec
begin

section \<open>Commands and messages of the segmented protocol: src/shared\<close>

text \<open>
  The acknowledgements and retransmission requests of \<open>shared/src/encode_command.py\<close> and
  the plain JSON and text helpers of \<open>encode.py\<close> and \<open>decode.py\<close>. The image helpers of
  those files hand over to the Pillow library, which is a parameter.
\<close>

text \<open>The two dictionaries of the type \<open>Command\<close>.\<close>

definition retransmit_segment_command :: "pystr \<Rightarrow> int list \<Rightarrow> pyval" where
  "retransmit_segment_command sample_id seqs = PDict
     [(u ''command'', PStr (u ''retransmit_segment'')), (u ''sample_id'', PStr sample_id),
      (u ''seq_nums'', PList (map PInt seqs))]"

definition ack_sample_command :: "pystr \<Rightarrow> pyval" where
  "ack_sample_command sample_id = PDict
     [(u ''command'', PStr (u ''ack_sample'')), (u ''sample_id'', PStr sample_id)]"

definition encode_commands :: "pyval list \<Rightarrow> byte list res" where
  "encode_commands cs = rbind (json_dumps (PList cs)) utf8_encode"

definition decode_commands :: "byte list \<Rightarrow> pyval res" where
  "decode_commands bs = rbind (utf8_decode bs) json_loads"

definition encode_json :: "pyval \<Rightarrow> byte list res" where
  "encode_json v = rbind (json_dumps v) utf8_encode"

definition encode_msg :: "pystr \<Rightarrow> byte list res" where
  "encode_msg s = utf8_encode s"

definition decode_msg :: "byte list \<Rightarrow> pystr res" where
  "decode_msg bs = utf8_decode bs"

text \<open>
  \<open>save\<close> is what \<open>Image.save\<close> writes to the stream, given format and quality; \<open>open_image\<close> is \<open>Image.open\<close> on
  a stream of the bytes, given the formats it may try.
\<close>

definition encode_img :: "('img \<Rightarrow> pystr \<Rightarrow> int \<Rightarrow> byte list res) \<Rightarrow> 'img \<Rightarrow> byte list res" where
  "encode_img save img = save img (u ''webp'') 100"

definition decode_img :: "(byte list \<Rightarrow> pystr list \<Rightarrow> 'img res) \<Rightarrow> byte list \<Rightarrow> 'img res" where
  "decode_img open_image bs = open_image bs [u ''webp'']"

text \<open>The two agree on the format, so an image that the library can write as WebP can be read again.\<close>

lemma img_readable:
  assumes "\<And>img f q bs fs. save img f q = Inr bs \<Longrightarrow> f \<in> set fs \<Longrightarrow> \<exists>img'. open_image bs fs = Inr img' \<and> size_of img' = size_of img"
    and "encode_img save img = Inr bs"
  shows "\<exists>img'. decode_img open_image bs = Inr img' \<and> size_of img' = size_of img"
  using assms(1) [of img "u ''webp''" 100 bs "[u ''webp'']"] assms(2) by (simp add: encode_img_def decode_img_def)

text \<open>The documents that both directions agree on.\<close>

interpretation text_json: codec_chain json_dumps json_loads json_ok utf8_encode utf8_decode scalar_str
  by unfold_locales (auto dest: json_dumps_plain intro: ascii_scalar plain_ascii)

subsection \<open>What a command says\<close>

text \<open>
  The requests a receiver may send, the dictionary the functions above build for each, and the reading of a
  dictionary by the declared types: the literal of the key \<open>command\<close> tells which of the two it is, each has exactly the
  declared keys, with values of the declared types.
\<close>

datatype segment_request = Retransmit pystr "int list" | AckSample pystr

fun request_command :: "segment_request \<Rightarrow> pyval" where
  "request_command (Retransmit i seqs) = retransmit_segment_command i seqs"
| "request_command (AckSample i) = ack_sample_command i"

fun request_sample :: "segment_request \<Rightarrow> pystr" where
  "request_sample (Retransmit i seqs) = i"
| "request_sample (AckSample i) = i"

fun int_items :: "pyval list \<Rightarrow> int list option" where
  "int_items [] = Some []"
| "int_items (PInt i # vs) = map_option ((#) i) (int_items vs)"
| "int_items _ = None"

definition retransmit_command :: "(pystr \<times> pyval) list \<Rightarrow> segment_request option" where
  "retransmit_command d =
     (if fst ` set d = {u ''command'', u ''sample_id'', u ''seq_nums''} then
        (case (map_of d (u ''command''), map_of d (u ''sample_id''), map_of d (u ''seq_nums'')) of
           (Some (PStr c), Some (PStr i), Some (PList vs)) \<Rightarrow>
             if c = u ''retransmit_segment'' then map_option (Retransmit i) (int_items vs) else None
         | _ \<Rightarrow> None)
      else None)"

definition ack_command :: "(pystr \<times> pyval) list \<Rightarrow> segment_request option" where
  "ack_command d =
     (if fst ` set d = {u ''command'', u ''sample_id''} then
        (case (map_of d (u ''command''), map_of d (u ''sample_id'')) of
           (Some (PStr c), Some (PStr i)) \<Rightarrow> if c = u ''ack_sample'' then Some (AckSample i) else None
         | _ \<Rightarrow> None)
      else None)"

definition typed_command :: "pyval \<Rightarrow> segment_request option" where
  "typed_command v =
     (case v of
        PDict d \<Rightarrow> (case retransmit_command d of Some r \<Rightarrow> Some r | None \<Rightarrow> ack_command d)
      | _ \<Rightarrow> None)"

lemma int_items_ints: "int_items (map PInt seqs) = Some seqs"
  by (induction seqs) simp_all

lemma typed_request: "typed_command (request_command r) = Some r"
  by (cases r) (simp_all add: typed_command_def retransmit_command_def ack_command_def retransmit_segment_command_def
      ack_sample_command_def int_items_ints insert_commute)

lemma request_json: "scalar_str (request_sample r) \<Longrightarrow> json_ok (request_command r)"
  by (cases r) (simp_all add: retransmit_segment_command_def ack_sample_command_def dict_ok_def scalar_def list_all_iff)

text \<open>C35: The bytes of a list of requests, built with the functions for the two kinds of command, decode to dictionaries that, read
  by their declared types, are the same requests in the same order: each as the kind it was, with its sample and its
  sequence numbers.\<close>

theorem commands_roundtrip:
  assumes "\<forall>r \<in> set rs. scalar_str (request_sample r)"
  shows "\<exists>bs vs. encode_commands (map request_command rs) = Inr bs \<and> decode_commands bs = Inr (PList vs) \<and>
    map typed_command vs = map Some rs"
proof -
  have "json_ok (PList (map request_command rs))" using assms request_json by (auto simp: list_all_iff)
  from text_json.chain.enc_succeeds [OF this] obtain bs where
    "encode_commands (map request_command rs) = Inr bs" "decode_commands bs = Inr (PList (map request_command rs))"
    by (auto simp: encode_commands_def decode_commands_def)
  moreover have "map typed_command (map request_command rs) = map Some rs" by (simp add: typed_request)
  ultimately show ?thesis by blast
qed

theorem commands_roundtrip_witness:
  "\<exists>bs vs. encode_commands [ack_sample_command (u ''cpu7''), retransmit_segment_command (u ''cpu7'') [0, 2]] = Inr bs \<and>
    decode_commands bs = Inr (PList vs) \<and>
    map typed_command vs = [Some (AckSample (u ''cpu7'')), Some (Retransmit (u ''cpu7'') [0, 2])]"
  using commands_roundtrip [of "[AckSample (u ''cpu7''), Retransmit (u ''cpu7'') [0, 2]]"] by (simp add: scalar_def)

text \<open>A message of any code points but surrogates survives \<open>encode_msg\<close> and \<open>decode_msg\<close>; one
  with a surrogate raises \<open>UnicodeEncodeError\<close>.\<close>

theorem msg_roundtrip:
  assumes "\<forall>c \<in> set s. 0 \<le> c \<and> c < 0x110000"
  shows "if \<exists>c \<in> set s. surrogate c then encode_msg s = Inl UnicodeEncodeError
    else \<exists>bs. encode_msg s = Inr bs \<and> decode_msg bs = Inr s"
proof (cases "\<exists>c \<in> set s. surrogate c")
  case True
  have "utf8_char c = Inl e \<Longrightarrow> e = UnicodeEncodeError" for c e
    by (auto simp: utf8_char_def split: if_splits)
  moreover have "surrogate c \<Longrightarrow> utf8_char c = Inl UnicodeEncodeError" for c
    by (simp add: utf8_char_def surrogate_def)
  ultimately have "traverse utf8_char s = Inl UnicodeEncodeError"
    using True
  proof (induction s)
    case (Cons c s)
    then show ?case by (cases "utf8_char c"; cases "surrogate c") auto
  qed simp
  with True show ?thesis by (simp add: encode_msg_def utf8_encode_def)
next
  case False
  with assms have "scalar_str s"
    by (auto simp: scalar_str_def scalar_def surrogate_def list_all_iff)
  with False show ?thesis
    using utf8.enc_succeeds [of s] by (simp add: encode_msg_def decode_msg_def)
qed

theorem msg_roundtrip_witness:
  "if \<exists>c \<in> set [104, 0x20AC, 0x1F600]. surrogate c then encode_msg [104, 0x20AC, 0x1F600] = Inl UnicodeEncodeError
    else \<exists>bs. encode_msg [104, 0x20AC, 0x1F600] = Inr bs \<and> decode_msg bs = Inr [104, 0x20AC, 0x1F600]"
  by (rule msg_roundtrip) simp

end
