(* ===== verification/Pydantic.thy ===== *)
theory Pydantic
  imports JsonCodec
begin

section \<open>The validation library as a parameter\<close>

text \<open>
  The message classes of \<open>codec\<close> are pydantic models. What pydantic itself does is not in
  the repository, so it is an argument \<open>P\<close> of the definitions that use it: its JSON reader
  and writer, and how it turns an input into the type a field declares. The validators and
  the classes that the repository defines on top are modelled in full.
\<close>

text \<open>The union \<open>PrimitiveType\<close> and the union \<open>float | int\<close>.\<close>

datatype prim = IntV int | FloatV pyfloat | StrV pystr | BoolV bool

datatype pynum = NumI int | NumF pyfloat

fun prim_py :: "prim \<Rightarrow> pyval" where
  "prim_py (IntV i) = PInt i"
| "prim_py (FloatV f) = PFloat f"
| "prim_py (StrV s) = PStr s"
| "prim_py (BoolV b) = PBool b"

fun num_py :: "pynum \<Rightarrow> pyval" where
  "num_py (NumI i) = PInt i"
| "num_py (NumF f) = PFloat f"

record pydantic =
  pd_parse :: "pystr \<Rightarrow> pyval res"       \<comment> \<open>the JSON reader behind \<open>model_validate_json\<close>\<close>
  pd_write :: "pyval \<Rightarrow> pystr res"       \<comment> \<open>the JSON writer behind \<open>model_dump_json\<close>\<close>
  pd_str :: "pyval \<Rightarrow> pystr option"      \<comment> \<open>a field of type \<open>str\<close>\<close>
  pd_int :: "pyval \<Rightarrow> int option"        \<comment> \<open>a field of type \<open>int\<close>\<close>
  pd_num :: "pyval \<Rightarrow> pynum option"      \<comment> \<open>a field of type \<open>float | int\<close>\<close>
  pd_prim :: "pyval \<Rightarrow> prim option"      \<comment> \<open>a field of type \<open>int | float | str | bool\<close>\<close>
  pd_first :: "pyval \<Rightarrow> bool"            \<comment> \<open>which member of a union wins when both accept the input\<close>

text \<open>
  The documented behaviour the code relies on: a value that already has the declared type is
  kept as it is (unions prefer the member of the exact type), and a document that was
  written is read back. \<open>ok\<close> delimits the documents the writer can represent.
\<close>

locale pydantic_api =
  fixes P :: pydantic and ok :: "pyval \<Rightarrow> bool"
  assumes str_exact: "pd_str P (PStr s) = Some s"
    and int_exact: "pd_int P (PInt i) = Some i"
    and num_exact: "pd_num P (num_py n) = Some n"
    and prim_exact: "pd_prim P (prim_py v) = Some v"
    and json_codec: "codec (pd_write P) (pd_parse P) ok"

sublocale pydantic_api \<subseteq> docs: codec "pd_write P" "pd_parse P" ok
  by (rule json_codec)

text \<open>
  An instance: strict validation, which accepts exactly the values of the declared type,
  over the JSON format of the standard library.
\<close>

definition strict_pydantic :: pydantic where
  "strict_pydantic =
     \<lparr>pd_parse = json_loads, pd_write = json_dumps,
      pd_str = (\<lambda>v. case v of PStr s \<Rightarrow> Some s | _ \<Rightarrow> None),
      pd_int = (\<lambda>v. case v of PInt i \<Rightarrow> Some i | _ \<Rightarrow> None),
      pd_num = (\<lambda>v. case v of PInt i \<Rightarrow> Some (NumI i) | PFloat f \<Rightarrow> Some (NumF f) | _ \<Rightarrow> None),
      pd_prim = (\<lambda>v. case v of PInt i \<Rightarrow> Some (IntV i) | PFloat f \<Rightarrow> Some (FloatV f)
                   | PStr s \<Rightarrow> Some (StrV s) | PBool b \<Rightarrow> Some (BoolV b) | _ \<Rightarrow> None),
      pd_first = (\<lambda>_. True)\<rparr>"

interpretation strict: pydantic_api strict_pydantic json_ok
proof
  show "pd_num strict_pydantic (num_py n) = Some n" for n
    by (cases n) (simp_all add: strict_pydantic_def)
  show "pd_prim strict_pydantic (prim_py v) = Some v" for v
    by (cases v) (simp_all add: strict_pydantic_def)
  show "rbind (pd_write strict_pydantic v) (pd_parse strict_pydantic) = Inr v" if "json_ok v" for v
    using json.round [OF that] by (simp add: strict_pydantic_def)
qed (simp_all add: strict_pydantic_def)

text \<open>Reading a declared field of a model from the input dictionary.\<close>

definition field :: "(pystr \<times> pyval) list \<Rightarrow> pystr \<Rightarrow> (pyval \<Rightarrow> 'a option) \<Rightarrow> 'a res" where
  "field d k f =
     (case map_of d k of None \<Rightarrow> Inl ValidationError
      | Some v \<Rightarrow> (case f v of None \<Rightarrow> Inl ValidationError | Some x \<Rightarrow> Inr x))"

lemma field_Inr [res_simps]: "field d k f = Inr x \<longleftrightarrow> (\<exists>v. map_of d k = Some v \<and> f v = Some x)"
  by (auto simp: field_def split: option.splits)

text \<open>The fields of the input, for inputs a model accepts: dictionaries.\<close>

definition model_dict :: "pyval \<Rightarrow> (pystr \<times> pyval) list res" where
  "model_dict v = (case v of PDict d \<Rightarrow> Inr d | _ \<Rightarrow> Inl ValidationError)"

lemma model_dict_Inr [res_simps]: "model_dict v = Inr d \<longleftrightarrow> v = PDict d"
  by (auto simp: model_dict_def split: pyval.splits)

lemma model_dict_PDict [simp]: "model_dict (PDict d) = Inr d"
  by (simp add: model_dict_def)

definition some_ok :: "'a res \<Rightarrow> 'a option" where
  "some_ok r = (case r of Inl _ \<Rightarrow> None | Inr x \<Rightarrow> Some x)"

lemma some_ok_simps [simp]: "some_ok (Inr x) = Some x" "some_ok (Inl e) = None"
  by (simp_all add: some_ok_def)

lemma some_ok_Some [res_simps]: "some_ok r = Some x \<longleftrightarrow> r = Inr x"
  by (cases r) (auto simp: some_ok_def)

end
