(* ===== verification/CodecSample.thy ===== *)
theory CodecSample
  imports Pydantic
begin

section \<open>Samples: codec/src/bvex_codec/sample.py\<close>

text \<open>
  A sample is a value (or a file) with its metadata. The theory holds the classes, the
  validators that the classes declare, how they compose when a sample is built in Python or
  read from JSON, and the dump to JSON.
\<close>

subsection \<open>Primitive values\<close>

datatype which_primitive = WINT | WFLOAT | WSTR | WBOOL

fun which_primitive_str :: "which_primitive \<Rightarrow> pystr" where
  "which_primitive_str WINT = u ''int''"
| "which_primitive_str WFLOAT = u ''float''"
| "which_primitive_str WSTR = u ''str''"
| "which_primitive_str WBOOL = u ''bool''"

definition which_primitive_of :: "pyval \<Rightarrow> which_primitive option" where
  "which_primitive_of v =
     (case v of PStr s \<Rightarrow>
        if s = u ''int'' then Some WINT else if s = u ''float'' then Some WFLOAT
        else if s = u ''str'' then Some WSTR else if s = u ''bool'' then Some WBOOL else None
      | _ \<Rightarrow> None)"

text \<open>\<open>isinstance\<close>: a \<open>bool\<close> is also an \<open>int\<close>.\<close>

definition isinstance_bool :: "pyval \<Rightarrow> bool" where
  "isinstance_bool v = (case v of PBool _ \<Rightarrow> True | _ \<Rightarrow> False)"

definition isinstance_int :: "pyval \<Rightarrow> bool" where
  "isinstance_int v = (case v of PInt _ \<Rightarrow> True | PBool _ \<Rightarrow> True | _ \<Rightarrow> False)"

definition isinstance_float :: "pyval \<Rightarrow> bool" where
  "isinstance_float v = (case v of PFloat _ \<Rightarrow> True | _ \<Rightarrow> False)"

definition isinstance_str :: "pyval \<Rightarrow> bool" where
  "isinstance_str v = (case v of PStr _ \<Rightarrow> True | _ \<Rightarrow> False)"

definition which_from_value :: "pyval \<Rightarrow> which_primitive res" where
  "which_from_value v =
     (if isinstance_bool v then Inr WBOOL
      else if isinstance_int v then Inr WINT
      else if isinstance_float v then Inr WFLOAT
      else if isinstance_str v then Inr WSTR
      else Inl ValueError)"

record primitive_data =
  pd_which :: which_primitive
  pd_value :: prim

text \<open>The constructors \<open>int\<close>, \<open>float\<close>, \<open>str\<close> and \<open>bool\<close> on a primitive value.\<close>

fun py_int :: "prim \<Rightarrow> int res" where
  "py_int (IntV i) = Inr i"
| "py_int (FloatV f) = int_of_float f"
| "py_int (StrV s) = int_of_str s"
| "py_int (BoolV b) = Inr (if b then 1 else 0)"

fun py_float :: "prim \<Rightarrow> pyfloat res" where
  "py_float (IntV i) = float_of_int i"
| "py_float (FloatV f) = Inr f"
| "py_float (StrV s) = float_of_str s"
| "py_float (BoolV b) = Inr (Fin (if b then 1 else 0))"

fun py_str :: "prim \<Rightarrow> pystr" where
  "py_str (IntV i) = str_of_int i"
| "py_str (FloatV f) = repr_float f"
| "py_str (StrV s) = s"
| "py_str (BoolV b) = (if b then u ''True'' else u ''False'')"

fun py_bool :: "prim \<Rightarrow> bool" where
  "py_bool (IntV i) = (i \<noteq> 0)"
| "py_bool (FloatV f) = float_truth f"
| "py_bool (StrV s) = (s \<noteq> [])"
| "py_bool (BoolV b) = b"

text \<open>
  The validator of the field \<open>value\<close>. Its first argument is the already validated field
  \<open>which_primitive\<close>, if there is one; every exception becomes a \<open>ValueError\<close>.
\<close>

fun validate_value_type :: "which_primitive option \<Rightarrow> prim \<Rightarrow> prim res" where
  "validate_value_type None v = Inr v"
| "validate_value_type (Some WINT) v = on_error ValueError (rbind (py_int v) (\<lambda>i. Inr (IntV i)))"
| "validate_value_type (Some WFLOAT) v = on_error ValueError (rbind (py_float v) (\<lambda>f. Inr (FloatV f)))"
| "validate_value_type (Some WSTR) v = on_error ValueError (Inr (StrV (py_str v)))"
| "validate_value_type (Some WBOOL) v = on_error ValueError (Inr (BoolV (py_bool v)))"

text \<open>
  The model: fields in the order of their declaration. A missing or invalid
  \<open>which_primitive\<close> fails the model whatever the other validator returns.
\<close>

definition primitive_data_of :: "which_primitive \<Rightarrow> prim \<Rightarrow> primitive_data res" where
  "primitive_data_of w v =
     rbind (on_error ValidationError (validate_value_type (Some w) v)) (\<lambda>v'.
       Inr \<lparr>pd_which = w, pd_value = v'\<rparr>)"

definition validate_primitive_data :: "pydantic \<Rightarrow> pyval \<Rightarrow> primitive_data res" where
  "validate_primitive_data P v =
     rbind (model_dict v) (\<lambda>d.
     rbind (field d (u ''which_primitive'') which_primitive_of) (\<lambda>w.
     rbind (field d (u ''value'') (pd_prim P)) (\<lambda>x. primitive_data_of w x)))"

definition primitive_from_value :: "pydantic \<Rightarrow> pyval \<Rightarrow> primitive_data res" where
  "primitive_from_value P v =
     rbind (which_from_value v) (\<lambda>w. validate_primitive_data P
       (PDict [(u ''which_primitive'', PStr (which_primitive_str w)), (u ''value'', v)]))"

definition primitive_py :: "primitive_data \<Rightarrow> pyval" where
  "primitive_py p = PDict
     [(u ''which_primitive'', PStr (which_primitive_str (pd_which p))), (u ''value'', prim_py (pd_value p))]"

subsection \<open>Files\<close>

record file_data =
  filename :: pystr
  file_bytes :: "byte list"

definition serialize_data :: "byte list \<Rightarrow> pystr res" where
  "serialize_data bs = utf8_decode (b64encode bs)"

fun validate_data :: "pyval \<Rightarrow> byte list res" where
  "validate_data (PStr s) = rbind (utf8_encode s) b64decode"
| "validate_data (PBytes bs) = Inr bs"
| "validate_data (PBytearray bs) = Inr bs"
| "validate_data _ = Inl ValueError"

definition validate_file_data :: "pydantic \<Rightarrow> pyval \<Rightarrow> file_data res" where
  "validate_file_data P v =
     rbind (model_dict v) (\<lambda>d.
     rbind (field d (u ''filename'') (pd_str P)) (\<lambda>n.
     rbind (field d (u ''data'') (\<lambda>x. some_ok (validate_data x))) (\<lambda>bs.
       Inr \<lparr>filename = n, file_bytes = bs\<rparr>)))"

definition file_py :: "file_data \<Rightarrow> pyval res" where
  "file_py f = rbind (serialize_data (file_bytes f)) (\<lambda>t.
     Inr (PDict [(u ''filename'', PStr (filename f)), (u ''data'', PStr t)]))"

text \<open>\<open>os.path.basename\<close>: what follows the last slash.\<close>

definition basename :: "pystr \<Rightarrow> pystr" where
  "basename p = last (split_on 47 p)"

text \<open>
  \<open>os.path.splitext\<close> returns a pair, so the code always takes its second branch, and the
  extension it computes there is not used. Reading the file is the parameter \<open>read\<close>.
\<close>

definition file_from_path :: "pydantic \<Rightarrow> (pystr \<Rightarrow> byte list res) \<Rightarrow> pystr \<Rightarrow> file_data res" where
  "file_from_path P read p =
     rbind (read p) (\<lambda>bs. validate_file_data P
       (PDict [(u ''filename'', PStr (basename p)), (u ''data'', PBytes bs)]))"

subsection \<open>Samples\<close>

datatype which_data_type = PRIMITIVE | FILE

fun which_data_str :: "which_data_type \<Rightarrow> pystr" where
  "which_data_str PRIMITIVE = u ''primitive''"
| "which_data_str FILE = u ''file''"

definition which_data_of :: "pyval \<Rightarrow> which_data_type option" where
  "which_data_of v =
     (case v of PStr s \<Rightarrow> if s = u ''primitive'' then Some PRIMITIVE else if s = u ''file'' then Some FILE else None
      | _ \<Rightarrow> None)"

record sample_metadata =
  metric_id :: pystr
  timestamp :: pynum
  which_data_type :: which_data_type

datatype sample_data = is_Prim: Prim primitive_data | is_File: File file_data

text \<open>The class of a sample object: \<open>Sample\<close> or one of its two subclasses.\<close>

datatype sample_class = Sample | FileSample | PrimitiveSample

record sample =
  sample_class :: sample_class
  metadata :: sample_metadata
  sample_data :: sample_data

definition validate_metadata :: "pydantic \<Rightarrow> pyval \<Rightarrow> sample_metadata res" where
  "validate_metadata P v =
     rbind (model_dict v) (\<lambda>d.
     rbind (field d (u ''metric_id'') (pd_str P)) (\<lambda>m.
     rbind (field d (u ''timestamp'') (pd_num P)) (\<lambda>t.
     rbind (field d (u ''which_data_type'') which_data_of) (\<lambda>w.
       Inr \<lparr>metric_id = m, timestamp = t, which_data_type = w\<rparr>))))"

text \<open>The validator of the field \<open>data\<close>, given the validated metadata if there is any.\<close>

definition validate_data_type :: "sample_metadata option \<Rightarrow> sample_data \<Rightarrow> sample_data res" where
  "validate_data_type md v =
     (case md of None \<Rightarrow> Inr v
      | Some m \<Rightarrow>
        if which_data_type m = PRIMITIVE \<and> \<not> is_Prim v then Inl ValueError
        else if which_data_type m = FILE \<and> \<not> is_File v then Inl ValueError
        else Inr v)"

definition sample_of :: "sample_class \<Rightarrow> sample_metadata \<Rightarrow> sample_data \<Rightarrow> sample res" where
  "sample_of c md v =
     rbind (on_error ValidationError (validate_data_type (Some md) v)) (\<lambda>v'.
       Inr \<lparr>sample_class = c, metadata = md, sample_data = v'\<rparr>)"

text \<open>The declared type of \<open>data\<close>: a union in \<open>Sample\<close>, one class in each subclass.\<close>

definition validate_union :: "pydantic \<Rightarrow> pyval \<Rightarrow> sample_data option" where
  "validate_union P v =
     (case (some_ok (validate_primitive_data P v), some_ok (validate_file_data P v)) of
        (Some p, None) \<Rightarrow> Some (Prim p)
      | (None, Some f) \<Rightarrow> Some (File f)
      | (Some p, Some f) \<Rightarrow> Some (if pd_first P v then Prim p else File f)
      | (None, None) \<Rightarrow> None)"

definition validate_field_data :: "pydantic \<Rightarrow> sample_class \<Rightarrow> pyval \<Rightarrow> sample_data option" where
  "validate_field_data P c v =
     (case c of Sample \<Rightarrow> validate_union P v
      | FileSample \<Rightarrow> map_option File (some_ok (validate_file_data P v))
      | PrimitiveSample \<Rightarrow> map_option Prim (some_ok (validate_primitive_data P v)))"

definition validate_sample :: "pydantic \<Rightarrow> sample_class \<Rightarrow> pyval \<Rightarrow> sample res" where
  "validate_sample P c v =
     rbind (model_dict v) (\<lambda>d.
     rbind (field d (u ''metadata'') (\<lambda>x. some_ok (validate_metadata P x))) (\<lambda>md.
     rbind (field d (u ''data'') (validate_field_data P c)) (\<lambda>x. sample_of c md x)))"

definition metadata_py :: "sample_metadata \<Rightarrow> pyval" where
  "metadata_py m = PDict
     [(u ''metric_id'', PStr (metric_id m)), (u ''timestamp'', num_py (timestamp m)),
      (u ''which_data_type'', PStr (which_data_str (which_data_type m)))]"

fun data_py :: "sample_data \<Rightarrow> pyval res" where
  "data_py (Prim p) = Inr (primitive_py p)"
| "data_py (File f) = file_py f"

definition sample_py :: "sample \<Rightarrow> pyval res" where
  "sample_py s = rbind (data_py (sample_data s)) (\<lambda>d.
     Inr (PDict [(u ''metadata'', metadata_py (metadata s)), (u ''data'', d)]))"

text \<open>\<open>model_dump_json\<close> and \<open>model_validate_json\<close> of \<open>Sample\<close>.\<close>

definition sample_dump_json :: "pydantic \<Rightarrow> sample \<Rightarrow> pystr res" where
  "sample_dump_json P s = rbind (sample_py s) (pd_write P)"

definition sample_validate_json :: "pydantic \<Rightarrow> pystr \<Rightarrow> sample res" where
  "sample_validate_json P t =
     on_error ValidationError (rbind (pd_parse P t) (validate_sample P Sample))"

subsection \<open>What validation guarantees\<close>

text \<open>The kind of a value, and the invariant of validated samples.\<close>

fun kind :: "prim \<Rightarrow> which_primitive" where
  "kind (IntV _) = WINT"
| "kind (FloatV _) = WFLOAT"
| "kind (StrV _) = WSTR"
| "kind (BoolV _) = WBOOL"

definition primitive_ok :: "primitive_data \<Rightarrow> bool" where
  "primitive_ok p \<longleftrightarrow> kind (pd_value p) = pd_which p"

definition sample_ok :: "sample \<Rightarrow> bool" where
  "sample_ok s \<longleftrightarrow>
     (case sample_data s of
        Prim p \<Rightarrow> which_data_type (metadata s) = PRIMITIVE \<and> primitive_ok p \<and> sample_class s \<noteq> FileSample
      | File f \<Rightarrow> which_data_type (metadata s) = FILE \<and> sample_class s \<noteq> PrimitiveSample)"

lemma which_from_prim [simp]: "which_from_value (prim_py v) = Inr (kind v)"
  by (cases v) (simp_all add: which_from_value_def isinstance_bool_def isinstance_int_def
      isinstance_float_def isinstance_str_def)

lemma which_primitive_of_str [simp]: "which_primitive_of (PStr (which_primitive_str w)) = Some w"
  by (cases w) (simp_all add: which_primitive_of_def)

lemma which_data_of_str [simp]: "which_data_of (PStr (which_data_str w)) = Some w"
  by (cases w) (simp_all add: which_data_of_def)

lemma coerce_kind: "validate_value_type (Some w) v = Inr v' \<Longrightarrow> kind v' = w"
  by (cases w) (auto simp: res_simps)

lemma coerce_same [simp]: "validate_value_type (Some (kind v)) v = Inr v"
  by (cases v) simp_all

lemma primitive_data_of_ok: "primitive_data_of w v = Inr p \<Longrightarrow> primitive_ok p \<and> pd_which p = w"
  by (auto simp: primitive_data_of_def primitive_ok_def res_simps dest: coerce_kind)

lemma primitive_data_of_same [simp]: "primitive_data_of (kind v) v = Inr \<lparr>pd_which = kind v, pd_value = v\<rparr>"
  by (simp add: primitive_data_of_def)

lemma validate_primitive_ok: "validate_primitive_data P v = Inr p \<Longrightarrow> primitive_ok p"
  by (auto simp: validate_primitive_data_def res_simps dest: primitive_data_of_ok)

lemma validate_field_data_ok:
  "validate_field_data P c v = Some x \<Longrightarrow>
    (\<forall>p. x = Prim p \<longrightarrow> primitive_ok p \<and> c \<noteq> FileSample) \<and> (\<forall>f. x = File f \<longrightarrow> c \<noteq> PrimitiveSample)"
  by (cases c) (auto simp: validate_field_data_def validate_union_def res_simps
      dest: validate_primitive_ok split: option.splits if_splits)

lemma sample_of_Inr: "sample_of c md x = Inr s \<longleftrightarrow>
    (which_data_type md = PRIMITIVE \<longleftrightarrow> is_Prim x) \<and>
    s = \<lparr>sample_class = c, metadata = md, sample_data = x\<rparr>"
  by (cases x; cases "which_data_type md") (auto simp: sample_of_def validate_data_type_def)

lemma validate_sample_ok:
  "validate_sample P c v = Inr s \<Longrightarrow> sample_ok s \<and> sample_class s = c"
  by (cases "sample_data s"; cases "which_data_type (metadata s)")
    (auto simp: validate_sample_def sample_of_Inr sample_ok_def res_simps dest!: validate_field_data_ok)

lemma sample_validate_json_ok:
  "sample_validate_json P t = Inr s \<Longrightarrow> sample_ok s \<and> sample_class s = Sample"
  by (auto simp: sample_validate_json_def res_simps dest: validate_sample_ok)

subsection \<open>Dump and read back\<close>

lemma serialize_data_eq [simp]: "serialize_data bs = Inr (b64_str bs)"
  by (simp add: serialize_data_def b64_str_encode)

lemma utf8_encode_b64 [simp]: "utf8_encode (b64_str bs) = Inr (b64encode bs)"
  using utf8_encode_ascii [OF b64_str_ascii] by (simp add: b64_str_def b64encode_def)

lemma validate_data_b64 [simp]: "validate_data (PStr (b64_str bs)) = Inr bs"
  by (simp add: b64decode_encode)

definition sample_sendable :: "(pyval \<Rightarrow> bool) \<Rightarrow> sample \<Rightarrow> bool" where
  "sample_sendable ok s \<longleftrightarrow> sample_ok s \<and> (case sample_py s of Inl _ \<Rightarrow> False | Inr v \<Rightarrow> ok v)"

context pydantic_api
begin

lemma primitive_back [simp]: "primitive_ok p \<Longrightarrow> validate_primitive_data P (primitive_py p) = Inr p"
  using primitive_data_of_same [of "pd_value p"]
  by (auto simp: validate_primitive_data_def primitive_py_def field_def primitive_ok_def prim_exact)

lemma file_back: "file_py f = Inr v \<Longrightarrow> validate_file_data P v = Inr f"
  using validate_data_b64 [of "file_bytes f"]
  by (auto simp: validate_file_data_def file_py_def field_def str_exact some_ok_def simp del: validate_data.simps)

lemma file_primitive: "file_py f = Inr v \<Longrightarrow> some_ok (validate_primitive_data P v) = None"
  by (auto simp: validate_primitive_data_def file_py_def field_def some_ok_def)

lemma primitive_file: "some_ok (validate_file_data P (primitive_py p)) = None"
  by (simp add: validate_file_data_def primitive_py_def field_def some_ok_def)

lemma metadata_back [simp]: "validate_metadata P (metadata_py m) = Inr m"
  by (simp add: validate_metadata_def metadata_py_def field_def str_exact num_exact)

lemma data_back:
  "data_py x = Inr v \<Longrightarrow> (\<And>p. x = Prim p \<Longrightarrow> primitive_ok p) \<Longrightarrow> validate_field_data P Sample v = Some x"
  by (cases x) (auto simp: validate_field_data_def validate_union_def primitive_file file_primitive file_back)

lemma sample_back:
  assumes "sample_ok s" "sample_py s = Inr v"
  shows "validate_sample P Sample v = Inr (s\<lparr>sample_class := Sample\<rparr>)"
proof -
  from assms(2) obtain d where d: "data_py (sample_data s) = Inr d"
      "v = PDict [(u ''metadata'', metadata_py (metadata s)), (u ''data'', d)]"
    by (auto simp: sample_py_def res_simps)
  from assms(1) have "which_data_type (metadata s) = PRIMITIVE \<longleftrightarrow> is_Prim (sample_data s)"
    and "\<And>p. sample_data s = Prim p \<Longrightarrow> primitive_ok p"
    by (auto simp: sample_ok_def split: sample_data.splits)
  with data_back [OF d(1)] show ?thesis
    by (simp add: d(2) validate_sample_def field_def sample_of_Inr)
qed

lemma sample_round:
  assumes "sample_sendable ok s"
  shows "rbind (sample_dump_json P s) (sample_validate_json P) = Inr (s\<lparr>sample_class := Sample\<rparr>)"
proof -
  from assms obtain v where v: "sample_ok s" "sample_py s = Inr v" "ok v"
    by (auto simp: sample_sendable_def split: sum.splits)
  with docs.enc_succeeds obtain t where "pd_write P v = Inr t" "pd_parse P t = Inr v" by blast
  with v show ?thesis by (simp add: sample_dump_json_def sample_validate_json_def sample_back)
qed

end

sublocale pydantic_api \<subseteq> samples: codec "sample_dump_json P" "sample_validate_json P"
    "\<lambda>s. sample_sendable ok s \<and> sample_class s = Sample"
  by unfold_locales (simp add: sample_round)

subsection \<open>Properties\<close>

lemma last_split:
  "47 \<notin> set (last (split_on 47 p)) \<and>
    (\<exists>d. p = d @ last (split_on 47 p) \<and> (d = [] \<or> last d = 47))"
proof (induction p)
  case (Cons x p)
  then obtain d where d: "47 \<notin> set (last (split_on 47 p))" "p = d @ last (split_on 47 p)" "d = [] \<or> last d = 47"
    by blast
  show ?case
  proof (cases "x = 47")
    case True
    then show ?thesis using d by (intro conjI exI [of _ "x # d"]) auto
  next
    case False
    obtain w ws where s: "split_on 47 p = w # ws" by (cases "split_on 47 p") auto
    show ?thesis
    proof (cases ws)
      case Nil
      then have "w = p" "47 \<notin> set p" using s split_on_singleD [of 47 p w] by auto
      then show ?thesis using False s Nil by (auto intro: exI [of _ "[]"])
    next
      case (Cons v vs)
      then have "d \<noteq> []" using d s split_on_none [of 47 p] by (auto simp del: split_on.simps)
      then show ?thesis using False s Cons d by (intro conjI exI [of _ "x # d"]) auto
    qed
  qed
qed simp

lemma not_prim_py: "v \<notin> range prim_py \<Longrightarrow> which_from_value v = Inl ValueError"
proof (cases v)
  case (PBool b)
  then have "v = prim_py (BoolV b)" by simp
  then show "v \<notin> range prim_py \<Longrightarrow> ?thesis" by blast
next
  case (PInt i)
  then have "v = prim_py (IntV i)" by simp
  then show "v \<notin> range prim_py \<Longrightarrow> ?thesis" by blast
next
  case (PFloat f)
  then have "v = prim_py (FloatV f)" by simp
  then show "v \<notin> range prim_py \<Longrightarrow> ?thesis" by blast
next
  case (PStr s)
  then have "v = prim_py (StrV s)" by simp
  then show "v \<notin> range prim_py \<Longrightarrow> ?thesis" by blast
qed (simp_all add: which_from_value_def isinstance_bool_def isinstance_int_def isinstance_float_def isinstance_str_def)

context pydantic_api
begin

lemma from_value_back:
  "primitive_from_value P (prim_py v) = Inr \<lparr>pd_which = kind v, pd_value = v\<rparr>"
  by (simp add: primitive_from_value_def validate_primitive_data_def field_def prim_exact)

end

definition cpu_sample :: sample where
  "cpu_sample = \<lparr>sample_class = PrimitiveSample,
     metadata = \<lparr>metric_id = u ''cpu'', timestamp = NumI 7, which_data_type = PRIMITIVE\<rparr>,
     sample_data = Prim \<lparr>pd_which = WBOOL, pd_value = BoolV True\<rparr>\<rparr>"

lemma cpu_sendable: "sample_sendable json_ok cpu_sample"
  by (simp add: sample_sendable_def sample_ok_def primitive_ok_def cpu_sample_def sample_py_def metadata_py_def
      primitive_py_def scalar_def dict_ok_def)

text \<open>C11: Every consistent sample, primitive or file, is dumped to JSON and read back with the same
  metadata and the same data; only its class is forgotten: a \<open>FileSample\<close> or \<open>PrimitiveSample\<close>
  comes back as a plain \<open>Sample\<close>.\<close>

theorem sample_json_roundtrip:
  assumes "pydantic_api P ok" "sample_sendable ok s"
  shows "\<exists>t. sample_dump_json P s = Inr t \<and> sample_validate_json P t = Inr (s\<lparr>sample_class := Sample\<rparr>)"
  using pydantic_api.sample_round [OF assms] by (auto simp: res_simps)

theorem sample_json_roundtrip_witness:
  "\<exists>t. sample_dump_json strict_pydantic cpu_sample = Inr t \<and>
    sample_validate_json strict_pydantic t = Inr (cpu_sample\<lparr>sample_class := Sample\<rparr>)"
  by (rule sample_json_roundtrip [OF strict.pydantic_api_axioms cpu_sendable])

text \<open>C32: Whatever document validation accepts, the sample it builds has class \<open>Sample\<close>, the tag in its
  metadata names the kind of its data, and a primitive value has the type its own tag names.\<close>

theorem sample_validated_ok:
  assumes "sample_validate_json P t = Inr s"
  shows "sample_class s = Sample \<and>
    (which_data_type (metadata s) = PRIMITIVE \<longleftrightarrow> (\<exists>p. sample_data s = Prim p \<and> kind (pd_value p) = pd_which p)) \<and>
    (which_data_type (metadata s) = FILE \<longleftrightarrow> is_File (sample_data s))"
  using sample_validate_json_ok [OF assms] by (cases "sample_data s") (auto simp: sample_ok_def primitive_ok_def)

theorem sample_validated_ok_witness:
  "\<exists>t s. sample_validate_json strict_pydantic t = Inr s \<and> is_Prim (sample_data s) \<and> sample_class s = Sample"
proof -
  obtain t where "sample_validate_json strict_pydantic t = Inr (cpu_sample\<lparr>sample_class := Sample\<rparr>)"
    using strict.sample_round [OF cpu_sendable] by (auto simp: res_simps)
  from this sample_validated_ok [OF this] show ?thesis
    by (intro exI) (auto simp: cpu_sample_def)
qed

text \<open>\<open>PrimitiveData.from_value\<close> keeps every integer, float, string and boolean unchanged and tags
  it with its own type (a boolean is not taken for an integer); any other value raises.\<close>

theorem primitive_from_value_kind:
  assumes "pydantic_api P ok"
  shows "primitive_from_value P (prim_py v) = Inr \<lparr>pd_which = kind v, pd_value = v\<rparr> \<and>
    (w \<notin> range prim_py \<longrightarrow> primitive_from_value P w = Inl ValueError)"
  using pydantic_api.from_value_back [OF assms] by (auto simp: primitive_from_value_def not_prim_py)

theorem primitive_from_value_kind_witness:
  "primitive_from_value strict_pydantic (PBool True) = Inr \<lparr>pd_which = WBOOL, pd_value = BoolV True\<rparr> \<and>
    primitive_from_value strict_pydantic PNone = Inl ValueError"
proof -
  have "PNone \<noteq> prim_py v" for v by (cases v) simp_all
  then have "PNone \<notin> range prim_py" by blast
  then show ?thesis
    using primitive_from_value_kind [OF strict.pydantic_api_axioms, of "BoolV True" PNone] by simp
qed

text \<open>A file read from disk is stored under the part of its path after the last slash, with exactly
  the bytes that were read.\<close>

theorem file_from_path_name:
  assumes "pydantic_api P ok" "read p = Inr bs"
  shows "\<exists>f d. file_from_path P read p = Inr f \<and> file_bytes f = bs \<and> 47 \<notin> set (filename f) \<and>
    p = d @ filename f \<and> (d = [] \<or> last d = 47)"
proof -
  have "file_from_path P read p = Inr \<lparr>filename = basename p, file_bytes = bs\<rparr>"
    by (simp add: file_from_path_def assms(2) validate_file_data_def field_def pydantic_api.str_exact [OF assms(1)])
  with last_split [of p] show ?thesis by (auto simp: basename_def)
qed

theorem file_from_path_name_witness:
  "\<exists>f d. file_from_path strict_pydantic (\<lambda>_. Inr [1, 2]) (u ''/tmp/a.png'') = Inr f \<and> file_bytes f = [1, 2] \<and>
    47 \<notin> set (filename f) \<and> u ''/tmp/a.png'' = d @ filename f \<and> (d = [] \<or> last d = 47)"
  by (rule file_from_path_name [OF strict.pydantic_api_axioms]) simp

end
