(* ===== verification/CodecTelecommand.thy ===== *)
theory CodecTelecommand
  imports CodecSample
begin

section \<open>Commands: codec/src/bvex_codec/telecommand.py\<close>

text \<open>
  The commands the ground sends to the payload computer, the tagged envelope that carries
  them, the validator that turns the untagged \<open>data\<close> of the envelope into a command, and the
  JSON form of the envelope.
\<close>

subsection \<open>The commands and their envelope\<close>

datatype command =
    Subscribe (sub_metric_id: pystr) (sub_bps: int)
  | GetMetricIds
  | Cancel
  | End

datatype which_command = W_SUBSCRIBE | W_GET_METRIC_IDS | W_CANCEL | W_END

fun which_command_str :: "which_command \<Rightarrow> pystr" where
  "which_command_str W_SUBSCRIBE = u ''subscribe''"
| "which_command_str W_GET_METRIC_IDS = u ''get_metric_ids''"
| "which_command_str W_CANCEL = u ''cancel''"
| "which_command_str W_END = u ''end''"

definition which_command_of :: "pyval \<Rightarrow> which_command option" where
  "which_command_of v =
     (case v of PStr s \<Rightarrow>
        if s = u ''subscribe'' then Some W_SUBSCRIBE
        else if s = u ''get_metric_ids'' then Some W_GET_METRIC_IDS
        else if s = u ''cancel'' then Some W_CANCEL
        else if s = u ''end'' then Some W_END else None
      | _ \<Rightarrow> None)"

text \<open>What the validator may be handed: a command object, or any other Python value.\<close>

datatype 'c handed = Obj 'c | Val pyval

record telecommand =
  which_command :: which_command
  tc_data :: command

subsection \<open>Validation\<close>

definition subscribe_validate :: "pydantic \<Rightarrow> pyval \<Rightarrow> command res" where
  "subscribe_validate P v =
     rbind (model_dict v) (\<lambda>d.
     rbind (field d (u ''metric_id'') (pd_str P)) (\<lambda>m.
     rbind (field d (u ''bps'') (pd_int P)) (\<lambda>b. Inr (Subscribe m b))))"

text \<open>The classes without fields accept every dictionary.\<close>

definition empty_validate :: "command \<Rightarrow> pyval \<Rightarrow> command res" where
  "empty_validate c v = rbind (model_dict v) (\<lambda>d. Inr c)"

text \<open>
  The validator \<open>is_data_valid\<close>. Only two of the four command classes pass the first test; the
  objects of the other two are no dictionaries.
\<close>

definition tc_is_data_valid :: "pydantic \<Rightarrow> which_command option \<Rightarrow> command handed \<Rightarrow> command res" where
  "tc_is_data_valid P which d =
     (case d of
        Obj (Subscribe m b) \<Rightarrow> Inr (Subscribe m b)
      | Obj GetMetricIds \<Rightarrow> Inr GetMetricIds
      | Obj _ \<Rightarrow> Inl ValueError
      | Val v \<Rightarrow>
        (case v of
           PDict _ \<Rightarrow>
             (case which of
                None \<Rightarrow> Inl ValueError
              | Some W_SUBSCRIBE \<Rightarrow> on_error ValueError (subscribe_validate P v)
              | Some W_GET_METRIC_IDS \<Rightarrow> on_error ValueError (empty_validate GetMetricIds v)
              | Some W_CANCEL \<Rightarrow> on_error ValueError (empty_validate Cancel v)
              | Some W_END \<Rightarrow> on_error ValueError (empty_validate End v))
         | _ \<Rightarrow> Inl ValueError))"

definition telecommand_of :: "pydantic \<Rightarrow> which_command \<Rightarrow> command handed \<Rightarrow> telecommand res" where
  "telecommand_of P w d =
     on_error ValidationError (rbind (tc_is_data_valid P (Some w) d) (\<lambda>c.
       Inr \<lparr>which_command = w, tc_data = c\<rparr>))"

definition telecommand_validate :: "pydantic \<Rightarrow> pyval \<Rightarrow> telecommand res" where
  "telecommand_validate P v =
     rbind (model_dict v) (\<lambda>d.
     rbind (field d (u ''which_command'') which_command_of) (\<lambda>w.
       (case map_of d (u ''data'') of None \<Rightarrow> Inl ValidationError
        | Some x \<Rightarrow> telecommand_of P w (Val x))))"

definition from_command :: "pydantic \<Rightarrow> command handed \<Rightarrow> telecommand res" where
  "from_command P c =
     (case c of
        Obj (Subscribe _ _) \<Rightarrow> telecommand_of P W_SUBSCRIBE c
      | Obj GetMetricIds \<Rightarrow> telecommand_of P W_GET_METRIC_IDS c
      | Obj Cancel \<Rightarrow> telecommand_of P W_CANCEL c
      | Obj End \<Rightarrow> telecommand_of P W_END c
      | Val _ \<Rightarrow> Inl ValueError)"

subsection \<open>JSON\<close>

fun command_py :: "command \<Rightarrow> pyval" where
  "command_py (Subscribe m b) = PDict [(u ''metric_id'', PStr m), (u ''bps'', PInt b)]"
| "command_py _ = PDict []"

definition telecommand_py :: "telecommand \<Rightarrow> pyval" where
  "telecommand_py t = PDict
     [(u ''which_command'', PStr (which_command_str (which_command t))), (u ''data'', command_py (tc_data t))]"

definition telecommand_dump_json :: "pydantic \<Rightarrow> telecommand \<Rightarrow> pystr res" where
  "telecommand_dump_json P t = pd_write P (telecommand_py t)"

definition telecommand_validate_json :: "pydantic \<Rightarrow> pystr \<Rightarrow> telecommand res" where
  "telecommand_validate_json P s =
     on_error ValidationError (rbind (pd_parse P s) (telecommand_validate P))"

subsection \<open>Lemmas\<close>

text \<open>The tag of a command, and the invariant of a command read from the wire.\<close>

fun tag :: "command \<Rightarrow> which_command" where
  "tag (Subscribe _ _) = W_SUBSCRIBE"
| "tag GetMetricIds = W_GET_METRIC_IDS"
| "tag Cancel = W_CANCEL"
| "tag End = W_END"

definition tc_ok :: "telecommand \<Rightarrow> bool" where
  "tc_ok t \<longleftrightarrow> which_command t = tag (tc_data t)"

definition tc_sendable :: "(pyval \<Rightarrow> bool) \<Rightarrow> telecommand \<Rightarrow> bool" where
  "tc_sendable ok t \<longleftrightarrow> tc_ok t \<and> ok (telecommand_py t)"

lemma which_command_of_str [simp]: "which_command_of (PStr (which_command_str w)) = Some w"
  by (cases w) (simp_all add: which_command_of_def)

lemma tc_valid_tag: "tc_is_data_valid P (Some w) (Val v) = Inr c \<Longrightarrow> tag c = w"
  by (auto simp: tc_is_data_valid_def subscribe_validate_def empty_validate_def res_simps
      split: pyval.splits which_command.splits)

lemma telecommand_validate_ok: "telecommand_validate P v = Inr t \<Longrightarrow> tc_ok t"
  by (auto simp: telecommand_validate_def telecommand_of_def tc_ok_def res_simps dest: tc_valid_tag)

lemma telecommand_validate_json_ok: "telecommand_validate_json P s = Inr t \<Longrightarrow> tc_ok t"
  by (auto simp: telecommand_validate_json_def res_simps dest: telecommand_validate_ok)

lemma from_command_eq: "from_command P (Obj c) =
   (if c = Cancel \<or> c = End then Inl ValidationError
    else Inr \<lparr>which_command = tag c, tc_data = c\<rparr>)"
  by (cases c) (simp_all add: from_command_def telecommand_of_def tc_is_data_valid_def)

lemma from_command_Inr [res_simps]: "from_command P (Obj c) = Inr t \<longleftrightarrow>
    c \<noteq> Cancel \<and> c \<noteq> End \<and> t = \<lparr>which_command = tag c, tc_data = c\<rparr>"
  by (auto simp: from_command_eq)

context pydantic_api
begin

lemma command_back: "tc_is_data_valid P (Some (tag c)) (Val (command_py c)) = Inr c"
  by (cases c) (simp_all add: tc_is_data_valid_def subscribe_validate_def empty_validate_def field_def
      str_exact int_exact)

lemma telecommand_back: "tc_ok t \<Longrightarrow> telecommand_validate P (telecommand_py t) = Inr t"
  by (cases t) (simp add: telecommand_validate_def telecommand_py_def telecommand_of_def field_def
      tc_ok_def command_back)

lemma telecommand_round: "tc_sendable ok t \<Longrightarrow>
    rbind (telecommand_dump_json P t) (telecommand_validate_json P) = Inr t"
  using docs.enc_succeeds [of "telecommand_py t"]
  by (auto simp: tc_sendable_def telecommand_dump_json_def telecommand_validate_json_def telecommand_back)

end

sublocale pydantic_api \<subseteq> commands: codec "telecommand_dump_json P" "telecommand_validate_json P" "tc_sendable ok"
  by unfold_locales (rule telecommand_round)

subsection \<open>Properties\<close>

lemma demo_tc_sendable: "tc_sendable json_ok \<lparr>which_command = W_SUBSCRIBE, tc_data = Subscribe (u ''cpu'') 1000\<rparr>"
  by (simp add: tc_sendable_def tc_ok_def telecommand_py_def scalar_def dict_ok_def)

text \<open>C33: A well-tagged command of any of the four classes survives the JSON round trip of its envelope.\<close>

theorem telecommand_roundtrip:
  assumes "pydantic_api P ok" "tc_sendable ok t"
  shows "\<exists>s. telecommand_dump_json P t = Inr s \<and> telecommand_validate_json P s = Inr t"
  using pydantic_api.telecommand_round [OF assms] by (auto simp: res_simps)

theorem telecommand_roundtrip_witness:
  "\<exists>s. telecommand_dump_json strict_pydantic \<lparr>which_command = W_SUBSCRIBE, tc_data = Subscribe (u ''cpu'') 1000\<rparr> = Inr s \<and>
    telecommand_validate_json strict_pydantic s =
      Inr \<lparr>which_command = W_SUBSCRIBE, tc_data = Subscribe (u ''cpu'') 1000\<rparr>"
  by (rule telecommand_roundtrip [OF strict.pydantic_api_axioms demo_tc_sendable])

text \<open>A command that was read from the wire is of the class its tag names, whatever the document.\<close>

theorem telecommand_validated_tag:
  assumes "telecommand_validate_json P s = Inr t"
  shows "which_command t = tag (tc_data t)"
  using telecommand_validate_json_ok [OF assms] by (simp add: tc_ok_def)

theorem telecommand_validated_tag_witness:
  "\<exists>s t. telecommand_validate_json strict_pydantic s = Inr t \<and> which_command t = tag (tc_data t)"
proof -
  obtain s where "telecommand_validate_json strict_pydantic s =
      Inr \<lparr>which_command = W_SUBSCRIBE, tc_data = Subscribe (u ''cpu'') 1000\<rparr>"
    using strict.telecommand_round [OF demo_tc_sendable] by (auto simp: res_simps)
  with telecommand_validated_tag [OF this] show ?thesis by blast
qed

text \<open>\<open>Telecommand.from_command\<close> wraps \<open>Subscribe\<close> and \<open>GetMetricIds\<close> with their tag, but raises on
  \<open>Cancel\<close> and \<open>End\<close>, although the same commands are accepted when they are read from JSON.\<close>

theorem from_command_partial:
  "(from_command P (Obj c) = Inr \<lparr>which_command = tag c, tc_data = c\<rparr> \<longleftrightarrow> c \<noteq> Cancel \<and> c \<noteq> End) \<and>
   from_command P (Obj Cancel) = Inl ValidationError \<and> from_command P (Obj End) = Inl ValidationError \<and>
   telecommand_validate P (telecommand_py \<lparr>which_command = W_CANCEL, tc_data = Cancel\<rparr>) =
     Inr \<lparr>which_command = W_CANCEL, tc_data = Cancel\<rparr> \<and>
   telecommand_validate P (telecommand_py \<lparr>which_command = W_END, tc_data = End\<rparr>) =
     Inr \<lparr>which_command = W_END, tc_data = End\<rparr>"
  by (auto simp: from_command_eq telecommand_validate_def telecommand_py_def field_def telecommand_of_def
      tc_is_data_valid_def empty_validate_def which_command_of_def)

end
