(* ===== verification/CodecTelemetry.thy ===== *)
theory CodecTelemetry
  imports CodecTelecommand
begin

section \<open>Telemetry messages: codec/src/bvex_codec/telemetry.py\<close>

text \<open>
  What the payload computer answers with: a sample or the list of metric ids, in a tagged
  envelope of the same form as the commands'.
\<close>

datatype tm_message = is_SampleMsg: SampleMsg sample | MetricIdsMsg "pystr list"

datatype which_tm = T_METRIC_IDS | T_SAMPLE

fun which_tm_str :: "which_tm \<Rightarrow> pystr" where
  "which_tm_str T_METRIC_IDS = u ''metric_ids''"
| "which_tm_str T_SAMPLE = u ''sample''"

definition which_tm_of :: "pyval \<Rightarrow> which_tm option" where
  "which_tm_of v =
     (case v of PStr s \<Rightarrow> if s = u ''metric_ids'' then Some T_METRIC_IDS
        else if s = u ''sample'' then Some T_SAMPLE else None
      | _ \<Rightarrow> None)"

record telemetry =
  which_type :: which_tm
  tm_data :: tm_message

definition str_list :: "pydantic \<Rightarrow> pyval \<Rightarrow> pystr list option" where
  "str_list P v =
     (case v of PList vs \<Rightarrow>
        some_ok (traverse (\<lambda>x. case pd_str P x of None \<Rightarrow> Inl ValidationError | Some s \<Rightarrow> Inr s) vs)
      | _ \<Rightarrow> None)"

definition metric_ids_validate :: "pydantic \<Rightarrow> pyval \<Rightarrow> tm_message res" where
  "metric_ids_validate P v =
     rbind (model_dict v) (\<lambda>d.
     rbind (field d (u ''metric_ids'') (str_list P)) (\<lambda>ids. Inr (MetricIdsMsg ids)))"

definition tm_is_data_valid :: "pydantic \<Rightarrow> which_tm option \<Rightarrow> tm_message handed \<Rightarrow> tm_message res" where
  "tm_is_data_valid P which d =
     (case d of
        Obj m \<Rightarrow> Inr m
      | Val v \<Rightarrow>
        (case v of
           PDict _ \<Rightarrow>
             (case which of
                None \<Rightarrow> Inl ValueError
              | Some T_METRIC_IDS \<Rightarrow> on_error ValueError (metric_ids_validate P v)
              | Some T_SAMPLE \<Rightarrow> on_error ValueError (rbind (validate_sample P Sample v) (\<lambda>s. Inr (SampleMsg s))))
         | _ \<Rightarrow> Inl ValueError))"

definition telemetry_of :: "pydantic \<Rightarrow> which_tm \<Rightarrow> tm_message handed \<Rightarrow> telemetry res" where
  "telemetry_of P w d =
     on_error ValidationError (rbind (tm_is_data_valid P (Some w) d) (\<lambda>m.
       Inr \<lparr>which_type = w, tm_data = m\<rparr>))"

definition telemetry_validate :: "pydantic \<Rightarrow> pyval \<Rightarrow> telemetry res" where
  "telemetry_validate P v =
     rbind (model_dict v) (\<lambda>d.
     rbind (field d (u ''which_type'') which_tm_of) (\<lambda>w.
       (case map_of d (u ''data'') of None \<Rightarrow> Inl ValidationError
        | Some x \<Rightarrow> telemetry_of P w (Val x))))"

definition from_telemetry :: "pydantic \<Rightarrow> tm_message handed \<Rightarrow> telemetry res" where
  "from_telemetry P m =
     (case m of
        Obj (MetricIdsMsg _) \<Rightarrow> telemetry_of P T_METRIC_IDS m
      | Obj (SampleMsg _) \<Rightarrow> telemetry_of P T_SAMPLE m
      | Val _ \<Rightarrow> Inl ValueError)"

fun tm_py :: "tm_message \<Rightarrow> pyval res" where
  "tm_py (SampleMsg s) = sample_py s"
| "tm_py (MetricIdsMsg ids) = Inr (PDict [(u ''metric_ids'', PList (map PStr ids))])"

definition telemetry_py :: "telemetry \<Rightarrow> pyval res" where
  "telemetry_py t = rbind (tm_py (tm_data t)) (\<lambda>d.
     Inr (PDict [(u ''which_type'', PStr (which_tm_str (which_type t))), (u ''data'', d)]))"

definition telemetry_dump_json :: "pydantic \<Rightarrow> telemetry \<Rightarrow> pystr res" where
  "telemetry_dump_json P t = rbind (telemetry_py t) (pd_write P)"

definition telemetry_validate_json :: "pydantic \<Rightarrow> pystr \<Rightarrow> telemetry res" where
  "telemetry_validate_json P s =
     on_error ValidationError (rbind (pd_parse P s) (telemetry_validate P))"

text \<open>What both clients do with the bytes they read: \<open>Telemetry.model_validate_json(data.decode())\<close>.\<close>

definition client_decode :: "pydantic \<Rightarrow> byte list \<Rightarrow> telemetry res" where
  "client_decode P bs = rbind (utf8_decode bs) (telemetry_validate_json P)"

subsection \<open>Lemmas\<close>

fun tm_tag :: "tm_message \<Rightarrow> which_tm" where
  "tm_tag (SampleMsg _) = T_SAMPLE"
| "tm_tag (MetricIdsMsg _) = T_METRIC_IDS"

text \<open>The invariant of a message from the wire: tag and data agree, a sample is consistent.\<close>

definition tm_ok :: "telemetry \<Rightarrow> bool" where
  "tm_ok t \<longleftrightarrow> which_type t = tm_tag (tm_data t) \<and>
     (\<forall>s. tm_data t = SampleMsg s \<longrightarrow> sample_ok s \<and> sample_class s = Sample)"

definition tm_sendable :: "(pyval \<Rightarrow> bool) \<Rightarrow> telemetry \<Rightarrow> bool" where
  "tm_sendable ok t \<longleftrightarrow> tm_ok t \<and> (case telemetry_py t of Inl _ \<Rightarrow> False | Inr v \<Rightarrow> ok v)"

lemma which_tm_of_str [simp]: "which_tm_of (PStr (which_tm_str w)) = Some w"
  by (cases w) (simp_all add: which_tm_of_def)

lemma tm_valid_ok: "tm_is_data_valid P (Some w) (Val v) = Inr m \<Longrightarrow>
    tm_tag m = w \<and> (\<forall>s. m = SampleMsg s \<longrightarrow> sample_ok s \<and> sample_class s = Sample)"
  by (auto simp: tm_is_data_valid_def metric_ids_validate_def res_simps
      split: pyval.splits which_tm.splits dest: validate_sample_ok)

lemma telemetry_validate_ok: "telemetry_validate P v = Inr t \<Longrightarrow> tm_ok t"
  by (auto simp: telemetry_validate_def telemetry_of_def tm_ok_def res_simps dest: tm_valid_ok)

lemma telemetry_validate_json_ok: "telemetry_validate_json P s = Inr t \<Longrightarrow> tm_ok t"
  by (auto simp: telemetry_validate_json_def res_simps dest: telemetry_validate_ok)

lemma from_telemetry_eq [simp]: "from_telemetry P (Obj m) = Inr \<lparr>which_type = tm_tag m, tm_data = m\<rparr>"
  by (cases m) (simp_all add: from_telemetry_def telemetry_of_def tm_is_data_valid_def)

context pydantic_api
begin

lemma str_list_back [simp]: "str_list P (PList (map PStr ids)) = Some ids"
  using traverse_Inr [of ids "\<lambda>s. Inr s" "\<lambda>s. s"] by (simp add: str_list_def traverse_map str_exact)

lemma tm_back:
  assumes "tm_py m = Inr v" "\<And>s. m = SampleMsg s \<Longrightarrow> sample_ok s \<and> sample_class s = Sample"
  shows "tm_is_data_valid P (Some (tm_tag m)) (Val v) = Inr m"
proof (cases m)
  case (SampleMsg s)
  with assms have "validate_sample P Sample v = Inr s" "sample_py s = Inr v"
    using sample_back [of s v] by simp_all
  then show ?thesis using SampleMsg by (auto simp: tm_is_data_valid_def sample_py_def res_simps)
next
  case (MetricIdsMsg ids)
  with assms show ?thesis
    by (auto simp: tm_is_data_valid_def metric_ids_validate_def field_def)
qed

lemma telemetry_back: "tm_ok t \<Longrightarrow> telemetry_py t = Inr v \<Longrightarrow> telemetry_validate P v = Inr t"
  by (cases t) (auto simp: telemetry_validate_def telemetry_py_def telemetry_of_def field_def
      tm_ok_def res_simps tm_back)

lemma telemetry_round:
  assumes "tm_sendable ok t"
  shows "rbind (telemetry_dump_json P t) (telemetry_validate_json P) = Inr t"
proof -
  from assms obtain v where v: "tm_ok t" "telemetry_py t = Inr v" "ok v"
    by (auto simp: tm_sendable_def split: sum.splits)
  with docs.enc_succeeds obtain s where "pd_write P v = Inr s" "pd_parse P s = Inr v" by blast
  with v show ?thesis by (simp add: telemetry_dump_json_def telemetry_validate_json_def telemetry_back)
qed

end

sublocale pydantic_api \<subseteq> messages: codec "telemetry_dump_json P" "telemetry_validate_json P" "tm_sendable ok"
  by unfold_locales (rule telemetry_round)

subsection \<open>Properties\<close>

lemma demo_tm_sendable: "tm_sendable json_ok \<lparr>which_type = T_SAMPLE, tm_data = SampleMsg (cpu_sample\<lparr>sample_class := Sample\<rparr>)\<rparr>"
  by (simp add: tm_sendable_def tm_ok_def telemetry_py_def sample_ok_def primitive_ok_def cpu_sample_def
      sample_py_def metadata_py_def primitive_py_def scalar_def dict_ok_def)

text \<open>C34: A telemetry message, a sample or a list of metric ids, survives the JSON round trip.\<close>

theorem telemetry_roundtrip:
  assumes "pydantic_api P ok" "tm_sendable ok t"
  shows "\<exists>s. telemetry_dump_json P t = Inr s \<and> telemetry_validate_json P s = Inr t"
  using pydantic_api.telemetry_round [OF assms] by (auto simp: res_simps)

theorem telemetry_roundtrip_witness:
  "\<exists>s. telemetry_dump_json strict_pydantic \<lparr>which_type = T_SAMPLE, tm_data = SampleMsg (cpu_sample\<lparr>sample_class := Sample\<rparr>)\<rparr> = Inr s \<and>
    telemetry_validate_json strict_pydantic s =
      Inr \<lparr>which_type = T_SAMPLE, tm_data = SampleMsg (cpu_sample\<lparr>sample_class := Sample\<rparr>)\<rparr>"
  by (rule telemetry_roundtrip [OF strict.pydantic_api_axioms demo_tm_sendable])

end
