(* ===== verification/CommandSubscriber.thy ===== *)
theory CommandSubscriber
  imports CodecTelemetry
begin

section \<open>Receiving samples: command/src/subscriber.py\<close>

text \<open>
  The coroutine \<open>subscribe\<close> of the ground station: it opens a connection, asks for a metric
  and hands every sample that arrives to a handler, until an exception ends it. Its inputs
  are what the network delivers. A read returns at most 4096 bytes of what has arrived and not been read, and the
  code takes every read for one message.
\<close>

record subscription =
  sent :: "byte list list"
  handled :: "sample list"
  naps :: nat                   \<comment> \<open>how often it slept because nothing was read\<close>
  unread :: "byte list"         \<comment> \<open>the buffer of the stream: what arrived and was not read\<close>

definition new_subscription :: subscription where
  "new_subscription = \<lparr>sent = [], handled = [], naps = 0, unread = []\<rparr>"

text \<open>
  \<open>read(n)\<close> of a stream with the buffer \<open>buf\<close>, when \<open>arr\<close> is what arrived since the read before it: an error of the
  connection, or bytes. With an empty buffer no bytes mean that the stream has ended.
\<close>

definition stream_read :: "nat \<Rightarrow> byte list res \<Rightarrow> byte list \<Rightarrow> byte list res \<times> byte list" where
  "stream_read n arr buf =
     (case arr of
        Inl e \<Rightarrow> (Inl e, buf)
      | Inr bs \<Rightarrow> (Inr (take n (buf @ bs)), drop n (buf @ bs)))"

text \<open>All reads of a stream, and what is left unread.\<close>

fun stream_reads :: "nat \<Rightarrow> byte list res list \<Rightarrow> byte list \<Rightarrow> byte list res list \<times> byte list" where
  "stream_reads n [] buf = ([], buf)"
| "stream_reads n (arr # arrs) buf =
     (case stream_read n arr buf of (rd, buf1) \<Rightarrow>
        (case stream_reads n arrs buf1 of (rds, buf2) \<Rightarrow> (rd # rds, buf2)))"

text \<open>The request: \<open>Subscribe(...)\<close>, wrapped and encoded.\<close>

definition subscribe_request :: "pydantic \<Rightarrow> pystr \<Rightarrow> int \<Rightarrow> byte list res" where
  "subscribe_request P m bps =
     rbind (subscribe_validate P (PDict [(u ''metric_id'', PStr m), (u ''bps'', PInt bps)])) (\<lambda>c.
     rbind (from_command P (Obj c)) (\<lambda>tc.
     rbind (telecommand_dump_json P tc) utf8_encode))"

text \<open>
  What the loop does with what \<open>read(4096)\<close> gave, \<open>rd\<close>; \<open>handle\<close> is how the handler answers a sample.
  Only a \<open>ValidationError\<close> is taken for a corrupted packet.
\<close>

definition subscribe_take :: "pydantic \<Rightarrow> (sample \<Rightarrow> unit res) \<Rightarrow> byte list res \<Rightarrow> (subscription, unit) act" where
  "subscribe_take P handle rd =
     abind (lift_res rd) (\<lambda>bs.
       if bs = [] then (\<lambda>s. (Inr (), s\<lparr>naps := Suc (naps s)\<rparr>))
       else (case client_decode P bs of
           Inl ValidationError \<Rightarrow> lift_res (Inr ())
         | Inl e \<Rightarrow> lift_res (Inl e)
         | Inr t \<Rightarrow>
           (case tm_data t of
              SampleMsg x \<Rightarrow> (\<lambda>s. (handle x, s\<lparr>handled := handled s @ [x]\<rparr>))
            | MetricIdsMsg _ \<Rightarrow> lift_res (Inr ()))))"

text \<open>One pass of the loop, with what arrived since the pass before it.\<close>

definition subscribe_pass :: "pydantic \<Rightarrow> (sample \<Rightarrow> unit res) \<Rightarrow> byte list res \<Rightarrow> (subscription, unit) act" where
  "subscribe_pass P handle arr = (\<lambda>s.
     (case stream_read 4096 arr (unread s) of (rd, buf) \<Rightarrow> subscribe_take P handle rd (s\<lparr>unread := buf\<rparr>)))"

fun subscribe_passes :: "pydantic \<Rightarrow> (sample \<Rightarrow> unit res) \<Rightarrow> byte list res list \<Rightarrow> (subscription, unit) act" where
  "subscribe_passes P handle [] = lift_res (Inr ())"
| "subscribe_passes P handle (arr # arrs) =
     abind (subscribe_pass P handle arr) (\<lambda>_. subscribe_passes P handle arrs)"

definition subscribe_start :: "pydantic \<Rightarrow> pystr \<Rightarrow> int \<Rightarrow> unit res \<Rightarrow> (subscription, unit) act" where
  "subscribe_start P m bps drained =
     abind (lift_res (subscribe_request P m bps)) (\<lambda>bs s. (drained, s\<lparr>sent := sent s @ [bs]\<rparr>))"

text \<open>
  The whole coroutine over what arrives, \<open>arrs\<close>, a read after each: \<open>None\<close> when it is still in its loop after them.
  When it ends the writer is closed, and an error of \<open>wait_closed\<close> replaces the one that
  ended it. Failing to connect raises before the \<open>try\<close>.
\<close>

definition subscribe ::
  "pydantic \<Rightarrow> pystr \<Rightarrow> int \<Rightarrow> unit res \<Rightarrow> unit res \<Rightarrow> unit res \<Rightarrow> (sample \<Rightarrow> unit res) \<Rightarrow> byte list res list \<Rightarrow>
   pyexc option \<times> subscription" where
  "subscribe P m bps opened drained wc handle arrs =
     (let s0 = new_subscription in
      (case opened of
         Inl e \<Rightarrow> (Some e, s0)
       | Inr _ \<Rightarrow>
         (case abind (subscribe_start P m bps drained) (\<lambda>_. subscribe_passes P handle arrs) s0 of
            (Inl e, s) \<Rightarrow> (Some (case wc of Inl e' \<Rightarrow> e' | Inr _ \<Rightarrow> e), s)
          | (Inr _, s) \<Rightarrow> (None, s))))"

subsection \<open>Lemmas\<close>

context pydantic_api
begin

lemma subscribe_request_eq:
  "subscribe_request P m bps = rbind (telecommand_dump_json P \<lparr>which_command = W_SUBSCRIBE, tc_data = Subscribe m bps\<rparr>) utf8_encode"
  by (simp add: subscribe_request_def subscribe_validate_def field_def str_exact int_exact from_command_eq)

end

text \<open>The samples among the messages, in order.\<close>

fun samples_of :: "tm_message list \<Rightarrow> sample list" where
  "samples_of [] = []"
| "samples_of (SampleMsg s # ms) = s # samples_of ms"
| "samples_of (MetricIdsMsg _ # ms) = samples_of ms"

text \<open>Reads that do not end the loop, and the message each of them carries.\<close>

definition read_message :: "pydantic \<Rightarrow> byte list \<Rightarrow> tm_message list res" where
  "read_message P bs =
     (if bs = [] then Inr []
      else (case client_decode P bs of
          Inl e \<Rightarrow> if e = ValidationError then Inr [] else Inl e
        | Inr t \<Rightarrow> Inr [tm_data t]))"

lemma subscribe_take_ok:
  assumes "read_message P bs = Inr ms" "\<And>x. handle x = Inr ()"
  shows "\<exists>s'. subscribe_take P handle (Inr bs) s = (Inr (), s') \<and> sent s' = sent s \<and> unread s' = unread s \<and>
    handled s' = handled s @ samples_of ms"
  using assms by (auto simp: subscribe_take_def read_message_def split: if_splits sum.splits tm_message.splits pyexc.splits)

lemma subscribe_take_fails:
  assumes "read_message P bs = Inl e"
  shows "subscribe_take P handle (Inr bs) s = (Inl e, s)"
  using assms by (auto simp: subscribe_take_def read_message_def split: if_splits sum.splits tm_message.splits pyexc.splits)

text \<open>The reads of arrivals that are no errors: pieces of the arrivals, none longer than the limit.\<close>

lemma stream_reads_pieces:
  assumes "stream_reads n (map Inr as) buf = (rds, left)" "0 < n" "[] \<notin> set as"
  obtains bss where "rds = map Inr bss" "concat bss @ left = buf @ concat as" "length bss = length as"
    "\<forall>bs \<in> set bss. bs \<noteq> [] \<and> length bs \<le> n"
  using assms
proof (induction as arbitrary: buf rds thesis)
  case (Cons a as)
  obtain rds' where r: "stream_reads n (map Inr as) (drop n (buf @ a)) = (rds', left)"
      "rds = Inr (take n (buf @ a)) # rds'"
    using Cons.prems(2) by (auto simp: stream_read_def split: prod.splits)
  obtain bss where b: "rds' = map Inr bss" "concat bss @ left = drop n (buf @ a) @ concat as" "length bss = length as"
      "\<forall>bs \<in> set bss. bs \<noteq> [] \<and> length bs \<le> n"
    using Cons.IH [OF _ r(1)] Cons.prems(3,4) by auto
  have "take n (buf @ a) @ drop n (buf @ a) = buf @ a" by (rule append_take_drop_id)
  then have "concat (take n (buf @ a) # bss) @ left = buf @ concat (a # as)" using b(2) by (metis append.assoc concat.simps(2))
  then show thesis using Cons.prems(1) [of "take n (buf @ a) # bss"] b r(2) Cons.prems(3,4) by auto
qed simp

text \<open>Arrivals within the limit are read one by one.\<close>

lemma stream_reads_short:
  "\<forall>a \<in> set as. length a \<le> n \<Longrightarrow> stream_reads n (map Inr as) [] = (map Inr as, [])"
  by (induction as) (auto simp: stream_read_def)

text \<open>The passes until the first read that ends the loop.\<close>

lemma subscribe_passes_reads:
  assumes "\<And>x. handle x = Inr ()" "fst (stream_reads 4096 arrs (unread s)) = map Inr (bss @ rest)"
    and "traverse (read_message P) bss = Inr mss"
    and "rest = [] \<or> (\<exists>bs rest'. rest = bs # rest' \<and> read_message P bs = Inl e)"
  shows "\<exists>s'. subscribe_passes P handle arrs s = (if rest = [] then Inr () else Inl e, s') \<and> sent s' = sent s \<and>
      handled s' = handled s @ samples_of (concat mss)"
  using assms(2-)
proof (induction arrs arbitrary: bss mss s)
  case Nil
  then show ?case by (simp add: res_simps)
next
  case (Cons arr arrs)
  obtain rd buf where 1: "stream_read 4096 arr (unread s) = (rd, buf)" by fastforce
  let ?s = "s\<lparr>unread := buf\<rparr>"
  have split: "rd # fst (stream_reads 4096 arrs buf) = map Inr (bss @ rest)"
    using Cons.prems(1) 1 by (simp split: prod.splits)
  show ?case
  proof (cases bss)
    case Nil
    then obtain bs where bs: "rest \<noteq> []" "rd = Inr bs" "read_message P bs = Inl e" using split Cons.prems(3) by auto
    from subscribe_take_fails [OF bs(3)] bs(1,2) 1 Nil Cons.prems(2) show ?thesis
      by (auto simp: subscribe_pass_def abind_def)
  next
    case (Cons bs bss')
    then have rd: "rd = Inr bs" "fst (stream_reads 4096 arrs buf) = map Inr (bss' @ rest)" using split by auto
    obtain ms mss' where ms: "read_message P bs = Inr ms" "traverse (read_message P) bss' = Inr mss'" "mss = ms # mss'"
      using Cons Cons.prems(2) by (auto simp: res_simps)
    obtain s1 where s1: "subscribe_take P handle (Inr bs) ?s = (Inr (), s1)" "sent s1 = sent s" "unread s1 = buf"
        "handled s1 = handled s @ samples_of ms"
      using subscribe_take_ok [OF ms(1), of handle ?s] assms(1) by auto
    have "fst (stream_reads 4096 arrs (unread s1)) = map Inr (bss' @ rest)" using rd(2) s1(3) by simp
    from Cons.IH [OF this ms(2) Cons.prems(3)] obtain s2 where s2:
        "subscribe_passes P handle arrs s1 = (if rest = [] then Inr () else Inl e, s2)" "sent s2 = sent s1"
        "handled s2 = handled s1 @ samples_of (concat mss')"
      by blast
    have "samples_of (ms @ concat mss') = samples_of ms @ samples_of (concat mss')"
      by (induction ms rule: samples_of.induct) auto
    with s1 s2 ms(3) rd(1) 1 show ?thesis by (simp add: subscribe_pass_def abind_def)
  qed
qed

end
