(* ===== verification/CommandMetrics.thy ===== *)
theory CommandMetrics
  imports CommandSubscriber
begin

section \<open>Metrics and their rates: command/src/sync_metric_ids.py\<close>

text \<open>
  The handler that keeps one subscription task per metric of the payload computer and
  shares the maximal rate among them. The tasks it ever created are a list, a task's number
  is its position; a dictionary maps each metric to the number of its task.
\<close>

subsection \<open>State\<close>

record sub_task =
  tk_metric :: pystr
  tk_bps :: int
  tk_end :: "unit res option"     \<comment> \<open>how it ended, \<open>None\<close> while it runs\<close>

record metric_handler =
  max_bps :: int
  metrics :: "(pystr \<times> int) list"              \<comment> \<open>\<open>MetricInfo.bps\<close> by metric id\<close>
  metric_subscriptions :: "(pystr \<times> nat) list"
  sub_tasks :: "sub_task list"
  updated :: bool
  bps_distribution_mode :: pystr
  closing :: "nat \<Rightarrow> unit res"   \<comment> \<open>what \<open>wait_closed\<close> will answer each task when it is cancelled\<close>

text \<open>\<open>cl\<close> belongs to the network, not to the handler: the code neither reads nor sets it.\<close>

definition new_handler :: "pystr \<Rightarrow> int \<Rightarrow> (nat \<Rightarrow> unit res) \<Rightarrow> metric_handler" where
  "new_handler mode bps cl =
     \<lparr>max_bps = bps, metrics = [], metric_subscriptions = [], sub_tasks = [], updated = False,
      bps_distribution_mode = mode, closing = cl\<rparr>"

text \<open>
  The data class of a metric and the class that subscribes with it. The handler keeps the rates of its
  \<open>MetricInfo\<close> objects in \<open>metrics\<close> and does not use the class \<open>Metric\<close>.
\<close>

record metric_info =
  mi_metric_id :: pystr
  mi_bps :: int

definition new_metric_info :: "pystr \<Rightarrow> metric_info" where
  "new_metric_info m = \<lparr>mi_metric_id = m, mi_bps = 0\<rparr>"

text \<open>\<open>hash_str\<close> is the hash of a text.\<close>

definition metric_info_hash :: "(pystr \<Rightarrow> int) \<Rightarrow> metric_info \<Rightarrow> int" where
  "metric_info_hash hash_str mi = hash_str (mi_metric_id mi)"

record metric =
  metric_info_of :: metric_info

definition new_metric :: "pystr \<Rightarrow> metric" where
  "new_metric m = \<lparr>metric_info_of = new_metric_info m\<rparr>"

definition metric_subscribe ::
  "pydantic \<Rightarrow> metric \<Rightarrow> unit res \<Rightarrow> unit res \<Rightarrow> unit res \<Rightarrow> (sample \<Rightarrow> unit res) \<Rightarrow> byte list res list \<Rightarrow>
   pyexc option \<times> subscription" where
  "metric_subscribe P mt =
     subscribe P (mi_metric_id (metric_info_of mt)) (mi_bps (metric_info_of mt))"

subsection \<open>Tasks\<close>

text \<open>\<open>self.metric_subscriptions[m] = asyncio.create_task(subscribe(...))\<close>\<close>

definition create_sub :: "pystr \<Rightarrow> int \<Rightarrow> metric_handler \<Rightarrow> metric_handler" where
  "create_sub m b h = h\<lparr>sub_tasks := sub_tasks h @ [\<lparr>tk_metric = m, tk_bps = b, tk_end = None\<rparr>],
     metric_subscriptions := dict_set m (length (sub_tasks h)) (metric_subscriptions h)\<rparr>"

text \<open>
  \<open>task.cancel()\<close> and \<open>await task\<close> with a cancellation swallowed: any other exception the task ended with is raised.
  A task that runs is interrupted and closes its writer in its \<open>finally\<close>, where an error of
  \<open>wait_closed\<close> replaces the cancellation.
\<close>

definition awaited :: "unit res \<Rightarrow> unit res" where
  "awaited r = (case r of Inr _ \<Rightarrow> Inr () | Inl e \<Rightarrow> if e = CancelledError then Inr () else Inl e)"

definition cancelled_end :: "unit res \<Rightarrow> unit res" where
  "cancelled_end cl = (case cl of Inl e \<Rightarrow> Inl e | Inr _ \<Rightarrow> Inl CancelledError)"

definition cancel_and_await :: "nat \<Rightarrow> (metric_handler, unit) act" where
  "cancel_and_await i = (\<lambda>h.
     (case tk_end (sub_tasks h ! i) of
        None \<Rightarrow> (awaited (cancelled_end (closing h i)),
          h\<lparr>sub_tasks := (sub_tasks h)[i := (sub_tasks h ! i)\<lparr>tk_end := Some (cancelled_end (closing h i))\<rparr>]\<rparr>)
      | Some r \<Rightarrow> (awaited r, h)))"

lemma awaited_simps [simp]: "awaited (Inr x) = Inr ()" "awaited (Inl CancelledError) = Inr ()"
  "e \<noteq> CancelledError \<Longrightarrow> awaited (Inl e) = Inl e" "cancelled_end (Inr x) = Inl CancelledError" "cancelled_end (Inl e) = Inl e"
  by (simp_all add: awaited_def cancelled_end_def)

subsection \<open>Operations\<close>

text \<open>
  \<open>update_bps\<close> in two halves, up to its \<open>await\<close> and after it; other coroutines run in between.
\<close>

definition update_begin :: "pystr \<Rightarrow> int \<Rightarrow> (metric_handler, bool) act" where
  "update_begin m b = (\<lambda>h.
     if m \<in> fst ` set (metrics h) then
       (let h1 = h\<lparr>metrics := dict_set m b (metrics h)\<rparr> in
        (case map_of (metric_subscriptions h1) m of
           None \<Rightarrow> (Inl KeyError, h1)
         | Some i \<Rightarrow> abind (cancel_and_await i) (\<lambda>_. lift_res (Inr True)) h1))
     else (Inr False, h))"

definition update_bps :: "pystr \<Rightarrow> int \<Rightarrow> (metric_handler, unit) act" where
  "update_bps m b = abind (update_begin m b) (\<lambda>found h.
     (Inr (), if found then create_sub m b h else h))"

text \<open>
  The task group of \<open>redistribute_bps_fairly\<close>: one \<open>update_bps\<close> for every metric. An update
  that fails makes the group cancel the others, but these are waiting for their old tasks,
  swallow the cancellation there and go on; the group then raises.
\<close>

fun update_group :: "int \<Rightarrow> pystr list \<Rightarrow> metric_handler \<Rightarrow> bool \<times> metric_handler" where
  "update_group b [] h = (True, h)"
| "update_group b (m # ms) h =
     (case update_bps m b h of (r, h1) \<Rightarrow>
        (case update_group b ms h1 of (all_ok, h2) \<Rightarrow> (is_ok r \<and> all_ok, h2)))"

definition redistribute_bps_fairly :: "(metric_handler, unit) act" where
  "redistribute_bps_fairly = (\<lambda>h.
     if metrics h = [] then (Inl ZeroDivisionError, h)
     else (case update_group (max_bps h div int (length (metrics h))) (map fst (metrics h)) h of
         (all_ok, h') \<Rightarrow> (if all_ok then Inr () else Inl ExceptionGroup, h')))"

definition add_metric :: "pystr \<Rightarrow> (metric_handler, unit) act" where
  "add_metric m = (\<lambda>h.
     (let h1 = create_sub m 0 (h\<lparr>metrics := dict_set m 0 (metrics h)\<rparr>) in
      if bps_distribution_mode h1 = u ''fair'' then redistribute_bps_fairly h1 else (Inr (), h1)))"

fun add_metrics :: "pystr list \<Rightarrow> (metric_handler, unit) act" where
  "add_metrics [] = lift_res (Inr ())"
| "add_metrics (m # ms) = abind (add_metric m) (\<lambda>_. add_metrics ms)"

text \<open>\<open>order\<close> is the order in which a set is iterated.\<close>

definition update_metric_id_list :: "(pystr set \<Rightarrow> pystr list) \<Rightarrow> pystr list \<Rightarrow> (metric_handler, unit) act" where
  "update_metric_id_list order latest = (\<lambda>h.
     (let new = set latest - fst ` set (metrics h) in
      if new = {} then (Inr (), h) else add_metrics (order new) (h\<lparr>updated := True\<rparr>)))"

definition set_max_bps :: "int \<Rightarrow> (metric_handler, unit) act" where
  "set_max_bps b = (\<lambda>h.
     if b \<noteq> max_bps h then redistribute_bps_fairly (h\<lparr>max_bps := b\<rparr>) else (Inr (), h))"

definition get_metrics :: "metric_handler \<Rightarrow> (pystr \<times> int) set" where
  "get_metrics h = set (metrics h)"

text \<open>
  \<open>sync_metric_ids\<close>: one request when the connection is open, then passes that read. A
  time-out is ignored, any other exception ends the coroutine.
\<close>

definition sync_request :: "pydantic \<Rightarrow> byte list res" where
  "sync_request P =
     rbind (from_command P (Obj GetMetricIds)) (\<lambda>tc. rbind (telecommand_dump_json P tc) utf8_encode)"

definition sync_pass :: "pydantic \<Rightarrow> (pystr set \<Rightarrow> pystr list) \<Rightarrow> byte list res \<Rightarrow> (metric_handler, unit) act" where
  "sync_pass P order rd =
     (case rd of
        Inl TimeoutError \<Rightarrow> lift_res (Inr ())
      | Inl e \<Rightarrow> lift_res (Inl e)
      | Inr bs \<Rightarrow>
        if bs = [] then lift_res (Inr ())
        else abind (lift_res (client_decode P bs)) (\<lambda>t.
          (case tm_data t of
             MetricIdsMsg ids \<Rightarrow> update_metric_id_list order ids
           | SampleMsg _ \<Rightarrow> lift_res (Inr ()))))"

fun sync_passes :: "pydantic \<Rightarrow> (pystr set \<Rightarrow> pystr list) \<Rightarrow> byte list res list \<Rightarrow> (metric_handler, unit) act" where
  "sync_passes P order [] = lift_res (Inr ())"
| "sync_passes P order (rd # rds) = abind (sync_pass P order rd) (\<lambda>_. sync_passes P order rds)"

text \<open>
  The whole coroutine over the reads \<open>rds\<close>, with the bytes it has sent; \<open>opened\<close> and \<open>drain\<close> are the results of
  opening the connection and of draining it. It is still in its loop after the reads when its result is \<open>Inr ()\<close>.
\<close>

definition sync_metric_ids ::
  "pydantic \<Rightarrow> (pystr set \<Rightarrow> pystr list) \<Rightarrow> unit res \<Rightarrow> unit res \<Rightarrow> byte list res list \<Rightarrow> metric_handler \<Rightarrow>
   (unit res \<times> byte list list) \<times> metric_handler" where
  "sync_metric_ids P order opened drain rds h =
     (case opened of
        Inl e \<Rightarrow> ((Inl e, []), h)
      | Inr _ \<Rightarrow>
        (case sync_request P of
           Inl e \<Rightarrow> ((Inl e, []), h)
         | Inr req \<Rightarrow>
           (case drain of
              Inl e \<Rightarrow> ((Inl e, [req]), h)
            | Inr _ \<Rightarrow> (case sync_passes P order rds h of (r, h') \<Rightarrow> ((r, [req]), h')))))"

text \<open>
  \<open>__aexit__\<close>: \<open>sync\<close> tells how the synchronising task had ended, if it had; then the registered
  tasks are cancelled one by one.
\<close>

fun cancel_all :: "nat list \<Rightarrow> (metric_handler, unit) act" where
  "cancel_all [] = lift_res (Inr ())"
| "cancel_all (i # is) = abind (cancel_and_await i) (\<lambda>_. cancel_all is)"

definition handler_exit :: "unit res option \<Rightarrow> (metric_handler, unit) act" where
  "handler_exit sync = (\<lambda>h.
     (case sync of
        Some (Inl e) \<Rightarrow> if e = CancelledError then cancel_all (map snd (metric_subscriptions h)) h else (Inl e, h)
      | _ \<Rightarrow> cancel_all (map snd (metric_subscriptions h)) h))"

subsection \<open>The invariant\<close>

text \<open>
  Every metric has a registered task of its own, and a task that is running is the one
  registered for its metric, at the rate the metric has.
\<close>

definition live :: "metric_handler \<Rightarrow> nat \<Rightarrow> bool" where
  "live h i \<longleftrightarrow> i < length (sub_tasks h) \<and> tk_end (sub_tasks h ! i) = None"

definition handler_inv :: "metric_handler \<Rightarrow> bool" where
  "handler_inv h \<longleftrightarrow> dict_ok (metrics h) \<and> dict_ok (metric_subscriptions h) \<and>
     dom (map_of (metric_subscriptions h)) = dom (map_of (metrics h)) \<and>
     (\<forall>m i. map_of (metric_subscriptions h) m = Some i \<longrightarrow>
        i < length (sub_tasks h) \<and> tk_metric (sub_tasks h ! i) = m) \<and>
     (\<forall>i. live h i \<longrightarrow>
        map_of (metric_subscriptions h) (tk_metric (sub_tasks h ! i)) = Some i \<and>
        map_of (metrics h) (tk_metric (sub_tasks h ! i)) = Some (tk_bps (sub_tasks h ! i)))"

lemma handler_invD:
  assumes "handler_inv h"
  shows "dict_ok (metrics h)" "dict_ok (metric_subscriptions h)"
    "dom (map_of (metric_subscriptions h)) = dom (map_of (metrics h))"
    "map_of (metric_subscriptions h) m = Some i \<Longrightarrow> i < length (sub_tasks h) \<and> tk_metric (sub_tasks h ! i) = m"
    "live h i \<Longrightarrow> map_of (metric_subscriptions h) (tk_metric (sub_tasks h ! i)) = Some i"
    "live h i \<Longrightarrow> map_of (metrics h) (tk_metric (sub_tasks h ! i)) = Some (tk_bps (sub_tasks h ! i))"
  using assms unfolding handler_inv_def by blast+

lemma in_dict: "m \<in> fst ` set d \<longleftrightarrow> m \<in> dom (map_of d)"
  by (simp add: dom_map_of_conv_image_fst)

text \<open>Cancelling a task: it is no longer live, nothing else changes.\<close>

lemma cancel_and_await_state:
  assumes "cancel_and_await i h = (r, h')" "i < length (sub_tasks h)"
  shows "metrics h' = metrics h \<and> metric_subscriptions h' = metric_subscriptions h \<and> max_bps h' = max_bps h \<and>
    bps_distribution_mode h' = bps_distribution_mode h \<and>
    length (sub_tasks h') = length (sub_tasks h) \<and>
    (\<forall>j. tk_metric (sub_tasks h' ! j) = tk_metric (sub_tasks h ! j) \<and> tk_bps (sub_tasks h' ! j) = tk_bps (sub_tasks h ! j)) \<and>
    (\<forall>j. live h' j \<longleftrightarrow> live h j \<and> j \<noteq> i)"
  using assms by (auto simp: cancel_and_await_def live_def nth_list_update split: option.splits sum.splits if_splits)

lemma cancel_and_await_inv:
  assumes "handler_inv h" "cancel_and_await i h = (r, h')" "i < length (sub_tasks h)"
  shows "handler_inv h'"
  using assms(1) cancel_and_await_state [OF assms(2,3)] unfolding handler_inv_def by auto

text \<open>A rate may change while the metric has no running task.\<close>

lemma set_rate_inv:
  assumes "handler_inv h" "m \<in> dom (map_of (metrics h))" "\<And>i. live h i \<Longrightarrow> tk_metric (sub_tasks h ! i) \<noteq> m"
  shows "handler_inv (h\<lparr>metrics := dict_set m b (metrics h)\<rparr>)"
  using assms unfolding handler_inv_def by (auto simp: dict_set_ok dict_simps live_def)

lemma cancel_and_await_metrics: "cancel_and_await i (h\<lparr>metrics := d\<rparr>) =
    (fst (cancel_and_await i h), (snd (cancel_and_await i h))\<lparr>metrics := d\<rparr>)"
  by (simp add: cancel_and_await_def split: option.split)

lemma update_begin_cases:
  assumes "handler_inv h" "update_begin m b h = (r, h')"
  shows "m \<notin> dom (map_of (metrics h)) \<and> r = Inr False \<and> h' = h \<or>
    m \<in> dom (map_of (metrics h)) \<and> r \<noteq> Inr False \<and> handler_inv h' \<and> metrics h' = dict_set m b (metrics h) \<and>
    metric_subscriptions h' = metric_subscriptions h \<and> max_bps h' = max_bps h \<and>
    bps_distribution_mode h' = bps_distribution_mode h \<and> length (sub_tasks h') = length (sub_tasks h) \<and>
    (\<forall>j. tk_metric (sub_tasks h' ! j) = tk_metric (sub_tasks h ! j) \<and> tk_bps (sub_tasks h' ! j) = tk_bps (sub_tasks h ! j)) \<and>
    (\<forall>j. live h' j \<longleftrightarrow> live h j \<and> tk_metric (sub_tasks h ! j) \<noteq> m)"
proof (cases "m \<in> dom (map_of (metrics h))")
  case False
  with assms(2) show ?thesis by (auto simp: update_begin_def in_dict)
next
  case True
  note inv = handler_invD [OF assms(1)]
  from True inv(3) obtain i where i: "map_of (metric_subscriptions h) m = Some i" by blast
  with inv(4) have il: "i < length (sub_tasks h)" "tk_metric (sub_tasks h ! i) = m" by auto
  let ?h1 = "h\<lparr>metrics := dict_set m b (metrics h)\<rparr>"
  obtain r1 h1 where 1: "cancel_and_await i ?h1 = (r1, h1)" by fastforce
  obtain h0 where 0: "cancel_and_await i h = (r1, h0)" "h1 = h0\<lparr>metrics := dict_set m b (metrics h)\<rparr>"
    using 1 cancel_and_await_metrics [where i = i and h = h and d = "dict_set m b (metrics h)"]
    by (cases "cancel_and_await i h") auto
  note s0 = cancel_and_await_state [OF 0(1) il(1)]
  have only: "live h j \<Longrightarrow> tk_metric (sub_tasks h ! j) = m \<longleftrightarrow> j = i" for j
    using inv(5) [of j] i il(2) by (metis option.inject)
  have "handler_inv h0" using cancel_and_await_inv [OF assms(1) 0(1) il(1)] .
  moreover have "m \<in> dom (map_of (metrics h0))" using True s0 by simp
  moreover have "tk_metric (sub_tasks h0 ! j) \<noteq> m" if "live h0 j" for j using that s0 only [of j] by auto
  ultimately have "handler_inv (h0\<lparr>metrics := dict_set m b (metrics h0)\<rparr>)" by (rule set_rate_inv)
  then have i1: "handler_inv h1" using 0(2) s0 by simp
  have "h' = h1 \<and> r = (case r1 of Inl e \<Rightarrow> Inl e | Inr _ \<Rightarrow> Inr True)"
    using assms(2) True i 1 by (cases r1) (auto simp: update_begin_def in_dict abind_def)
  moreover have "live h1 = live h0" using 0(2) by (simp add: live_def fun_eq_iff)
  ultimately show ?thesis using True s0 only 0(2) i1 by (auto split: sum.splits)
qed

lemma create_sub_inv:
  assumes "dict_ok (metrics h)" "dict_ok (metric_subscriptions h)"
    and "insert m (dom (map_of (metric_subscriptions h))) = dom (map_of (metrics h))"
    and "\<And>m' i. map_of (metric_subscriptions h) m' = Some i \<Longrightarrow> i < length (sub_tasks h) \<and> tk_metric (sub_tasks h ! i) = m'"
    and "\<And>i. live h i \<Longrightarrow> tk_metric (sub_tasks h ! i) \<noteq> m \<and>
        map_of (metric_subscriptions h) (tk_metric (sub_tasks h ! i)) = Some i \<and>
        map_of (metrics h) (tk_metric (sub_tasks h ! i)) = Some (tk_bps (sub_tasks h ! i))"
    and "map_of (metrics h) m = Some b"
  shows "handler_inv (create_sub m b h)"
proof -
  let ?h = "create_sub m b h"
  have t: "sub_tasks ?h ! i = sub_tasks h ! i" if "i < length (sub_tasks h)" for i
    using that by (simp add: create_sub_def nth_append)
  have n: "sub_tasks ?h ! length (sub_tasks h) = \<lparr>tk_metric = m, tk_bps = b, tk_end = None\<rparr>"
    by (simp add: create_sub_def)
  have l: "live ?h i \<longleftrightarrow> live h i \<or> i = length (sub_tasks h)" for i
    using t [of i] n by (auto simp: live_def create_sub_def less_Suc_eq)
  have d: "map_of (metric_subscriptions ?h) = (map_of (metric_subscriptions h))(m \<mapsto> length (sub_tasks h))"
      "metrics ?h = metrics h" "length (sub_tasks ?h) = Suc (length (sub_tasks h))"
    by (simp_all add: create_sub_def dict_simps)
  show ?thesis unfolding handler_inv_def
  proof (intro conjI allI impI)
    show "dict_ok (metrics ?h)" "dict_ok (metric_subscriptions ?h)"
      using assms(1,2) by (simp_all add: create_sub_def dict_set_ok)
    show "dom (map_of (metric_subscriptions ?h)) = dom (map_of (metrics ?h))" using assms(3) d by auto
  next
    fix m' i assume a: "map_of (metric_subscriptions ?h) m' = Some i"
    show "i < length (sub_tasks ?h)" using a assms(4) [of m' i] d by (auto split: if_splits)
    show "tk_metric (sub_tasks ?h ! i) = m'"
      using a assms(4) [of m' i] d t [of i] n by (auto split: if_splits)
  next
    fix i assume "live ?h i"
    then consider "live h i" | "i = length (sub_tasks h)" using l by blast
    then show "map_of (metric_subscriptions ?h) (tk_metric (sub_tasks ?h ! i)) = Some i"
      "map_of (metrics ?h) (tk_metric (sub_tasks ?h ! i)) = Some (tk_bps (sub_tasks ?h ! i))"
      using assms(5) [of i] assms(6) d t [of i] n by (cases; force simp: live_def)+
  qed
qed

text \<open>What \<open>served\<close> says of a metric: it has this rate, and its registered task runs at it.\<close>

definition served :: "metric_handler \<Rightarrow> pystr \<Rightarrow> int \<Rightarrow> bool" where
  "served h m b \<longleftrightarrow> map_of (metrics h) m = Some b \<and>
     (\<exists>i. map_of (metric_subscriptions h) m = Some i \<and> live h i \<and> tk_bps (sub_tasks h ! i) = b)"

lemma create_sub_served:
  "map_of (metrics h) m = Some b \<Longrightarrow> served (create_sub m b h) m b"
  "served h m' b' \<Longrightarrow> m' \<noteq> m \<Longrightarrow> served (create_sub m b h) m' b'"
  by (auto simp: served_def create_sub_def dict_simps live_def nth_append)

lemma update_bps_inv:
  assumes "handler_inv h" "update_bps m b h = (r, h')"
  shows "handler_inv h' \<and> map fst (metrics h') = map fst (metrics h) \<and> max_bps h' = max_bps h \<and>
    bps_distribution_mode h' = bps_distribution_mode h \<and>
    (r = Inr () \<longrightarrow> m \<in> dom (map_of (metrics h)) \<longrightarrow> served h' m b) \<and>
    (\<forall>m' b'. m' \<noteq> m \<longrightarrow> served h m' b' \<longrightarrow> served h' m' b')"
proof -
  obtain r1 h1 where 1: "update_begin m b h = (r1, h1)" by fastforce
  note c = update_begin_cases [OF assms(1) 1]
  show ?thesis
  proof (cases "m \<in> dom (map_of (metrics h))")
    case False
    then have "r1 = Inr False" "h1 = h" using c by auto
    then have "h' = h" using assms(2) 1 by (simp add: update_bps_def abind_def)
    with assms(1) False show ?thesis by auto
  next
    case True
    then have h1: "handler_inv h1" "metrics h1 = dict_set m b (metrics h)" "metric_subscriptions h1 = metric_subscriptions h"
        "max_bps h1 = max_bps h" "bps_distribution_mode h1 = bps_distribution_mode h"
        "\<And>j. live h1 j \<longleftrightarrow> live h j \<and> tk_metric (sub_tasks h ! j) \<noteq> m"
        "\<And>j. tk_metric (sub_tasks h1 ! j) = tk_metric (sub_tasks h ! j)" "\<And>j. tk_bps (sub_tasks h1 ! j) = tk_bps (sub_tasks h ! j)"
        "r1 \<noteq> Inr False"
      using c by auto
    have k: "map fst (metrics h1) = map fst (metrics h)"
      using True h1(2) by (simp add: map_fst_dict_set in_dict)
    have o: "served h1 m' b'" if "m' \<noteq> m" "served h m' b'" for m' b'
      using that handler_invD(4) [OF assms(1)] unfolding served_def by (auto simp: h1 dict_simps)
    have m: "map_of (metrics h1) m = Some b" by (simp add: h1 dict_simps)
    show ?thesis
    proof (cases r1)
      case (Inl e)
      then have "h' = h1" "r = Inl e" using assms(2) 1 by (auto simp: update_bps_def)
      with h1 k o show ?thesis by auto
    next
      case (Inr f)
      then have h': "h' = create_sub m b h1" "r = Inr ()" using assms(2) 1 h1(9) by (auto simp: update_bps_def)
      note i1 = handler_invD [OF h1(1)]
      have "handler_inv h'" unfolding h'(1)
      proof (rule create_sub_inv [OF i1(1,2) _ i1(4) _ m])
        show "insert m (dom (map_of (metric_subscriptions h1))) = dom (map_of (metrics h1))"
          using m i1(3) by auto
      qed (use i1(5,6) h1 in auto)
      moreover have "metrics h' = metrics h1" "max_bps h' = max_bps h1" "bps_distribution_mode h' = bps_distribution_mode h1"
        using h' by (simp_all add: create_sub_def)
      ultimately show ?thesis
        using k h1 o h'(1) create_sub_served(1) [OF m] create_sub_served(2) by auto
    qed
  qed
qed

lemma update_group_inv:
  "handler_inv h \<Longrightarrow> distinct ms \<Longrightarrow> update_group b ms h = (all_ok, h') \<Longrightarrow>
    handler_inv h' \<and> map fst (metrics h') = map fst (metrics h) \<and> max_bps h' = max_bps h \<and>
    bps_distribution_mode h' = bps_distribution_mode h \<and>
    (all_ok \<longrightarrow> (\<forall>m \<in> set ms \<inter> dom (map_of (metrics h)). served h' m b)) \<and>
    (\<forall>m' b'. m' \<notin> set ms \<longrightarrow> served h m' b' \<longrightarrow> served h' m' b')"
proof (induction ms arbitrary: h all_ok h')
  case (Cons m ms)
  obtain r h1 where 1: "update_bps m b h = (r, h1)" by fastforce
  obtain ok2 h2 where 2: "update_group b ms h1 = (ok2, h2)" by fastforce
  have e: "all_ok = (is_ok r \<and> ok2)" "h' = h2" using Cons.prems(3) 1 2 by auto
  note u = update_bps_inv [OF Cons.prems(1) 1]
  have g: "handler_inv h2 \<and> map fst (metrics h2) = map fst (metrics h1) \<and> max_bps h2 = max_bps h1 \<and>
    bps_distribution_mode h2 = bps_distribution_mode h1 \<and>
    (ok2 \<longrightarrow> (\<forall>m \<in> set ms \<inter> dom (map_of (metrics h1)). served h2 m b)) \<and>
    (\<forall>m' b'. m' \<notin> set ms \<longrightarrow> served h1 m' b' \<longrightarrow> served h2 m' b')"
    by (rule Cons.IH [OF conjunct1 [OF u] _ 2]) (use Cons.prems(2) in simp)
  have "is_ok r \<Longrightarrow> r = Inr ()" by (cases r) (auto simp: is_ok_def)
  moreover have "dom (map_of (metrics h1)) = dom (map_of (metrics h))"
    using u by (metis dom_map_of_conv_image_fst set_map)
  ultimately show ?case using u g e Cons.prems(2) by auto
qed simp

lemma redistribute_inv:
  assumes "handler_inv h" "redistribute_bps_fairly h = (r, h')"
  shows "handler_inv h' \<and> map fst (metrics h') = map fst (metrics h) \<and> max_bps h' = max_bps h \<and>
    bps_distribution_mode h' = bps_distribution_mode h \<and>
    (r = Inr () \<longrightarrow> (\<forall>m \<in> dom (map_of (metrics h)). served h' m (max_bps h div int (length (metrics h)))))"
proof (cases "metrics h = []")
  case True
  with assms show ?thesis by (auto simp: redistribute_bps_fairly_def)
next
  case False
  let ?b = "max_bps h div int (length (metrics h))"
  obtain ok h2 where 2: "update_group ?b (map fst (metrics h)) h = (ok, h2)" by fastforce
  have "distinct (map fst (metrics h))" using handler_invD(1) [OF assms(1)] by (simp add: dict_ok_def)
  note g = update_group_inv [OF assms(1) this 2]
  have "h' = h2" "r = (if ok then Inr () else Inl ExceptionGroup)"
    using assms(2) False 2 by (auto simp: redistribute_bps_fairly_def)
  with g show ?thesis by (auto simp: dom_map_of_conv_image_fst split: if_splits)
qed

lemma new_metric_inv:
  assumes "handler_inv h" "m \<notin> fst ` set (metrics h)"
  shows "handler_inv (create_sub m 0 (h\<lparr>metrics := dict_set m 0 (metrics h)\<rparr>))"
proof -
  note inv = handler_invD [OF assms(1)]
  show ?thesis
  proof (rule create_sub_inv)
    fix i assume "live (h\<lparr>metrics := dict_set m 0 (metrics h)\<rparr>) i"
    then have "live h i" by (simp add: live_def)
    then show "tk_metric (sub_tasks (h\<lparr>metrics := dict_set m 0 (metrics h)\<rparr>) ! i) \<noteq> m \<and>
        map_of (metric_subscriptions (h\<lparr>metrics := dict_set m 0 (metrics h)\<rparr>))
          (tk_metric (sub_tasks (h\<lparr>metrics := dict_set m 0 (metrics h)\<rparr>) ! i)) = Some i \<and>
        map_of (metrics (h\<lparr>metrics := dict_set m 0 (metrics h)\<rparr>))
          (tk_metric (sub_tasks (h\<lparr>metrics := dict_set m 0 (metrics h)\<rparr>) ! i)) =
          Some (tk_bps (sub_tasks (h\<lparr>metrics := dict_set m 0 (metrics h)\<rparr>) ! i))"
      using inv(5,6) [of i] assms(2) by (auto simp: dict_simps in_dict)
  qed (use inv in \<open>auto simp: dict_simps dict_set_ok\<close>)
qed

lemma add_metric_inv:
  assumes "handler_inv h" "m \<notin> fst ` set (metrics h)" "add_metric m h = (r, h')"
  shows "handler_inv h' \<and> map fst (metrics h') = map fst (metrics h) @ [m]"
proof -
  let ?h1 = "create_sub m 0 (h\<lparr>metrics := dict_set m 0 (metrics h)\<rparr>)"
  note i = new_metric_inv [OF assms(1,2)]
  have k: "map fst (metrics ?h1) = map fst (metrics h) @ [m]"
    using assms(2) by (simp add: create_sub_def map_fst_dict_set)
  show ?thesis
  proof (cases "bps_distribution_mode ?h1 = u ''fair''")
    case True
    then have "redistribute_bps_fairly ?h1 = (r, h')" using assms(3) by (simp add: add_metric_def Let_def)
    with redistribute_inv [OF i this] k show ?thesis by simp
  next
    case False
    with assms(3) i k show ?thesis by (auto simp: add_metric_def Let_def simp del: u_simps)
  qed
qed

lemma add_metrics_inv:
  "handler_inv h \<Longrightarrow> distinct ms \<Longrightarrow> set ms \<inter> fst ` set (metrics h) = {} \<Longrightarrow> add_metrics ms h = (r, h') \<Longrightarrow>
    handler_inv h' \<and> (r = Inr () \<longrightarrow> map fst (metrics h') = map fst (metrics h) @ ms)"
proof (induction ms arbitrary: h)
  case (Cons m ms)
  obtain r1 h1 where 1: "add_metric m h = (r1, h1)" by fastforce
  have a: "handler_inv h1" "map fst (metrics h1) = map fst (metrics h) @ [m]"
    using add_metric_inv [OF Cons.prems(1) _ 1] Cons.prems(3) by auto
  show ?case
  proof (cases r1)
    case (Inl e)
    with a 1 Cons.prems(4) show ?thesis by auto
  next
    case (Inr y)
    then have "add_metrics ms h1 = (r, h')" using 1 Cons.prems(4) by simp
    moreover have "fst ` set (metrics h1) = insert m (fst ` set (metrics h))"
      using a(2) by (metis Un_insert_right append.right_neutral list.set(1) list.set(2) set_append set_map sup_bot.right_neutral)
    ultimately show ?thesis using Cons.IH [of h1] a Cons.prems(2,3) by auto
  qed
qed simp

lemma set_max_bps_inv: "handler_inv h \<Longrightarrow> set_max_bps b h = (r, h') \<Longrightarrow> handler_inv h'"
proof -
  assume h: "handler_inv h" "set_max_bps b h = (r, h')"
  have "handler_inv (h\<lparr>max_bps := b\<rparr>)" using h(1) by (simp add: handler_inv_def live_def)
  from redistribute_inv [OF this, of r h'] h show ?thesis
    by (cases "b = max_bps h") (simp_all add: set_max_bps_def)
qed

lemma update_list_inv:
  assumes "handler_inv h" "update_metric_id_list (\<lambda>_. new) latest h = (r, h')"
    and "set new = set latest - fst ` set (metrics h)" "distinct new"
  shows "handler_inv h' \<and> (r = Inr () \<longrightarrow> map fst (metrics h') = map fst (metrics h) @ new)"
proof (cases "set new = {}")
  case True
  with assms show ?thesis by (simp add: update_metric_id_list_def)
next
  case False
  have "handler_inv (h\<lparr>updated := True\<rparr>)" using assms(1) by (simp add: handler_inv_def live_def)
  from add_metrics_inv [OF this assms(4), of r h'] assms(2,3) False show ?thesis
    by (auto simp: update_metric_id_list_def Let_def split: if_splits)
qed

lemma task_ends_inv:
  "handler_inv h \<Longrightarrow> i < length (sub_tasks h) \<Longrightarrow>
    handler_inv (h\<lparr>sub_tasks := (sub_tasks h)[i := (sub_tasks h ! i)\<lparr>tk_end := Some r\<rparr>]\<rparr>)"
  unfolding handler_inv_def live_def by (auto simp: nth_list_update split: if_splits)

text \<open>
  The handler as a machine: the operations, each running without another in between, and
  tasks that end by themselves. A set of new ids is iterated in any order.
\<close>

inductive handler_step :: "metric_handler \<Rightarrow> metric_handler \<Rightarrow> bool" where
  step_update: "handler_step h (snd (update_bps m b h))"
| step_set_max: "handler_step h (snd (set_max_bps b h))"
| step_sync: "set new = set latest - fst ` set (metrics h) \<Longrightarrow> distinct new \<Longrightarrow>
    handler_step h (snd (update_metric_id_list (\<lambda>_. new) latest h))"
| step_task: "live h i \<Longrightarrow>
    handler_step h (h\<lparr>sub_tasks := (sub_tasks h)[i := (sub_tasks h ! i)\<lparr>tk_end := Some r\<rparr>]\<rparr>)"

lemma handler_step_inv: "handler_step h h' \<Longrightarrow> handler_inv h \<Longrightarrow> handler_inv h'"
proof (induction rule: handler_step.induct)
  case (step_update h m b)
  then show ?case using update_bps_inv [of h m b] by (metis prod.collapse)
next
  case (step_set_max h b)
  then show ?case using set_max_bps_inv [of h b] by (metis prod.collapse)
next
  case (step_sync new latest h)
  then show ?case using update_list_inv [of h new latest] by (metis prod.collapse)
next
  case (step_task h i r)
  then show ?case by (intro task_ends_inv) (simp_all add: live_def)
qed

interpretation handlers: machine "\<lambda>h. \<exists>mode b cl. h = new_handler mode b cl" handler_step handler_inv
proof
  show "handler_inv h" if "\<exists>mode b cl. h = new_handler mode b cl" for h
    using that by (auto simp: handler_inv_def new_handler_def dict_ok_def live_def)
qed (rule handler_step_inv)

lemma cancel_and_await_live:
  "cancel_and_await i h = (r, h') \<Longrightarrow> i < length (sub_tasks h) \<Longrightarrow>
    length (sub_tasks h') = length (sub_tasks h) \<and> (\<forall>j. live h' j \<longleftrightarrow> live h j \<and> j \<noteq> i)"
  using cancel_and_await_state by blast

lemma cancel_all_live:
  "list_all (\<lambda>i. i < length (sub_tasks h)) is \<Longrightarrow> cancel_all is h = (r, h') \<Longrightarrow>
    (\<forall>j. live h' j \<longrightarrow> live h j) \<and> (\<forall>j. live h j \<longrightarrow> j \<notin> set is \<longrightarrow> live h' j) \<and>
    (r = Inr () \<longrightarrow> (\<forall>j \<in> set is. \<not> live h' j))"
proof (induction "is" arbitrary: h)
  case (Cons i "is")
  obtain r1 h1 where 1: "cancel_and_await i h = (r1, h1)" by fastforce
  have i: "i < length (sub_tasks h)" using Cons.prems(1) by simp
  note s = cancel_and_await_live [OF 1 i]
  show ?case
  proof (cases r1)
    case (Inl e)
    then have "h' = h1" "r = Inl e" using Cons.prems(2) 1 by (auto simp: abind_def)
    with s show ?thesis by auto
  next
    case (Inr y)
    then have c: "cancel_all is h1 = (r, h')" using Cons.prems(2) 1 by (auto simp: abind_def)
    have a: "list_all (\<lambda>i. i < length (sub_tasks h1)) is" using s Cons.prems(1) by simp
    have ih: "(\<forall>j. live h' j \<longrightarrow> live h1 j) \<and> (\<forall>j. live h1 j \<longrightarrow> j \<notin> set is \<longrightarrow> live h' j) \<and>
        (r = Inr () \<longrightarrow> (\<forall>j \<in> set is. \<not> live h' j))"
      by (rule Cons.IH [OF a c])
    have l: "live h1 j \<longleftrightarrow> live h j \<and> j \<noteq> i" for j using s by blast
    show ?thesis unfolding list.set insert_iff ball_simps using ih l by blast
  qed
qed simp

lemma handler_exit_cancels: "handler_exit sync h = (Inr x, h') \<Longrightarrow>
    cancel_all (map snd (metric_subscriptions h)) h = (Inr (), h')"
  by (auto simp: handler_exit_def split: option.splits sum.splits if_splits)

lemma registered_valid: "handler_inv h \<Longrightarrow> list_all (\<lambda>i. i < length (sub_tasks h)) (map snd (metric_subscriptions h))"
proof -
  assume h: "handler_inv h"
  have "i < length (sub_tasks h)" if "(m, i) \<in> set (metric_subscriptions h)" for m i
    using that handler_invD(2,4) [OF h] map_of_is_SomeI [of "metric_subscriptions h" m i] by (auto simp: dict_ok_def)
  then show ?thesis by (auto simp: list_all_iff)
qed

subsection \<open>Lemmas: operations that succeed\<close>

text \<open>A task that, when awaited after a cancellation, raises nothing; with such tasks no operation fails.\<close>

definition unfailed :: "sub_task \<Rightarrow> bool" where
  "unfailed t \<longleftrightarrow> (case tk_end t of Some (Inl e) \<Rightarrow> e = CancelledError | _ \<Rightarrow> True)"

text \<open>No task has failed, and none will when it is cancelled.\<close>

definition quiet :: "metric_handler \<Rightarrow> bool" where
  "quiet h \<longleftrightarrow> list_all unfailed (sub_tasks h) \<and> (\<forall>i. closing h i = Inr ())"

definition unfailed_inv :: "metric_handler \<Rightarrow> bool" where
  "unfailed_inv h \<longleftrightarrow> handler_inv h \<and> quiet h"

lemma quiet_simps [simp]:
  "quiet (h\<lparr>metrics := d\<rparr>) = quiet h" "quiet (h\<lparr>updated := up\<rparr>) = quiet h" "quiet (h\<lparr>max_bps := b\<rparr>) = quiet h"
  "quiet (create_sub m b h) = quiet h"
  by (auto simp: quiet_def create_sub_def unfailed_def)

lemma cancel_and_await_ok:
  assumes "quiet h" "i < length (sub_tasks h)"
  shows "\<exists>h'. cancel_and_await i h = (Inr (), h') \<and> quiet h' \<and> metric_subscriptions h' = metric_subscriptions h \<and>
    length (sub_tasks h') = length (sub_tasks h)"
proof -
  have "unfailed (sub_tasks h ! i)" using assms by (simp add: list_all_length quiet_def)
  then show ?thesis using assms
    by (auto simp: cancel_and_await_def unfailed_def quiet_def list_all_length nth_list_update awaited_def
        split: option.splits sum.splits)
qed

lemma cancel_all_ok:
  "quiet h \<Longrightarrow> list_all (\<lambda>i. i < length (sub_tasks h)) is \<Longrightarrow> \<exists>h'. cancel_all is h = (Inr (), h') \<and> quiet h'"
proof (induction "is" arbitrary: h)
  case (Cons i "is")
  obtain h1 where 1: "cancel_and_await i h = (Inr (), h1)" "quiet h1" "length (sub_tasks h1) = length (sub_tasks h)"
    using cancel_and_await_ok [of h i] Cons.prems by auto
  with Cons.IH [OF 1(2)] Cons.prems(2) show ?case by (simp add: abind_def)
qed simp

lemma update_bps_ok:
  assumes "unfailed_inv h"
  shows "\<exists>h'. update_bps m b h = (Inr (), h') \<and> unfailed_inv h' \<and> map fst (metrics h') = map fst (metrics h)"
proof -
  have inv: "handler_inv h" "quiet h" using assms by (simp_all add: unfailed_inv_def)
  have "\<exists>h'. update_bps m b h = (Inr (), h') \<and> quiet h'"
  proof (cases "m \<in> dom (map_of (metrics h))")
    case False
    with inv show ?thesis by (simp add: update_bps_def update_begin_def in_dict abind_def)
  next
    case True
    then obtain i where i: "map_of (metric_subscriptions h) m = Some i" using handler_invD(3) [OF inv(1)] by blast
    let ?h1 = "h\<lparr>metrics := dict_set m b (metrics h)\<rparr>"
    obtain h2 where h2: "cancel_and_await i ?h1 = (Inr (), h2)" "quiet h2"
      using cancel_and_await_ok [of ?h1 i] inv(2) handler_invD(4) [OF inv(1) i] by auto
    then show ?thesis using True i
      by (auto simp: update_bps_def update_begin_def in_dict abind_def)
  qed
  then show ?thesis using update_bps_inv [OF inv(1)] by (fastforce simp: unfailed_inv_def)
qed

lemma update_group_ok:
  "unfailed_inv h \<Longrightarrow> \<exists>h'. update_group b ms h = (True, h') \<and> unfailed_inv h'"
proof (induction ms arbitrary: h)
  case (Cons m ms)
  obtain h1 where 1: "update_bps m b h = (Inr (), h1)" "unfailed_inv h1" using update_bps_ok [OF Cons.prems] by blast
  with Cons.IH [OF 1(2)] show ?case by (auto simp: is_ok_def)
qed simp

lemma redistribute_ok:
  assumes "unfailed_inv h" "metrics h \<noteq> []"
  shows "\<exists>h'. redistribute_bps_fairly h = (Inr (), h') \<and> unfailed_inv h'"
proof -
  obtain h' where "update_group (max_bps h div int (length (metrics h))) (map fst (metrics h)) h = (True, h')" "unfailed_inv h'"
    using update_group_ok [OF assms(1)] by blast
  then show ?thesis using assms(2) by (simp add: redistribute_bps_fairly_def)
qed

lemma add_metric_ok:
  assumes "unfailed_inv h" "m \<notin> fst ` set (metrics h)"
  shows "\<exists>h'. add_metric m h = (Inr (), h') \<and> unfailed_inv h'"
proof -
  have inv: "handler_inv h" "quiet h" using assms by (simp_all add: unfailed_inv_def)
  let ?h1 = "create_sub m 0 (h\<lparr>metrics := dict_set m 0 (metrics h)\<rparr>)"
  have "unfailed_inv ?h1"
    using new_metric_inv [OF inv(1) assms(2)] inv(2) by (simp add: unfailed_inv_def)
  moreover have "metrics ?h1 \<noteq> []" by (cases "metrics h") (auto simp: create_sub_def split: if_splits)
  ultimately show ?thesis using redistribute_ok [of ?h1] by (simp add: add_metric_def Let_def del: u_simps)
qed

lemma add_metrics_ok:
  "unfailed_inv h \<Longrightarrow> distinct ms \<Longrightarrow> set ms \<inter> fst ` set (metrics h) = {} \<Longrightarrow>
    \<exists>h'. add_metrics ms h = (Inr (), h') \<and> unfailed_inv h'"
proof (induction ms arbitrary: h)
  case (Cons m ms)
  obtain h1 where 1: "add_metric m h = (Inr (), h1)" "unfailed_inv h1"
    using add_metric_ok [OF Cons.prems(1), of m] Cons.prems(3) by auto
  have "map fst (metrics h1) = map fst (metrics h) @ [m]"
    using add_metric_inv [OF _ _ 1(1)] Cons.prems by (auto simp: unfailed_inv_def)
  then have "fst ` set (metrics h1) = insert m (fst ` set (metrics h))"
    by (metis Un_insert_right append.right_neutral list.set(1) list.set(2) set_append set_map sup_bot.right_neutral)
  with Cons.IH [OF 1(2)] Cons.prems(2,3) 1(1) show ?case by auto
qed simp

lemma update_list_ok:
  assumes "unfailed_inv h" "\<And>A. A \<subseteq> set ids \<Longrightarrow> set (order A) = A \<and> distinct (order A)"
  shows "\<exists>h'. update_metric_id_list order ids h = (Inr (), h') \<and> unfailed_inv h' \<and>
    fst ` set (metrics h') = fst ` set (metrics h) \<union> set ids"
proof -
  let ?new = "order (set ids - fst ` set (metrics h))"
  have n: "set ?new = set ids - fst ` set (metrics h)" "distinct ?new" using assms(2) [of "set ids - fst ` set (metrics h)"] by auto
  have "unfailed_inv (h\<lparr>updated := True\<rparr>)" using assms(1) by (simp add: unfailed_inv_def handler_inv_def live_def)
  from add_metrics_ok [OF this n(2)] n(1) assms(1)
  obtain h' where h': "update_metric_id_list order ids h = (Inr (), h')" "unfailed_inv h'"
    by (cases "set ids - fst ` set (metrics h) = {}") (auto simp: update_metric_id_list_def Let_def)
  then have "update_metric_id_list (\<lambda>_. ?new) ids h = (Inr (), h')" by (simp add: update_metric_id_list_def Let_def)
  from update_list_inv [OF _ this n] assms(1) have "map fst (metrics h') = map fst (metrics h) @ ?new"
    by (simp add: unfailed_inv_def)
  then have "fst ` set (metrics h') = fst ` set (metrics h) \<union> set ?new" by (metis list.set_map set_append)
  with h' n(1) show ?thesis by auto
qed

text \<open>The ids a read carries, for a read that leaves the loop running.\<close>

definition ids_read :: "pydantic \<Rightarrow> byte list res \<Rightarrow> pystr set" where
  "ids_read P rd =
     (case rd of
        Inl _ \<Rightarrow> {}
      | Inr bs \<Rightarrow> if bs = [] then {} else
          (case client_decode P bs of
             Inl _ \<Rightarrow> {}
           | Inr t \<Rightarrow> (case tm_data t of MetricIdsMsg ids \<Rightarrow> set ids | SampleMsg _ \<Rightarrow> {})))"

definition read_ok :: "pydantic \<Rightarrow> byte list res \<Rightarrow> bool" where
  "read_ok P rd \<longleftrightarrow> (case rd of Inl e \<Rightarrow> e = TimeoutError | Inr bs \<Rightarrow> bs = [] \<or> is_ok (client_decode P bs))"

lemma sync_pass_ok:
  assumes "unfailed_inv h" "read_ok P rd" "\<And>A. A \<subseteq> ids_read P rd \<Longrightarrow> set (order A) = A \<and> distinct (order A)"
  shows "\<exists>h'. sync_pass P order rd h = (Inr (), h') \<and> unfailed_inv h' \<and>
    fst ` set (metrics h') = fst ` set (metrics h) \<union> ids_read P rd"
proof (cases "\<exists>bs t ids. rd = Inr bs \<and> bs \<noteq> [] \<and> client_decode P bs = Inr t \<and> tm_data t = MetricIdsMsg ids")
  case True
  then obtain bs t ids where c: "rd = Inr bs" "bs \<noteq> []" "client_decode P bs = Inr t" "tm_data t = MetricIdsMsg ids"
    by blast
  then have r: "ids_read P rd = set ids" by (simp add: ids_read_def)
  from update_list_ok [OF assms(1) assms(3)] c show ?thesis unfolding r by (simp add: sync_pass_def)
next
  case False
  then have "ids_read P rd = {}" by (auto simp: ids_read_def split: sum.split tm_message.split)
  moreover have "sync_pass P order rd h = (Inr (), h)"
    using assms(2) False by (auto simp: sync_pass_def read_ok_def is_ok_def split: sum.splits tm_message.splits)
  ultimately show ?thesis using assms(1) by simp
qed

lemma sync_passes_ok:
  "unfailed_inv h \<Longrightarrow> list_all (read_ok P) rds \<Longrightarrow>
    (\<And>A. A \<subseteq> \<Union>(ids_read P ` set rds) \<Longrightarrow> set (order A) = A \<and> distinct (order A)) \<Longrightarrow>
    \<exists>h'. sync_passes P order rds h = (Inr (), h') \<and> unfailed_inv h' \<and>
      fst ` set (metrics h') = fst ` set (metrics h) \<union> \<Union>(ids_read P ` set rds)"
proof (induction rds arbitrary: h)
  case (Cons rd rds)
  have o: "set (order A) = A \<and> distinct (order A)" if "A \<subseteq> ids_read P rd \<or> A \<subseteq> \<Union>(ids_read P ` set rds)" for A
    using that by (intro Cons.prems(3)) auto
  obtain h1 where 1: "sync_pass P order rd h = (Inr (), h1)" "unfailed_inv h1"
      "fst ` set (metrics h1) = fst ` set (metrics h) \<union> ids_read P rd"
    using sync_pass_ok [OF Cons.prems(1), of P rd order] o Cons.prems(2) by auto
  with Cons.IH [OF 1(2)] o Cons.prems(2) show ?case by auto
qed simp

subsection \<open>Properties\<close>

text \<open>C14: Whatever operations the handler has run, one after the other, and whatever tasks have ended, each running task is the one
  registered for its metric, it runs at the rate the metric has, and no metric has two.\<close>

theorem running_tasks_registered:
  assumes "reach (\<lambda>h. \<exists>mode b cl. h = new_handler mode b cl) handler_step h" "live h i"
  shows "map_of (metric_subscriptions h) (tk_metric (sub_tasks h ! i)) = Some i \<and>
    (tk_metric (sub_tasks h ! i), tk_bps (sub_tasks h ! i)) \<in> get_metrics h \<and>
    (\<forall>j. live h j \<and> tk_metric (sub_tasks h ! j) = tk_metric (sub_tasks h ! i) \<longrightarrow> j = i)"
proof -
  note inv = handler_invD [OF handlers.reach_inv [OF assms(1)]]
  have "j = i" if "live h j" "tk_metric (sub_tasks h ! j) = tk_metric (sub_tasks h ! i)" for j
    using inv(5) [OF that(1)] inv(5) [OF assms(2)] that(2) by (metis option.inject)
  then show ?thesis
    using inv(5) [OF assms(2)] map_of_SomeD [OF inv(6) [OF assms(2)]] by (simp add: get_metrics_def)
qed

definition demo_handler :: metric_handler where
  "demo_handler = snd (update_metric_id_list (\<lambda>_. [u ''a'', u ''b'']) [u ''a'', u ''b''] (new_handler (u ''fair'') 1001 (\<lambda>_. Inr ())))"

lemma demo_handler_reach: "reach (\<lambda>h. \<exists>mode b cl. h = new_handler mode b cl) handler_step demo_handler"
proof -
  have "handler_step (new_handler (u ''fair'') 1001 (\<lambda>_. Inr ())) demo_handler"
    unfolding demo_handler_def by (rule step_sync) (auto simp: new_handler_def)
  moreover have "reach (\<lambda>h. \<exists>mode b cl. h = new_handler mode b cl) handler_step (new_handler (u ''fair'') 1001 (\<lambda>_. Inr ()))"
    by (rule reach_start) blast
  ultimately show ?thesis by (blast intro: reach_step)
qed

lemma demo_handler_eq: "demo_handler =
  \<lparr>max_bps = 1001, metrics = [(u ''a'', 500), (u ''b'', 500)],
   metric_subscriptions = [(u ''a'', 3), (u ''b'', 4)],
   sub_tasks =
     [\<lparr>tk_metric = u ''a'', tk_bps = 0, tk_end = Some (Inl CancelledError)\<rparr>,
      \<lparr>tk_metric = u ''a'', tk_bps = 1001, tk_end = Some (Inl CancelledError)\<rparr>,
      \<lparr>tk_metric = u ''b'', tk_bps = 0, tk_end = Some (Inl CancelledError)\<rparr>,
      \<lparr>tk_metric = u ''a'', tk_bps = 500, tk_end = None\<rparr>,
      \<lparr>tk_metric = u ''b'', tk_bps = 500, tk_end = None\<rparr>],
   updated = True, bps_distribution_mode = u ''fair'', closing = \<lambda>_. Inr ()\<rparr>"
  by (simp add: demo_handler_def update_metric_id_list_def new_handler_def add_metric_def create_sub_def
      redistribute_bps_fairly_def update_bps_def update_begin_def cancel_and_await_def abind_def is_ok_def)

theorem running_tasks_registered_witness:
  "live demo_handler 4 \<and> (u ''b'', 500) \<in> get_metrics demo_handler"
proof -
  have l: "live demo_handler 4" by (simp add: live_def demo_handler_eq)
  from running_tasks_registered [OF demo_handler_reach l] l show ?thesis
    by (simp add: demo_handler_eq get_metrics_def)
qed

text \<open>C16: A redistribution that succeeds gives every metric the same share, the maximal rate over the number of
  metrics rounded down, with a running task at that rate; together they never exceed the maximum and
  leave less than one unit per metric unused.\<close>

theorem redistribute_fair:
  assumes "reach (\<lambda>h. \<exists>mode b cl. h = new_handler mode b cl) handler_step h" "redistribute_bps_fairly h = (Inr (), h')"
  shows "let n = int (length (metrics h)); share = max_bps h div n in
    map fst (metrics h') = map fst (metrics h) \<and>
    (\<forall>m \<in> fst ` set (metrics h'). served h' m share) \<and>
    sum_list (map snd (metrics h')) = n * share \<and> n * share \<le> max_bps h \<and> max_bps h < n * share + n"
proof -
  let ?n = "int (length (metrics h))"
  let ?s = "max_bps h div ?n"
  have n: "0 < ?n" using assms(2) by (auto simp: redistribute_bps_fairly_def)
  note r = redistribute_inv [OF handlers.reach_inv [OF assms(1)] assms(2)]
  then have k: "map fst (metrics h') = map fst (metrics h)" by blast
  then have d: "fst ` set (metrics h') = dom (map_of (metrics h))"
    by (metis dom_map_of_conv_image_fst set_map)
  have s: "\<forall>m \<in> fst ` set (metrics h'). served h' m ?s" unfolding d using r by blast
  have "b = ?s" if mb: "(m, b) \<in> set (metrics h')" for m b
  proof -
    have "map_of (metrics h') m = Some ?s" using s that by (auto simp: served_def)
    moreover have "map_of (metrics h') m = Some b" using map_of_is_SomeI mb r handler_invD(1) unfolding dict_ok_def by metis
    ultimately show ?thesis by simp
  qed
  then have "map snd (metrics h') = replicate (length (metrics h')) ?s"
    by (intro replicate_eqI) auto
  moreover have "length (metrics h') = length (metrics h)" using k by (metis length_map)
  ultimately have "sum_list (map snd (metrics h')) = ?n * ?s" by (simp add: sum_list_replicate)
  moreover have "?n * ?s \<le> max_bps h" "max_bps h < ?n * ?s + ?n"
    using n pos_mod_bound [of ?n "max_bps h"] pos_mod_sign [of ?n "max_bps h"] mult_div_mod_eq [of ?n "max_bps h"]
    by linarith+
  ultimately show ?thesis using k s by (simp add: Let_def)
qed

theorem redistribute_fair_witness:
  "\<exists>h'. redistribute_bps_fairly demo_handler = (Inr (), h') \<and> sum_list (map snd (metrics h')) = 1000"
proof -
  have "\<exists>h'. redistribute_bps_fairly demo_handler = (Inr (), h')"
    by (simp add: demo_handler_eq create_sub_def
      redistribute_bps_fairly_def update_bps_def update_begin_def cancel_and_await_def abind_def is_ok_def)
  then obtain h' where h': "redistribute_bps_fairly demo_handler = (Inr (), h')" by blast
  from redistribute_fair [OF demo_handler_reach this] have "sum_list (map snd (metrics h')) = 1000"
    by (simp add: demo_handler_eq Let_def)
  with h' show ?thesis by blast
qed

text \<open>Changing the maximal rate before any metric is known divides by zero: the new maximum is stored and the
  exception is raised.\<close>

theorem set_max_bps_without_metrics:
  "set_max_bps b (new_handler mode b0 cl) =
    (if b = b0 then (Inr (), new_handler mode b0 cl) else (Inl ZeroDivisionError, new_handler mode b cl))"
  by (simp add: set_max_bps_def redistribute_bps_fairly_def new_handler_def)

text \<open>After an update of the metric list that succeeds the handler knows exactly the metrics it knew before and
  those listed, in that order and each once.\<close>

theorem update_list_metrics:
  assumes "reach (\<lambda>h. \<exists>mode b cl. h = new_handler mode b cl) handler_step h"
    and "set new = set latest - fst ` set (metrics h)" "distinct new"
    and "update_metric_id_list (\<lambda>_. new) latest h = (Inr (), h')"
  shows "map fst (metrics h') = map fst (metrics h) @ new \<and> distinct (map fst (metrics h')) \<and>
    fst ` set (metrics h') = fst ` set (metrics h) \<union> set latest"
proof -
  note r = update_list_inv [OF handlers.reach_inv [OF assms(1)] assms(4,2,3)]
  then have "map fst (metrics h') = map fst (metrics h) @ new" by blast
  moreover from this have "fst ` set (metrics h') = fst ` set (metrics h) \<union> set new"
    by (metis list.set_map set_append)
  moreover have "distinct (map fst (metrics h'))" using r handler_invD(1) unfolding dict_ok_def by blast
  ultimately show ?thesis using assms(2) by auto
qed

theorem update_list_metrics_witness:
  "\<exists>h'. update_metric_id_list (\<lambda>_. []) [u ''b''] demo_handler = (Inr (), h') \<and> map fst (metrics h') = [u ''a'', u ''b'']"
proof -
  have s: "set [] = set [u ''b''] - fst ` set (metrics demo_handler)" by (simp add: demo_handler_eq)
  have "update_metric_id_list (\<lambda>_. []) [u ''b''] demo_handler = (Inr (), demo_handler)"
    by (simp add: update_metric_id_list_def demo_handler_eq)
  with update_list_metrics [OF demo_handler_reach s _ this] show ?thesis by (simp add: demo_handler_eq)
qed



text \<open>Two updates of the same metric that overlap at their \<open>await\<close> leave two running tasks for it, only one of
  them registered; the other keeps running after the handler was left.\<close>

theorem overlapping_updates_leak:
  assumes "handler_inv h" "served h m b0" "\<And>i. closing h i = Inr ()"
  shows "\<exists>h1 h2. update_begin m b1 h = (Inr True, h1) \<and> update_begin m b2 h1 = (Inr True, h2) \<and>
    (let i = length (sub_tasks h2); h' = create_sub m b2 (create_sub m b1 h2) in
      live h' i \<and> live h' (Suc i) \<and> tk_metric (sub_tasks h' ! i) = m \<and> tk_metric (sub_tasks h' ! Suc i) = m \<and>
      (\<forall>sync. live (snd (handler_exit sync h')) i))"
proof -
  from assms(2) obtain i0 where i0: "map_of (metric_subscriptions h) m = Some i0" "live h i0" "m \<in> fst ` set (metrics h)"
    by (auto simp: served_def in_dict)
  let ?t = "(sub_tasks h ! i0)\<lparr>tk_end := Some (Inl CancelledError)\<rparr>"
  let ?h1 = "h\<lparr>metrics := dict_set m b1 (metrics h), sub_tasks := (sub_tasks h)[i0 := ?t]\<rparr>"
  let ?h2 = "?h1\<lparr>metrics := dict_set m b2 (metrics ?h1)\<rparr>"
  have 1: "update_begin m b1 h = (Inr True, ?h1)"
    using i0 assms(3) by (simp add: update_begin_def cancel_and_await_def live_def abind_def)
  have 2: "update_begin m b2 ?h1 = (Inr True, ?h2)"
    using i0 assms(3) by (simp add: update_begin_def cancel_and_await_def live_def abind_def keys_dict_set)
  let ?i = "length (sub_tasks ?h2)"
  let ?h' = "create_sub m b2 (create_sub m b1 ?h2)"
  have l: "live ?h' ?i" "live ?h' (Suc ?i)" "tk_metric (sub_tasks ?h' ! ?i) = m" "tk_metric (sub_tasks ?h' ! Suc ?i) = m"
    by (simp_all add: create_sub_def live_def nth_append)
  have subs: "dict_ok (metric_subscriptions ?h')" "map_of (metric_subscriptions ?h') = (map_of (metric_subscriptions h))(m \<mapsto> Suc ?i)"
      "length (sub_tasks ?h') = Suc (Suc ?i)"
    using handler_invD(2) [OF assms(1)] by (simp_all add: create_sub_def dict_set_ok dict_simps)
  have reg: "j \<noteq> ?i \<and> j < Suc (Suc ?i)" if "j \<in> set (map snd (metric_subscriptions ?h'))" for j
  proof -
    from that obtain m' where "(m', j) \<in> set (metric_subscriptions ?h')" by auto
    then have "map_of (metric_subscriptions ?h') m' = Some j"
      using subs(1) by (simp add: dict_ok_def)
    then show ?thesis using subs(2) handler_invD(4) [OF assms(1), of m' j] by (auto split: if_splits)
  qed
  have "live (snd (handler_exit sync ?h')) ?i" for sync
  proof -
    obtain r h3 where 3: "cancel_all (map snd (metric_subscriptions ?h')) ?h' = (r, h3)" by fastforce
    have "list_all (\<lambda>i. i < length (sub_tasks ?h')) (map snd (metric_subscriptions ?h'))"
      unfolding list_all_iff subs(3) using reg by blast
    from cancel_all_live [OF this 3] reg l(1) have "live h3 ?i" by blast
    moreover have "snd (handler_exit sync ?h') = h3 \<or> snd (handler_exit sync ?h') = ?h'"
      by (simp only: handler_exit_def 3 split: option.split sum.split if_split) simp
    ultimately show ?thesis using l(1) by metis
  qed
  with 1 2 l show ?thesis unfolding Let_def by blast
qed

theorem overlapping_updates_leak_witness:
  "\<exists>h1 h2. update_begin (u ''a'') 10 demo_handler = (Inr True, h1) \<and> update_begin (u ''a'') 20 h1 = (Inr True, h2) \<and>
    live (create_sub (u ''a'') 20 (create_sub (u ''a'') 10 h2)) (length (sub_tasks h2))"
proof -
  have "served demo_handler (u ''a'') 500" "closing demo_handler i = Inr ()" for i
    by (simp_all add: served_def demo_handler_eq live_def)
  from overlapping_updates_leak [OF handlers.reach_inv [OF demo_handler_reach] this, of 10 20]
  show ?thesis unfolding Let_def by blast
qed

end
