(* ===== verification/CommandInterleaving.thy ===== *)
theory CommandInterleaving
  imports CommandMetrics
begin

section \<open>Updates of rates, interleaved: command/src/sync_metric_ids.py\<close>

text \<open>
  The coroutines of the metric handler suspend where they await a task they have cancelled. The
  theory takes \<open>update_bps\<close> apart at that point, so that other updates, new metrics, a new maximal
  rate and the end of tasks come in between in any order.
\<close>

subsection \<open>State and steps\<close>

text \<open>
  \<open>hr_cancelled\<close> are the tasks whose cancellation was requested, \<open>hr_waiting\<close> the updates that
  wait for their old task to end: metric, rate and the old task.
\<close>

record handler_run =
  hr_handler :: metric_handler
  hr_cancelled :: "nat set"
  hr_waiting :: "(pystr \<times> int \<times> nat) list"

definition new_run :: "pystr \<Rightarrow> int \<Rightarrow> (nat \<Rightarrow> unit res) \<Rightarrow> handler_run" where
  "new_run mode b cl = \<lparr>hr_handler = new_handler mode b cl, hr_cancelled = {}, hr_waiting = []\<rparr>"

definition update_start :: "pystr \<Rightarrow> int \<Rightarrow> (handler_run, unit) act" where
  "update_start m b = (\<lambda>s.
     (let h = hr_handler s in
      if m \<in> fst ` set (metrics h) then
        (let h1 = h\<lparr>metrics := dict_set m b (metrics h)\<rparr> in
         (case map_of (metric_subscriptions h1) m of
            None \<Rightarrow> (Inl KeyError, s\<lparr>hr_handler := h1\<rparr>)
          | Some i \<Rightarrow> (Inr (), s\<lparr>hr_handler := h1, hr_cancelled := insert i (hr_cancelled s),
              hr_waiting := hr_waiting s @ [(m, b, i)]\<rparr>)))
      else (Inr (), s)))"

definition update_resume :: "pystr \<times> int \<times> nat \<Rightarrow> (handler_run, unit) act" where
  "update_resume w = (\<lambda>s.
     (let s1 = s\<lparr>hr_waiting := remove1 w (hr_waiting s)\<rparr> in
      (case w of (m, b, i) \<Rightarrow>
        (case tk_end (sub_tasks (hr_handler s) ! i) of
           Some (Inl e) \<Rightarrow>
             if e = CancelledError then (Inr (), s1\<lparr>hr_handler := create_sub m b (hr_handler s)\<rparr>) else (Inl e, s1)
         | _ \<Rightarrow> (Inr (), s1\<lparr>hr_handler := create_sub m b (hr_handler s)\<rparr>)))))"

definition start_metric :: "pystr \<Rightarrow> handler_run \<Rightarrow> handler_run" where
  "start_metric m s =
     s\<lparr>hr_handler := create_sub m 0 ((hr_handler s)\<lparr>metrics := dict_set m 0 (metrics (hr_handler s))\<rparr>)\<rparr>"

definition end_task :: "nat \<Rightarrow> unit res \<Rightarrow> handler_run \<Rightarrow> handler_run" where
  "end_task i r s =
     s\<lparr>hr_handler := (hr_handler s)\<lparr>sub_tasks :=
       (sub_tasks (hr_handler s))[i := (sub_tasks (hr_handler s) ! i)\<lparr>tk_end := Some r\<rparr>]\<rparr>\<rparr>"

text \<open>\<open>free\<close> tells which updates may start: all of them, or those of metrics no update waits for.\<close>

inductive run_step :: "(pystr \<Rightarrow> handler_run \<Rightarrow> bool) \<Rightarrow> handler_run \<Rightarrow> handler_run \<Rightarrow> bool" for free where
  run_start: "free m s \<Longrightarrow> run_step free s (snd (update_start m b s))"
| run_resume: "(m, b, i) \<in> set (hr_waiting s) \<Longrightarrow> \<not> live (hr_handler s) i \<Longrightarrow>
    run_step free s (snd (update_resume (m, b, i) s))"
| run_metric: "m \<notin> fst ` set (metrics (hr_handler s)) \<Longrightarrow> run_step free s (start_metric m s)"
| run_end: "live (hr_handler s) i \<Longrightarrow> run_step free s (end_task i r s)"
| run_settings: "run_step free s (s\<lparr>hr_handler := (hr_handler s)\<lparr>max_bps := b, updated := up\<rparr>\<rparr>)"

inductive_cases run_stepE: "run_step free s s'"

definition one_at_a_time :: "pystr \<Rightarrow> handler_run \<Rightarrow> bool" where
  "one_at_a_time m s \<longleftrightarrow> m \<notin> fst ` set (hr_waiting s)"

definition starts :: "handler_run \<Rightarrow> bool" where
  "starts s \<longleftrightarrow> (\<exists>mode b cl. s = new_run mode b cl)"

subsection \<open>The invariant\<close>

text \<open>
  The registered task of a metric an update waits for is being cancelled, and the metric has the
  new rate already; every other running task is the registered one, at the rate of its metric.
\<close>

definition active :: "handler_run \<Rightarrow> nat \<Rightarrow> bool" where
  "active s i \<longleftrightarrow> live (hr_handler s) i \<and> i \<notin> hr_cancelled s"

definition subs_ok :: "metric_handler \<Rightarrow> bool" where
  "subs_ok h \<longleftrightarrow> dict_ok (metrics h) \<and> dict_ok (metric_subscriptions h) \<and>
     dom (map_of (metric_subscriptions h)) = dom (map_of (metrics h)) \<and>
     (\<forall>m i. map_of (metric_subscriptions h) m = Some i \<longrightarrow>
        i < length (sub_tasks h) \<and> tk_metric (sub_tasks h ! i) = m)"

definition waiting_ok :: "handler_run \<Rightarrow> bool" where
  "waiting_ok s \<longleftrightarrow> distinct (map fst (hr_waiting s)) \<and>
     (\<forall>m b i. (m, b, i) \<in> set (hr_waiting s) \<longrightarrow> i \<in> hr_cancelled s \<and>
        map_of (metric_subscriptions (hr_handler s)) m = Some i \<and> map_of (metrics (hr_handler s)) m = Some b) \<and>
     (\<forall>i \<in> hr_cancelled s. i < length (sub_tasks (hr_handler s)))"

definition active_ok :: "handler_run \<Rightarrow> bool" where
  "active_ok s \<longleftrightarrow> (\<forall>i. active s i \<longrightarrow>
     map_of (metric_subscriptions (hr_handler s)) (tk_metric (sub_tasks (hr_handler s) ! i)) = Some i \<and>
     map_of (metrics (hr_handler s)) (tk_metric (sub_tasks (hr_handler s) ! i)) = Some (tk_bps (sub_tasks (hr_handler s) ! i)))"

definition run_inv :: "handler_run \<Rightarrow> bool" where
  "run_inv s \<longleftrightarrow> subs_ok (hr_handler s) \<and> waiting_ok s \<and> active_ok s"

lemma run_invD:
  assumes "run_inv s"
  shows "dict_ok (metrics (hr_handler s))" "dict_ok (metric_subscriptions (hr_handler s))"
    "dom (map_of (metric_subscriptions (hr_handler s))) = dom (map_of (metrics (hr_handler s)))"
    "map_of (metric_subscriptions (hr_handler s)) m = Some i \<Longrightarrow>
      i < length (sub_tasks (hr_handler s)) \<and> tk_metric (sub_tasks (hr_handler s) ! i) = m"
    "active s i \<Longrightarrow> map_of (metric_subscriptions (hr_handler s)) (tk_metric (sub_tasks (hr_handler s) ! i)) = Some i"
    "active s i \<Longrightarrow> map_of (metrics (hr_handler s)) (tk_metric (sub_tasks (hr_handler s) ! i)) = Some (tk_bps (sub_tasks (hr_handler s) ! i))"
    "(m, b, i) \<in> set (hr_waiting s) \<Longrightarrow> i \<in> hr_cancelled s \<and>
      map_of (metric_subscriptions (hr_handler s)) m = Some i \<and> map_of (metrics (hr_handler s)) m = Some b"
    "distinct (map fst (hr_waiting s))" "i \<in> hr_cancelled s \<Longrightarrow> i < length (sub_tasks (hr_handler s))"
    "subs_ok (hr_handler s)" "waiting_ok s"
  using assms unfolding run_inv_def subs_ok_def waiting_ok_def active_ok_def by blast+

text \<open>A task that is created: it is the only one that becomes live, and the registered one.\<close>

lemma create_sub_facts:
  "length (sub_tasks (create_sub m b h)) = Suc (length (sub_tasks h))"
  "metrics (create_sub m b h) = metrics h"
  "map_of (metric_subscriptions (create_sub m b h)) = (map_of (metric_subscriptions h))(m \<mapsto> length (sub_tasks h))"
  "i < length (sub_tasks h) \<Longrightarrow> sub_tasks (create_sub m b h) ! i = sub_tasks h ! i"
  "sub_tasks (create_sub m b h) ! length (sub_tasks h) = \<lparr>tk_metric = m, tk_bps = b, tk_end = None\<rparr>"
  "live (create_sub m b h) i \<longleftrightarrow> live h i \<or> i = length (sub_tasks h)"
  by (auto simp: create_sub_def dict_simps live_def nth_append less_Suc_eq)

lemma create_sub_subs_ok:
  assumes "subs_ok h" "m \<in> dom (map_of (metrics h'))" "metrics h' = dict_set m b (metrics h) \<or> metrics h' = metrics h"
    and "metric_subscriptions h' = metric_subscriptions h" "sub_tasks h' = sub_tasks h"
  shows "subs_ok (create_sub m b h')"
proof -
  have d: "dict_ok (metrics h')" "insert m (dom (map_of (metrics h))) = dom (map_of (metrics h'))"
    using assms(1-3) by (auto simp: subs_ok_def dict_set_ok dict_simps)
  have "dict_ok (metric_subscriptions (create_sub m b h'))"
    using assms(1,4) by (simp add: create_sub_def dict_set_ok subs_ok_def)
  moreover have "i < length (sub_tasks (create_sub m b h')) \<and> tk_metric (sub_tasks (create_sub m b h') ! i) = m'"
    if "map_of (metric_subscriptions (create_sub m b h')) m' = Some i" for m' i
    using that assms(1,4,5) create_sub_facts(4) [of i h' m b] create_sub_facts(5) [of m b h', unfolded assms(5)]
    by (auto simp: create_sub_facts(1,3) subs_ok_def less_Suc_eq split: if_splits)
  moreover have "dom (map_of (metric_subscriptions (create_sub m b h'))) = dom (map_of (metrics h'))"
    using assms(1,4) d(2) by (auto simp: create_sub_facts subs_ok_def)
  ultimately show ?thesis using d(1) by (simp add: subs_ok_def create_sub_facts(2))
qed

lemma start_inv:
  assumes "run_inv s" "one_at_a_time m s"
  shows "run_inv (snd (update_start m b s))"
proof (cases "m \<in> fst ` set (metrics (hr_handler s))")
  case True
  let ?h = "hr_handler s"
  from True obtain i where i: "map_of (metric_subscriptions ?h) m = Some i" "i < length (sub_tasks ?h)"
    using run_invD(3) [OF assms(1)] run_invD(4) [OF assms(1), of m] unfolding in_dict by blast
  have only: "tk_metric (sub_tasks ?h ! j) = m \<Longrightarrow> j = i" if "active s j" for j
    using assms(1) that i(1) unfolding run_inv_def active_ok_def by (metis option.inject)
  let ?s = "s\<lparr>hr_handler := ?h\<lparr>metrics := dict_set m b (metrics ?h)\<rparr>, hr_cancelled := insert i (hr_cancelled s),
      hr_waiting := hr_waiting s @ [(m, b, i)]\<rparr>"
  have "snd (update_start m b s) = ?s" using True i by (simp add: update_start_def Let_def)
  moreover have "subs_ok (hr_handler ?s)"
    using assms(1) True by (auto simp: run_inv_def subs_ok_def dict_set_ok dict_simps in_dict)
  moreover have "waiting_ok ?s"
    using assms i unfolding run_inv_def waiting_ok_def one_at_a_time_def by (force simp: dict_simps)
  moreover have "active_ok ?s" unfolding active_ok_def
  proof (intro allI impI)
    fix j assume "active ?s j"
    then have j: "active s j" "j \<noteq> i" by (auto simp: active_def live_def)
    with only have "tk_metric (sub_tasks ?h ! j) \<noteq> m" by blast
    with assms(1) j(1) show "map_of (metric_subscriptions (hr_handler ?s)) (tk_metric (sub_tasks (hr_handler ?s) ! j)) = Some j \<and>
        map_of (metrics (hr_handler ?s)) (tk_metric (sub_tasks (hr_handler ?s) ! j)) = Some (tk_bps (sub_tasks (hr_handler ?s) ! j))"
      by (simp add: run_inv_def active_ok_def dict_simps)
  qed
  ultimately show ?thesis by (simp add: run_inv_def)
next
  case False
  with assms(1) show ?thesis by (simp add: update_start_def)
qed

lemma end_task_facts:
  "metrics (hr_handler (end_task i r s)) = metrics (hr_handler s)"
  "metric_subscriptions (hr_handler (end_task i r s)) = metric_subscriptions (hr_handler s)"
  "length (sub_tasks (hr_handler (end_task i r s))) = length (sub_tasks (hr_handler s))"
  "hr_waiting (end_task i r s) = hr_waiting s" "hr_cancelled (end_task i r s) = hr_cancelled s"
  by (simp_all add: end_task_def)

lemma nth_updated: "xs[i := x] ! j = (if i = j \<and> i < length xs then x else xs ! j)"
  by (cases "i < length xs") (simp_all add: nth_list_update list_update_beyond)

lemma end_task_tasks:
  "tk_metric (sub_tasks (hr_handler (end_task i r s)) ! j) = tk_metric (sub_tasks (hr_handler s) ! j)"
  "tk_bps (sub_tasks (hr_handler (end_task i r s)) ! j) = tk_bps (sub_tasks (hr_handler s) ! j)"
  "active (end_task i r s) j \<Longrightarrow> active s j"
  by (auto simp: end_task_def nth_updated active_def live_def split: if_splits)

lemma end_inv:
  assumes "run_inv s"
  shows "run_inv (end_task i r s)"
proof -
  note inv = run_invD [OF assms]
  have "subs_ok (hr_handler (end_task i r s))"
    using inv(10) by (simp add: subs_ok_def end_task_facts end_task_tasks(1))
  moreover have "waiting_ok (end_task i r s)"
    using inv(11) by (simp add: waiting_ok_def end_task_facts)
  moreover have "active_ok (end_task i r s)" unfolding active_ok_def
    using end_task_tasks(3) inv(5,6) by (simp add: end_task_facts end_task_tasks(1,2))
  ultimately show ?thesis by (simp add: run_inv_def)
qed

lemma metric_inv:
  assumes "run_inv s" "m \<notin> fst ` set (metrics (hr_handler s))"
  shows "run_inv (start_metric m s)"
proof -
  let ?h = "hr_handler s"
  let ?h1 = "?h\<lparr>metrics := dict_set m 0 (metrics ?h)\<rparr>"
  note inv = run_invD [OF assms(1)]
  have none: "m \<notin> dom (map_of (metric_subscriptions ?h))" "map_of (metrics ?h) m = None"
    using assms(2) inv(3) by (auto simp: in_dict)
  have "subs_ok (create_sub m 0 ?h1)"
    by (rule create_sub_subs_ok [OF inv(10)]) (simp_all add: dict_simps)
  moreover have "waiting_ok (start_metric m s)" unfolding waiting_ok_def
  proof (intro conjI allI impI ballI)
    show "distinct (map fst (hr_waiting (start_metric m s)))" using inv(8) by (simp add: start_metric_def)
  next
    fix m' b i assume "(m', b, i) \<in> set (hr_waiting (start_metric m s))"
    then have w: "(m', b, i) \<in> set (hr_waiting s)" by (simp add: start_metric_def)
    with inv(7) [OF w] none show "i \<in> hr_cancelled (start_metric m s)"
      "map_of (metric_subscriptions (hr_handler (start_metric m s))) m' = Some i"
      "map_of (metrics (hr_handler (start_metric m s))) m' = Some b"
      by (auto simp: start_metric_def create_sub_facts dict_simps)
  next
    fix i assume "i \<in> hr_cancelled (start_metric m s)"
    then show "i < length (sub_tasks (hr_handler (start_metric m s)))"
      using inv(9) [of i] by (simp add: start_metric_def create_sub_facts less_SucI)
  qed
  moreover have "active_ok (start_metric m s)" unfolding active_ok_def
  proof (intro allI impI)
    fix i assume "active (start_metric m s) i"
    moreover have "live ?h1 i \<longleftrightarrow> live ?h i" by (simp add: live_def)
    ultimately consider "active s i" "i < length (sub_tasks ?h)" | "i = length (sub_tasks ?h)"
      using create_sub_facts(6) [of m 0 ?h1 i] by (auto simp: active_def start_metric_def live_def [of ?h])
    then show "map_of (metric_subscriptions (hr_handler (start_metric m s))) (tk_metric (sub_tasks (hr_handler (start_metric m s)) ! i)) = Some i \<and>
      map_of (metrics (hr_handler (start_metric m s))) (tk_metric (sub_tasks (hr_handler (start_metric m s)) ! i)) =
        Some (tk_bps (sub_tasks (hr_handler (start_metric m s)) ! i))"
    proof cases
      case 1
      with inv(5,6) [OF 1(1)] none create_sub_facts(4) [of i ?h1 m 0] show ?thesis
        by (auto simp: start_metric_def create_sub_facts(2,3) dict_simps)
    next
      case 2
      with create_sub_facts(5) [of m 0 ?h1] show ?thesis
        by (simp add: start_metric_def create_sub_facts(2,3) dict_simps)
    qed
  qed
  ultimately show ?thesis by (simp add: run_inv_def start_metric_def)
qed

lemma resume_inv:
  assumes "run_inv s" "(m, b, i) \<in> set (hr_waiting s)" "\<not> live (hr_handler s) i"
  shows "run_inv (snd (update_resume (m, b, i) s))"
proof -
  let ?h = "hr_handler s"
  let ?s1 = "s\<lparr>hr_waiting := remove1 (m, b, i) (hr_waiting s)\<rparr>"
  note inv = run_invD [OF assms(1)]
  note w = inv(7) [OF assms(2)]
  have other: "m' \<noteq> m \<and> (m', b', i') \<in> set (hr_waiting s)" if "(m', b', i') \<in> set (hr_waiting ?s1)" for m' b' i'
  proof -
    have "distinct (hr_waiting s)" using inv(8) by (simp add: distinct_map)
    with that have "(m', b', i') \<in> set (hr_waiting s)" "(m', b', i') \<noteq> (m, b, i)" by auto
    with inv(8) assms(2) show ?thesis by (metis eq_key_imp_eq_value)
  qed
  have d: "distinct (map fst (hr_waiting ?s1))" using inv(8) by (simp add: distinct_map distinct_remove1 inj_on_def set_remove1_eq)
  have i1: "run_inv ?s1"
  proof -
    have "waiting_ok ?s1" unfolding waiting_ok_def
    proof (intro conjI allI impI ballI)
      show "distinct (map fst (hr_waiting ?s1))" by (rule d)
    next
      fix m' b' i' assume "(m', b', i') \<in> set (hr_waiting ?s1)"
      with other have "(m', b', i') \<in> set (hr_waiting s)" by blast
      from inv(7) [OF this] show "i' \<in> hr_cancelled ?s1" "map_of (metric_subscriptions (hr_handler ?s1)) m' = Some i'"
        "map_of (metrics (hr_handler ?s1)) m' = Some b'"
        by simp_all
    next
      fix j assume "j \<in> hr_cancelled ?s1"
      then show "j < length (sub_tasks (hr_handler ?s1))" using inv(9) [of j] by simp
    qed
    moreover have "active ?s1 = active s" by (simp add: active_def fun_eq_iff)
    ultimately show ?thesis using assms(1) by (simp add: run_inv_def active_ok_def)
  qed
  have "run_inv (?s1\<lparr>hr_handler := create_sub m b ?h\<rparr>)"
  proof -
    let ?s = "?s1\<lparr>hr_handler := create_sub m b ?h\<rparr>"
    have mem: "m \<in> dom (map_of (metrics ?h))" using w by auto
    have "subs_ok (hr_handler ?s)"
      using create_sub_subs_ok [OF inv(10) mem] by simp
    moreover have "waiting_ok ?s" unfolding waiting_ok_def
    proof (intro conjI allI impI ballI)
      show "distinct (map fst (hr_waiting ?s))" using d by simp
    next
      fix m' b' i' assume "(m', b', i') \<in> set (hr_waiting ?s)"
      then have "m' \<noteq> m \<and> (m', b', i') \<in> set (hr_waiting s)" by (intro other) simp
      then have "m' \<noteq> m" "(m', b', i') \<in> set (hr_waiting s)" by blast+
      with inv(7) [of m' b' i'] show "i' \<in> hr_cancelled ?s" "map_of (metric_subscriptions (hr_handler ?s)) m' = Some i'"
        "map_of (metrics (hr_handler ?s)) m' = Some b'"
        by (simp_all add: create_sub_facts(2,3))
    next
      fix j assume "j \<in> hr_cancelled ?s"
      then show "j < length (sub_tasks (hr_handler ?s))" using inv(9) [of j] by (simp add: create_sub_facts less_SucI)
    qed
    moreover have "active_ok ?s" unfolding active_ok_def
    proof (intro allI impI)
      fix j assume "active ?s j"
      then consider "active s j" "j < length (sub_tasks ?h)" | "j = length (sub_tasks ?h)"
        using create_sub_facts(6) [of m b ?h j] by (auto simp: active_def live_def [of ?h])
      then show "map_of (metric_subscriptions (hr_handler ?s)) (tk_metric (sub_tasks (hr_handler ?s) ! j)) = Some j \<and>
        map_of (metrics (hr_handler ?s)) (tk_metric (sub_tasks (hr_handler ?s) ! j)) = Some (tk_bps (sub_tasks (hr_handler ?s) ! j))"
      proof cases
        case 1
        have "tk_metric (sub_tasks ?h ! j) \<noteq> m"
        proof
          assume "tk_metric (sub_tasks ?h ! j) = m"
          with inv(5) [OF 1(1)] w have "j = i" by simp
          with 1(1) w show False by (simp add: active_def)
        qed
        with inv(5,6) [OF 1(1)] create_sub_facts(4) [OF 1(2), of m b] show ?thesis by (simp add: create_sub_facts(2,3))
      next
        case 2
        with create_sub_facts(5) [of m b ?h] w show ?thesis by (simp add: create_sub_facts(2,3))
      qed
    qed
    ultimately show ?thesis by (simp add: run_inv_def)
  qed
  with i1 show ?thesis by (auto simp: update_resume_def Let_def split: option.split sum.split)
qed

lemma settings_inv:
  assumes "run_inv s"
  shows "run_inv (s\<lparr>hr_handler := (hr_handler s)\<lparr>max_bps := b, updated := up\<rparr>\<rparr>)"
proof -
  let ?s = "s\<lparr>hr_handler := (hr_handler s)\<lparr>max_bps := b, updated := up\<rparr>\<rparr>"
  have "active ?s = active s" by (simp add: active_def live_def fun_eq_iff)
  with assms show ?thesis by (simp add: run_inv_def subs_ok_def waiting_ok_def active_ok_def)
qed

interpretation interleaved: machine starts "run_step one_at_a_time" run_inv
proof
  show "run_inv s" if "starts s" for s
    using that by (auto simp: starts_def new_run_def new_handler_def run_inv_def subs_ok_def waiting_ok_def active_ok_def
        active_def live_def dict_ok_def)
next
  fix s s'
  assume "run_inv s" "run_step one_at_a_time s s'"
  then show "run_inv s'"
    by (auto elim!: run_stepE intro: start_inv resume_inv metric_inv end_inv settings_inv)
qed

text \<open>
  What every interleaving keeps, overlapping updates included: each metric has a task of its own that is registered,
  an update waits for a task it has cancelled, and a cancelled task that still runs is waited for.
\<close>

definition loose_inv :: "handler_run \<Rightarrow> bool" where
  "loose_inv s \<longleftrightarrow> subs_ok (hr_handler s) \<and>
     (\<forall>w \<in> set (hr_waiting s). snd (snd w) \<in> hr_cancelled s \<and> fst w \<in> fst ` set (metrics (hr_handler s))) \<and>
     (\<forall>i \<in> hr_cancelled s. i < length (sub_tasks (hr_handler s)) \<and>
        (live (hr_handler s) i \<longrightarrow> i \<in> (\<lambda>w. snd (snd w)) ` set (hr_waiting s)))"

lemma subs_ok_registered:
  assumes "subs_ok h" "m \<in> fst ` set (metrics h)"
  obtains i where "map_of (metric_subscriptions h) m = Some i" "i < length (sub_tasks h)"
  using assms unfolding subs_ok_def in_dict by blast

lemma loose_start:
  assumes "loose_inv s"
  shows "loose_inv (snd (update_start m b s))"
proof (cases "m \<in> fst ` set (metrics (hr_handler s))")
  case True
  have "subs_ok (hr_handler s)" using assms by (simp add: loose_inv_def)
  from this True obtain i where i: "map_of (metric_subscriptions (hr_handler s)) m = Some i" "i < length (sub_tasks (hr_handler s))"
    by (rule subs_ok_registered)
  with True assms show ?thesis
    by (auto simp: update_start_def Let_def loose_inv_def subs_ok_def dict_set_ok dict_simps in_dict live_def)
qed (use assms in \<open>simp add: update_start_def\<close>)

lemma loose_create:
  assumes "loose_inv s" "subs_ok (create_sub m b h)" "sub_tasks h = sub_tasks (hr_handler s)"
    and "fst ` set (metrics (hr_handler s)) \<subseteq> fst ` set (metrics h)"
    and "\<And>w. w \<in> set (hr_waiting s) \<Longrightarrow> w \<notin> set ws \<Longrightarrow> \<not> live (hr_handler s) (snd (snd w))" "set ws \<subseteq> set (hr_waiting s)"
  shows "loose_inv (s\<lparr>hr_waiting := ws, hr_handler := create_sub m b h\<rparr>)"
proof -
  have l: "live h = live (hr_handler s)" using assms(3) by (simp add: live_def fun_eq_iff)
  have "i \<in> (\<lambda>w. snd (snd w)) ` set ws" if "i \<in> hr_cancelled s" "live (create_sub m b h) i" for i
  proof -
    have i: "i < length (sub_tasks (hr_handler s))" "live (hr_handler s) i \<longrightarrow> i \<in> (\<lambda>w. snd (snd w)) ` set (hr_waiting s)"
      using assms(1) that(1) by (simp_all add: loose_inv_def)
    moreover have "live (hr_handler s) i" using that(2) i(1) unfolding create_sub_facts(6) l assms(3) by simp
    ultimately show ?thesis using assms(5) by blast
  qed
  moreover have "snd (snd w) \<in> hr_cancelled s \<and> fst w \<in> fst ` set (metrics h)" if "w \<in> set ws" for w
    using that assms(1,4,6) unfolding loose_inv_def by blast
  moreover have "i < length (sub_tasks (create_sub m b h))" if "i \<in> hr_cancelled s" for i
    using that assms(1,3) by (simp add: loose_inv_def create_sub_facts(1) less_SucI)
  ultimately show ?thesis using assms(2) by (simp add: loose_inv_def create_sub_facts(2))
qed

lemma loose_resume:
  assumes "loose_inv s" "(m, b, i) \<in> set (hr_waiting s)" "\<not> live (hr_handler s) i"
  shows "loose_inv (snd (update_resume (m, b, i) s))"
proof -
  let ?ws = "remove1 (m, b, i) (hr_waiting s)"
  have gone: "\<not> live (hr_handler s) (snd (snd w))" if "w \<in> set (hr_waiting s)" "w \<notin> set ?ws" for w
    using that assms(3) by (cases "w = (m, b, i)") auto
  have "m \<in> fst ` set (metrics (hr_handler s))" using assms(1,2) unfolding loose_inv_def by (metis fst_conv)
  then have "subs_ok (create_sub m b (hr_handler s))"
    by (intro create_sub_subs_ok [of "hr_handler s"]) (use assms(1) in \<open>simp_all add: loose_inv_def in_dict\<close>)
  from loose_create [OF assms(1) this refl subset_refl gone set_remove1_subset]
  have "loose_inv (s\<lparr>hr_waiting := ?ws, hr_handler := create_sub m b (hr_handler s)\<rparr>)" .
  moreover have "loose_inv (s\<lparr>hr_waiting := ?ws\<rparr>)"
  proof -
    have "j \<in> (\<lambda>w. snd (snd w)) ` set ?ws" if "j \<in> hr_cancelled s" "live (hr_handler s) j" for j
      using assms(1) that gone unfolding loose_inv_def by blast
    moreover have "w \<in> set (hr_waiting s)" if "w \<in> set ?ws" for w using that set_remove1_subset by (rule subsetD [rotated])
    ultimately show ?thesis using assms(1) by (simp add: loose_inv_def)
  qed
  ultimately show ?thesis by (auto simp: update_resume_def Let_def split: option.split sum.split)
qed

lemma loose_metric:
  assumes "loose_inv s" "m \<notin> fst ` set (metrics (hr_handler s))"
  shows "loose_inv (start_metric m s)"
proof -
  let ?h = "(hr_handler s)\<lparr>metrics := dict_set m 0 (metrics (hr_handler s))\<rparr>"
  have "subs_ok (create_sub m 0 ?h)"
    by (rule create_sub_subs_ok [of "hr_handler s"]) (use assms in \<open>simp_all add: loose_inv_def dict_simps\<close>)
  from loose_create [OF assms(1) this, of "hr_waiting s"] show ?thesis
    by (simp add: start_metric_def keys_dict_set subset_insertI)
qed

lemma loose_end:
  assumes "loose_inv s"
  shows "loose_inv (end_task i r s)"
proof -
  have l: "live (hr_handler s) j" if "live (hr_handler (end_task i r s)) j" for j
    using that by (auto simp: end_task_def live_def nth_updated split: if_splits)
  have "subs_ok (hr_handler (end_task i r s))"
    using assms by (simp add: loose_inv_def subs_ok_def end_task_facts end_task_tasks(1))
  with assms l show ?thesis by (simp add: loose_inv_def end_task_facts)
qed

lemma loose_settings:
  assumes "loose_inv s"
  shows "loose_inv (s\<lparr>hr_handler := (hr_handler s)\<lparr>max_bps := b, updated := up\<rparr>\<rparr>)"
  using assms by (simp add: loose_inv_def subs_ok_def live_def)

interpretation loose: machine starts "run_step free" loose_inv for free
proof
  show "loose_inv s" if "starts s" for s
    using that by (auto simp: starts_def new_run_def new_handler_def loose_inv_def subs_ok_def dict_ok_def)
next
  fix s s'
  assume "loose_inv s" "run_step free s s'"
  then show "loose_inv s'"
    by (auto elim!: run_stepE intro: loose_start loose_resume loose_metric loose_end loose_settings)
qed

subsection \<open>Properties\<close>

lemma update_start_found: "map_of (metric_subscriptions (hr_handler s)) m = Some i \<Longrightarrow> m \<in> fst ` set (metrics (hr_handler s)) \<Longrightarrow>
    update_start m b s = (Inr (), s\<lparr>hr_handler := (hr_handler s)\<lparr>metrics := dict_set m b (metrics (hr_handler s))\<rparr>,
      hr_cancelled := insert i (hr_cancelled s), hr_waiting := hr_waiting s @ [(m, b, i)]\<rparr>)"
  by (simp add: update_start_def Let_def)

text \<open>C4: In every interleaving of updates, new metrics and ending tasks in which no two updates of the same
  metric overlap, a running task that is not being cancelled is the one registered for its metric, it has
  the metric's rate, no update waits to replace it, and the metric has no other such task.\<close>

theorem interleaved_tasks:
  assumes "reach starts (run_step one_at_a_time) s" "live (hr_handler s) i" "i \<notin> hr_cancelled s"
  shows "let h = hr_handler s; m = tk_metric (sub_tasks h ! i) in
    map_of (metric_subscriptions h) m = Some i \<and> (m, tk_bps (sub_tasks h ! i)) \<in> get_metrics h \<and>
    m \<notin> fst ` set (hr_waiting s) \<and>
    (\<forall>j. live h j \<and> tk_metric (sub_tasks h ! j) = m \<longrightarrow> j = i \<or> j \<in> hr_cancelled s)"
proof -
  note inv = run_invD [OF interleaved.reach_inv [OF assms(1)]]
  have a: "active s i" using assms(2,3) by (simp add: active_def)
  have w: "tk_metric (sub_tasks (hr_handler s) ! i) \<notin> fst ` set (hr_waiting s)"
  proof
    assume "tk_metric (sub_tasks (hr_handler s) ! i) \<in> fst ` set (hr_waiting s)"
    then obtain b k where "(tk_metric (sub_tasks (hr_handler s) ! i), b, k) \<in> set (hr_waiting s)" by force
    from inv(7) [OF this] inv(5) [OF a] assms(3) show False by auto
  qed
  have "j = i" if j: "active s j" "tk_metric (sub_tasks (hr_handler s) ! j) = tk_metric (sub_tasks (hr_handler s) ! i)" for j
    using inv(5) [OF j(1)] inv(5) [OF a] j(2) by (metis option.inject)
  with w inv(5) [OF a] map_of_SomeD [OF inv(6) [OF a]] show ?thesis
    unfolding Let_def get_metrics_def active_def by blast
qed

definition demo_started :: handler_run where
  "demo_started = start_metric (u ''a'') (new_run (u ''off'') 100 (\<lambda>_. Inr ()))"

definition demo_updating :: handler_run where
  "demo_updating = end_task 0 (Inl CancelledError) (snd (update_start (u ''a'') 7 demo_started))"

lemma demo_updating_eq: "demo_updating =
  \<lparr>hr_handler = \<lparr>max_bps = 100, metrics = [(u ''a'', 7)], metric_subscriptions = [(u ''a'', 0)],
     sub_tasks = [\<lparr>tk_metric = u ''a'', tk_bps = 0, tk_end = Some (Inl CancelledError)\<rparr>], updated = False,
     bps_distribution_mode = u ''off'', closing = \<lambda>_. Inr ()\<rparr>,
   hr_cancelled = {0}, hr_waiting = [(u ''a'', 7, 0)]\<rparr>"
  by (simp add: demo_updating_def demo_started_def new_run_def new_handler_def start_metric_def create_sub_def
      update_start_def end_task_def Let_def)

lemma demo_updating_reach: "reach starts (run_step one_at_a_time) demo_updating"
proof -
  have 0: "reach starts (run_step one_at_a_time) (new_run (u ''off'') 100 (\<lambda>_. Inr ()))"
    by (rule reach_start) (auto simp: starts_def)
  have 1: "reach starts (run_step one_at_a_time) demo_started" unfolding demo_started_def
    by (rule reach_step [OF 0], rule run_metric) (simp add: new_run_def new_handler_def)
  have 2: "reach starts (run_step one_at_a_time) (snd (update_start (u ''a'') 7 demo_started))"
    by (rule reach_step [OF 1], rule run_start) (simp add: one_at_a_time_def demo_started_def start_metric_def new_run_def)
  show ?thesis unfolding demo_updating_def
    by (rule reach_step [OF 2], rule run_end)
      (simp add: demo_started_def new_run_def new_handler_def start_metric_def create_sub_def update_start_def live_def Let_def)
qed

theorem interleaved_tasks_witness:
  "\<exists>s. reach starts (run_step one_at_a_time) s \<and> live (hr_handler s) 1 \<and> (u ''a'', 7) \<in> get_metrics (hr_handler s)"
proof -
  let ?s = "snd (update_resume (u ''a'', 7, 0) demo_updating)"
  have r: "reach starts (run_step one_at_a_time) ?s"
    by (rule reach_step [OF demo_updating_reach], rule run_resume) (simp_all add: demo_updating_eq live_def)
  have s: "live (hr_handler ?s) 1" "1 \<notin> hr_cancelled ?s" "sub_tasks (hr_handler ?s) ! 1 = \<lparr>tk_metric = u ''a'', tk_bps = 7, tk_end = None\<rparr>"
    by (simp_all add: demo_updating_eq update_resume_def create_sub_def live_def Let_def)
  from interleaved_tasks [OF r s(1,2)] s(3) have "(u ''a'', 7) \<in> get_metrics (hr_handler ?s)" by (simp add: Let_def)
  with r s(1) show ?thesis by blast
qed

text \<open>\<open>update_bps\<close> as one step is the interleaved update run without interruption: start, the end of the old
  task if it was running, resume.\<close>

theorem uninterrupted_update:
  assumes "subs_ok (hr_handler s)" "map_of (metric_subscriptions (hr_handler s)) m = Some i" "(m, b, i) \<notin> set (hr_waiting s)"
  shows "let s1 = snd (update_start m b s);
      s2 = (if live (hr_handler s) i then end_task i (cancelled_end (closing (hr_handler s) i)) s1 else s1) in
    case update_resume (m, b, i) s2 of (r, s3) \<Rightarrow>
      update_bps m b (hr_handler s) = (r, hr_handler s3) \<and> hr_waiting s3 = hr_waiting s"
proof -
  let ?h = "hr_handler s"
  have i: "i < length (sub_tasks ?h)" "m \<in> fst ` set (metrics ?h)"
    using assms(1,2) unfolding subs_ok_def in_dict by blast+
  let ?h1 = "?h\<lparr>metrics := dict_set m b (metrics ?h)\<rparr>"
  let ?s1 = "s\<lparr>hr_handler := ?h1, hr_cancelled := insert i (hr_cancelled s), hr_waiting := hr_waiting s @ [(m, b, i)]\<rparr>"
  have s1: "snd (update_start m b s) = ?s1" using update_start_found [OF assms(2) i(2)] by simp
  have rm: "remove1 (m, b, i) (hr_waiting s @ [(m, b, i)]) = hr_waiting s"
    using assms(3) by (simp add: remove1_append)
  show ?thesis
  proof (cases "live ?h i")
    case True
    with assms(2) i rm show ?thesis
      by (cases "closing ?h i") (auto simp: s1 Let_def end_task_def update_resume_def update_bps_def update_begin_def
          cancel_and_await_def live_def abind_def awaited_def)
  next
    case False
    with i(1) obtain r where "tk_end (sub_tasks ?h ! i) = Some r" by (auto simp: live_def)
    with False assms(2) i rm show ?thesis
      by (cases r) (auto simp: s1 Let_def update_resume_def update_bps_def update_begin_def cancel_and_await_def abind_def
          awaited_def)
  qed
qed

theorem uninterrupted_update_witness:
  "update_bps (u ''a'') 9 (hr_handler demo_updating) =
    (Inr (), create_sub (u ''a'') 9 ((hr_handler demo_updating)\<lparr>metrics := [(u ''a'', 9)]\<rparr>))"
proof -
  have s: "subs_ok (hr_handler demo_updating)" using run_invD(10) [OF interleaved.reach_inv [OF demo_updating_reach]] .
  have m: "map_of (metric_subscriptions (hr_handler demo_updating)) (u ''a'') = Some 0" "(u ''a'', 9, 0) \<notin> set (hr_waiting demo_updating)"
    by (simp_all add: demo_updating_eq)
  from uninterrupted_update [OF s m] show ?thesis
    by (simp add: demo_updating_eq live_def update_start_def update_resume_def Let_def)
qed

end
