(* ===== verification/RedisClient.thy ===== *)
theory RedisClient
  imports CodecTelemetry
begin

section \<open>The sample store: bcp-redis-client/python\<close>

text \<open>
  Samples are kept in Redis: the latest one of every metric under a key, and each new one
  published on a channel. The theory models the functions that write and read them, the scan
  that lists the metric ids, and the subscriber class with its listener thread and the
  threads that wait for a sample. The Redis server and its Python client are the parameter
  \<open>R\<close>, pydantic is the parameter \<open>P\<close>.
\<close>

subsection \<open>The server\<close>

record 's redis =
  rd_set :: "pystr \<Rightarrow> pystr \<Rightarrow> ('s, unit) act"
  rd_publish :: "pystr \<Rightarrow> pystr \<Rightarrow> ('s, unit) act"
  rd_get :: "pystr \<Rightarrow> 's \<Rightarrow> byte list option res"

text \<open>
  What \<open>SET\<close>, \<open>GET\<close> and \<open>PUBLISH\<close> promise: a value that was stored is read back as its UTF-8
  bytes, other keys keep theirs, publishing changes no key.
\<close>

locale redis_api =
  fixes R :: "'s redis"
  assumes set_encodes: "rd_set R k v s = (Inr x, s') \<Longrightarrow> \<exists>bs. utf8_encode v = Inr bs"
    and get_set: "rd_set R k v s = (Inr x, s') \<Longrightarrow> utf8_encode v = Inr bs \<Longrightarrow> rd_get R k s' = Inr (Some bs)"
    and get_set_other: "rd_set R k v s = (Inr x, s') \<Longrightarrow> k' \<noteq> k \<Longrightarrow> rd_get R k' s' = rd_get R k' s"
    and get_publish: "rd_publish R c v s = (r, s') \<Longrightarrow> rd_get R k s' = rd_get R k s"

text \<open>The instance: a dictionary of keys, with the log of what was published.\<close>

record store =
  st_keys :: "(pystr \<times> byte list) list"
  st_log :: "(pystr \<times> byte list) list"

definition dict_redis :: "store redis" where
  "dict_redis =
     \<lparr>rd_set = (\<lambda>k v s. case utf8_encode v of Inl e \<Rightarrow> (Inl e, s)
        | Inr bs \<Rightarrow> (Inr (), s\<lparr>st_keys := dict_set k bs (st_keys s)\<rparr>)),
      rd_publish = (\<lambda>c v s. case utf8_encode v of Inl e \<Rightarrow> (Inl e, s)
        | Inr bs \<Rightarrow> (Inr (), s\<lparr>st_log := st_log s @ [(c, bs)]\<rparr>)),
      rd_get = (\<lambda>k s. Inr (map_of (st_keys s) k))\<rparr>"

interpretation dict_store: redis_api dict_redis
  by unfold_locales (auto simp: dict_redis_def dict_simps split: sum.splits)

definition cache_key :: "pystr \<Rightarrow> pystr" where
  "cache_key m = u ''sample-cache:'' @ m"

definition channel_key :: "pystr \<Rightarrow> pystr" where
  "channel_key m = u ''sample-channel:'' @ m"

subsection \<open>Writing samples\<close>

text \<open>The keys come from the sample's own metadata; the argument \<open>metric_id\<close> is not used.\<close>

definition set_sample :: "'s redis \<Rightarrow> pydantic \<Rightarrow> pystr \<Rightarrow> sample \<Rightarrow> ('s, unit) act" where
  "set_sample R P m sample =
     abind (lift_res (sample_dump_json P sample)) (\<lambda>j.
     abind (rd_set R (cache_key (metric_id (metadata sample))) j) (\<lambda>_.
       rd_publish R (channel_key (metric_id (metadata sample))) j))"

text \<open>The constructor call \<open>SampleMetadata(...)\<close>; \<open>now\<close> is what \<open>time.time()\<close> returned.\<close>

definition make_metadata :: "pydantic \<Rightarrow> pystr \<Rightarrow> pyfloat \<Rightarrow> which_data_type \<Rightarrow> sample_metadata res" where
  "make_metadata P m now w = validate_metadata P (PDict
     [(u ''metric_id'', PStr m), (u ''timestamp'', PFloat now),
      (u ''which_data_type'', PStr (which_data_str w))])"

definition set_sample_primitive ::
  "'s redis \<Rightarrow> pydantic \<Rightarrow> pyfloat \<Rightarrow> pystr \<Rightarrow> pyval \<Rightarrow> ('s, unit) act" where
  "set_sample_primitive R P now m v =
     abind (lift_res (make_metadata P m now PRIMITIVE)) (\<lambda>md.
     abind (lift_res (primitive_from_value P v)) (\<lambda>d.
     abind (lift_res (sample_of Sample md (Prim d))) (\<lambda>s. set_sample R P m s)))"

definition set_sample_file ::
  "'s redis \<Rightarrow> pydantic \<Rightarrow> pyfloat \<Rightarrow> (pystr \<Rightarrow> byte list res) \<Rightarrow> pystr \<Rightarrow> pystr \<Rightarrow> ('s, unit) act" where
  "set_sample_file R P now read m p =
     abind (lift_res (file_from_path P read p)) (\<lambda>f.
     abind (lift_res (make_metadata P m now FILE)) (\<lambda>md.
     abind (lift_res (sample_of Sample md (File f))) (\<lambda>s. set_sample R P m s)))"

definition set_sample_file_from_bytes ::
  "'s redis \<Rightarrow> pydantic \<Rightarrow> pyfloat \<Rightarrow> pystr \<Rightarrow> byte list \<Rightarrow> pystr \<Rightarrow> ('s, unit) act" where
  "set_sample_file_from_bytes R P now m bs n =
     abind (lift_res (validate_file_data P (PDict [(u ''filename'', PStr n), (u ''data'', PBytes bs)]))) (\<lambda>f.
     abind (lift_res (make_metadata P m now FILE)) (\<lambda>md.
     abind (lift_res (sample_of Sample md (File f))) (\<lambda>s. set_sample R P m s)))"

subsection \<open>Reading samples\<close>

text \<open>
  \<open>model_validate_json\<close> on what \<open>GET\<close> returns: the bytes are UTF-8 text. \<open>None\<close> is no JSON
  input and fails validation.
\<close>

definition validate_json_bytes :: "pydantic \<Rightarrow> byte list option \<Rightarrow> sample res" where
  "validate_json_bytes P v =
     (case v of None \<Rightarrow> Inl ValidationError
      | Some bs \<Rightarrow> on_error ValidationError (rbind (utf8_decode bs) (sample_validate_json P)))"

definition get_sample :: "'s redis \<Rightarrow> pydantic \<Rightarrow> pystr \<Rightarrow> 's \<Rightarrow> sample option res" where
  "get_sample R P m s =
     rbind (rd_get R (cache_key m) s) (\<lambda>v.
       (case v of None \<Rightarrow> Inr None
        | Some bs \<Rightarrow> rbind (validate_json_bytes P (Some bs)) (\<lambda>x. Inr (Some x))))"

text \<open>The asynchronous reader of \<open>asyncio.py\<close>, which has no test for a missing key.\<close>

definition get_sample_async :: "'s redis \<Rightarrow> pydantic \<Rightarrow> pystr \<Rightarrow> 's \<Rightarrow> sample option res" where
  "get_sample_async R P m s =
     rbind (rd_get R (cache_key m) s) (\<lambda>v.
     rbind (validate_json_bytes P v) (\<lambda>x. Inr (Some x)))"

subsection \<open>Listing the metric ids\<close>

text \<open>
  \<open>scan n c\<close> is the reply to the \<open>n\<close>-th \<open>SCAN\<close> of the loop, called with the cursor \<open>c\<close>: the
  server decides when the cursor is 0 again, so the loop may run forever (\<open>None\<close>).
\<close>

partial_function (option) scan_loop ::
  "(nat \<Rightarrow> int \<Rightarrow> (int \<times> byte list list) res) \<Rightarrow> nat \<Rightarrow> int \<Rightarrow> pystr set \<Rightarrow> pystr set res option" where
  "scan_loop scan n cursor metric_keys =
     (case scan n cursor of
        Inl e \<Rightarrow> Some (Inl e)
      | Inr (cursor', keys) \<Rightarrow>
        (case traverse utf8_decode keys of
           Inl e \<Rightarrow> Some (Inl e)
         | Inr ks \<Rightarrow>
           if cursor' = 0 then Some (Inr (metric_keys \<union> set ks))
           else scan_loop scan (Suc n) cursor' (metric_keys \<union> set ks)))"

definition id_of_key :: "pystr \<Rightarrow> pystr option" where
  "id_of_key k =
     (case split_on 58 k of
        [a, b] \<Rightarrow> if a = u ''sample-cache'' then Some b else None
      | _ \<Rightarrow> None)"

definition ids_of_keys :: "pystr set \<Rightarrow> pystr set" where
  "ids_of_keys ks = the ` (id_of_key ` ks - {None})"

definition get_all_metric_ids ::
  "(nat \<Rightarrow> int \<Rightarrow> (int \<times> byte list list) res) \<Rightarrow> pystr set res option" where
  "get_all_metric_ids scan =
     map_option (\<lambda>r. rbind r (\<lambda>ks. Inr (ids_of_keys ks))) (scan_loop scan 0 0 {})"

subsection \<open>The subscriber\<close>

text \<open>
  One listener thread stores what arrives on the channel; any number of threads call the
  reading methods. Every critical section of the code's lock is one step. A thread inside
  \<open>wait_for_sample\<close> has found no sample (\<open>Checked\<close>), waits on the condition (\<open>Waiting\<close>, until a
  time-out if it gave one), was notified (\<open>Notified\<close>), or has returned (\<open>Done\<close>).
\<close>

datatype wait_pc =
    Idle
  | Checked "pyfloat option"
  | Waiting "pyfloat option"
  | Notified
  | Done "sample option"

datatype listener = Running | Finished | Failed pyexc

record message =
  msg_type :: pystr
  msg_data :: "byte list"

record subscriber =
  sub_metric :: pystr
  latest_sample :: "sample option"
  stop_event :: bool
  listener :: listener
  callers :: "nat \<Rightarrow> wait_pc"

text \<open>\<open>__init__\<close> and \<open>__enter__\<close>.\<close>

definition new_subscriber :: "pystr \<Rightarrow> subscriber" where
  "new_subscriber m =
     \<lparr>sub_metric = m, latest_sample = None, stop_event = False, listener = Running, callers = (\<lambda>_. Idle)\<rparr>"

fun notified :: "wait_pc \<Rightarrow> wait_pc" where
  "notified (Waiting _) = Notified"
| "notified c = c"

text \<open>The body of the listener's loop, for one message; an exception ends the thread.\<close>

definition listen_message :: "pydantic \<Rightarrow> message \<Rightarrow> subscriber \<Rightarrow> subscriber" where
  "listen_message P msg S =
     (if stop_event S then S\<lparr>listener := Finished\<rparr>
      else if msg_type msg = u ''message'' then
        (case validate_json_bytes P (Some (msg_data msg)) of
           Inl e \<Rightarrow> S\<lparr>listener := Failed e\<rparr>
         | Inr s \<Rightarrow>
           if metric_id (metadata s) \<noteq> sub_metric S then S\<lparr>listener := Failed AssertionError\<rparr>
           else S\<lparr>latest_sample := Some s, callers := notified \<circ> callers S\<rparr>)
      else S)"

definition set_caller :: "nat \<Rightarrow> wait_pc \<Rightarrow> subscriber \<Rightarrow> subscriber" where
  "set_caller t c S = S\<lparr>callers := (callers S)(t := c)\<rparr>"

definition latest_primitive :: "subscriber \<Rightarrow> prim option" where
  "latest_primitive S =
     (case latest_sample S of None \<Rightarrow> None
      | Some s \<Rightarrow> (case sample_data s of Prim p \<Rightarrow> Some (pd_value p) | File _ \<Rightarrow> None))"

text \<open>The first half of \<open>wait_for_sample\<close>: it calls \<open>get_sample\<close> under the lock.\<close>

definition begin_wait :: "nat \<Rightarrow> pyfloat option \<Rightarrow> subscriber \<Rightarrow> subscriber" where
  "begin_wait t timeout S =
     (case latest_sample S of
        Some s \<Rightarrow> set_caller t (Done (Some s)) S
      | None \<Rightarrow> set_caller t (Checked timeout) S)"

datatype sub_event = Deliver message | Call nat "pyfloat option" | Park nat | Wake nat | Expire nat | Leave | Unsubscribed

inductive sub_step :: "pydantic \<Rightarrow> sub_event \<Rightarrow> subscriber \<Rightarrow> subscriber \<Rightarrow> bool" for P where
  deliver: "listener S = Running \<Longrightarrow> sub_step P (Deliver msg) S (listen_message P msg S)"
| call: "callers S t = Idle \<Longrightarrow> sub_step P (Call t timeout) S (begin_wait t timeout S)"
| park: "callers S t = Checked timeout \<Longrightarrow> sub_step P (Park t) S (set_caller t (Waiting timeout) S)"
| wake: "callers S t = Notified \<Longrightarrow> sub_step P (Wake t) S (set_caller t (Done (latest_sample S)) S)"
| expire: "callers S t = Waiting (Some timeout) \<Longrightarrow>
    sub_step P (Expire t) S (set_caller t (Done (latest_sample S)) S)"
| leave: "sub_step P Leave S (S\<lparr>stop_event := True\<rparr>)"
| unsubscribed: "stop_event S \<Longrightarrow> listener S = Running \<Longrightarrow> sub_step P Unsubscribed S (S\<lparr>listener := Finished\<rparr>)"

inductive_cases sub_stepE: "sub_step P e S S'"

subsection \<open>Lemmas: storing and reading\<close>

lemma cache_key_inj [simp]: "cache_key m = cache_key m' \<longleftrightarrow> m = m'"
  by (simp add: cache_key_def)

lemma set_sample_Inr:
  "set_sample R P m x s = (Inr r, s') \<longleftrightarrow> (\<exists>j s1 q. sample_dump_json P x = Inr j \<and>
     rd_set R (cache_key (metric_id (metadata x))) j s = (Inr q, s1) \<and>
     rd_publish R (channel_key (metric_id (metadata x))) j s1 = (Inr r, s'))"
  by (auto simp: set_sample_def res_simps)

lemma get_sample_ok: "get_sample R P m s = Inr (Some x) \<Longrightarrow> sample_ok x \<and> sample_class x = Sample"
  by (auto simp: get_sample_def validate_json_bytes_def res_simps split: option.splits dest: sample_validate_json_ok)

lemma utf8_decode_encode: "utf8_encode s = Inr bs \<Longrightarrow> utf8_decode bs = Inr s"
  by (simp add: utf8_decode_def utf8_dec_of_encode)

locale sample_store = redis_api R + pydantic_api P ok
  for R :: "'s redis" and P ok
begin

lemma set_get:
  assumes "sample_sendable ok x" "set_sample R P m x s = (Inr r, s')"
  shows "get_sample R P (metric_id (metadata x)) s' = Inr (Some (x\<lparr>sample_class := Sample\<rparr>))"
    and "get_sample_async R P (metric_id (metadata x)) s' = Inr (Some (x\<lparr>sample_class := Sample\<rparr>))"
proof -
  let ?k = "cache_key (metric_id (metadata x))"
  from assms(2) obtain j s1 q where j: "sample_dump_json P x = Inr j"
      "rd_set R ?k j s = (Inr q, s1)" "rd_publish R (channel_key (metric_id (metadata x))) j s1 = (Inr r, s')"
    by (auto simp: set_sample_Inr)
  then obtain bs where bs: "utf8_encode j = Inr bs" using set_encodes by blast
  then have "rd_get R ?k s' = Inr (Some bs)"
    using get_set [OF j(2) bs] get_publish [OF j(3)] by simp
  moreover have "utf8_decode bs = Inr j" using bs by (rule utf8_decode_encode)
  moreover have "sample_validate_json P j = Inr (x\<lparr>sample_class := Sample\<rparr>)"
    using sample_round [OF assms(1)] j(1) by simp
  ultimately show "get_sample R P (metric_id (metadata x)) s' = Inr (Some (x\<lparr>sample_class := Sample\<rparr>))"
    "get_sample_async R P (metric_id (metadata x)) s' = Inr (Some (x\<lparr>sample_class := Sample\<rparr>))"
    by (simp_all add: get_sample_def get_sample_async_def validate_json_bytes_def)
qed

lemma set_get_other:
  assumes "set_sample R P m x s = (Inr r, s')" "m' \<noteq> metric_id (metadata x)"
  shows "get_sample R P m' s' = get_sample R P m' s"
  using assms get_set_other get_publish
  by (fastforce simp: set_sample_Inr get_sample_def)

end

interpretation dict_samples: sample_store dict_redis strict_pydantic json_ok ..

subsection \<open>Lemmas: the scan\<close>

lemma id_of_key_Some: "id_of_key k = Some m \<longleftrightarrow> k = cache_key m \<and> 58 \<notin> set m"
proof -
  have "id_of_key k = Some m \<longleftrightarrow> split_on 58 k = [u ''sample-cache'', m]"
    by (auto simp: id_of_key_def split: list.splits)
  also have "\<dots> \<longleftrightarrow> k = cache_key m \<and> 58 \<notin> set m"
    unfolding split_on_pair by (simp add: cache_key_def)
  finally show ?thesis .
qed

lemma ids_of_keys_eq: "ids_of_keys ks = {m. 58 \<notin> set m \<and> cache_key m \<in> ks}"
proof -
  have "ids_of_keys ks = {m. \<exists>k \<in> ks. id_of_key k = Some m}"
    by (force simp: ids_of_keys_def)
  then show ?thesis by (auto simp: id_of_key_Some)
qed

text \<open>A scan of \<open>k\<close> replies followed by one that returns the cursor 0.\<close>

definition full_scan ::
  "(nat \<Rightarrow> int \<Rightarrow> (int \<times> byte list list) res) \<Rightarrow> (nat \<Rightarrow> int) \<Rightarrow> (nat \<Rightarrow> pystr list) \<Rightarrow> nat \<Rightarrow> bool" where
  "full_scan scan cs ks k \<longleftrightarrow> cs 0 = 0 \<and> cs (Suc k) = 0 \<and> (\<forall>i < k. cs (Suc i) \<noteq> 0) \<and>
     (\<forall>i \<le> k. \<exists>bss. scan i (cs i) = Inr (cs (Suc i), bss) \<and> traverse utf8_decode bss = Inr (ks i))"

lemma scan_loop_full:
  assumes "full_scan scan cs ks k"
  shows "i \<le> k \<Longrightarrow> scan_loop scan i (cs i) acc = Some (Inr (acc \<union> (\<Union>j \<in> {i..k}. set (ks j))))"
proof (induction "k - i" arbitrary: i acc)
  case 0
  then have "i = k" by simp
  with assms obtain bss where "scan k (cs k) = Inr (cs (Suc k), bss)" "traverse utf8_decode bss = Inr (ks k)"
      "cs (Suc k) = 0"
    by (auto simp: full_scan_def)
  with \<open>i = k\<close> show ?case by (simp add: scan_loop.simps)
next
  case (Suc n)
  then have i: "i < k" by simp
  with assms obtain bss where "scan i (cs i) = Inr (cs (Suc i), bss)" "traverse utf8_decode bss = Inr (ks i)"
      "cs (Suc i) \<noteq> 0"
    unfolding full_scan_def by (meson less_imp_le)
  then have "scan_loop scan i (cs i) acc = scan_loop scan (Suc i) (cs (Suc i)) (acc \<union> set (ks i))"
    by (subst scan_loop.simps) simp
  also have "\<dots> = Some (Inr ((acc \<union> set (ks i)) \<union> (\<Union>j \<in> {Suc i..k}. set (ks j))))"
    using Suc i by simp
  also have "(acc \<union> set (ks i)) \<union> (\<Union>j \<in> {Suc i..k}. set (ks j)) = acc \<union> (\<Union>j \<in> {i..k}. set (ks j))"
    using i by (simp add: Icc_eq_insert_lb_nat Un_assoc)
  finally show ?case .
qed

lemma all_metric_ids_full:
  assumes "full_scan scan cs ks k"
  shows "get_all_metric_ids scan =
    Some (Inr {m. 58 \<notin> set m \<and> (\<exists>i \<le> k. cache_key m \<in> set (ks i))})"
proof -
  have "cs 0 = 0" using assms by (simp add: full_scan_def)
  with scan_loop_full [OF assms, of 0 "{}"]
  have "scan_loop scan 0 0 {} = Some (Inr (\<Union>j \<in> {0..k}. set (ks j)))" by simp
  then show ?thesis by (auto simp: get_all_metric_ids_def ids_of_keys_eq)
qed

subsection \<open>Lemmas: the subscriber\<close>

text \<open>What a reader may see: a consistent sample of the subscribed metric.\<close>

definition sample_for :: "pystr \<Rightarrow> sample \<Rightarrow> bool" where
  "sample_for m s \<longleftrightarrow> metric_id (metadata s) = m \<and> sample_ok s \<and> sample_class s = Sample"

definition sub_inv :: "pystr \<Rightarrow> subscriber \<Rightarrow> bool" where
  "sub_inv m S \<longleftrightarrow> sub_metric S = m \<and>
     (\<forall>s. latest_sample S = Some s \<longrightarrow> sample_for m s) \<and>
     (\<forall>t s. callers S t = Done (Some s) \<longrightarrow> sample_for m s) \<and>
     (\<forall>t. callers S t = Notified \<longrightarrow> latest_sample S \<noteq> None)"

lemma validate_json_bytes_ok: "validate_json_bytes P v = Inr s \<Longrightarrow> sample_ok s \<and> sample_class s = Sample"
  by (auto simp: validate_json_bytes_def res_simps split: option.splits dest: sample_validate_json_ok)

lemma notified_simps [simp]: "notified c = Notified \<longleftrightarrow> c = Notified \<or> (\<exists>x. c = Waiting x)"
  "notified c = Done r \<longleftrightarrow> c = Done r" "notified c = Waiting x \<longleftrightarrow> False"
  by (cases c; simp)+

lemma listen_message_inv: "sub_inv m S \<Longrightarrow> sub_inv m (listen_message P msg S)"
  by (auto simp: listen_message_def sub_inv_def sample_for_def split: sum.splits dest: validate_json_bytes_ok)

lemma set_caller_inv:
  "sub_inv m S \<Longrightarrow> c \<noteq> Notified \<Longrightarrow> (\<And>s. c = Done (Some s) \<Longrightarrow> sample_for m s) \<Longrightarrow> sub_inv m (set_caller t c S)"
  by (auto simp: sub_inv_def set_caller_def)

lemma sub_step_inv: "sub_inv m S \<Longrightarrow> sub_step P e S S' \<Longrightarrow> sub_inv m S'"
  by (erule sub_stepE) (auto simp: listen_message_inv begin_wait_def intro!: set_caller_inv
      split: option.splits simp: sub_inv_def [of m "_\<lparr>stop_event := _\<rparr>"] sub_inv_def [of m "_\<lparr>listener := _\<rparr>"]
      | auto simp: sub_inv_def)+

interpretation subs: machine "\<lambda>S. S = new_subscriber m" "\<lambda>S S'. \<exists>e. sub_step P e S S'" "sub_inv m" for m P
  by unfold_locales (simp add: new_subscriber_def sub_inv_def, blast intro: sub_step_inv)

text \<open>Between two messages a thread that waits without time-out stays where it is.\<close>

definition no_message :: "sub_event \<Rightarrow> bool" where
  "no_message e \<longleftrightarrow> (case e of Deliver _ \<Rightarrow> False | _ \<Rightarrow> True)"

lemma waiting_stays:
  "callers S t = Waiting None \<Longrightarrow> sub_step P e S S' \<Longrightarrow> no_message e \<Longrightarrow> callers S' t = Waiting None"
  by (erule sub_stepE) (auto simp: no_message_def begin_wait_def set_caller_def split: option.splits)

lemma waiting_stays_steps:
  assumes "(\<lambda>S S'. \<exists>e. no_message e \<and> sub_step P e S S')\<^sup>*\<^sup>* S S'" "callers S t = Waiting None"
  shows "callers S' t = Waiting None"
  using assms by (induction rule: rtranclp_induct) (auto dest: waiting_stays)

lemma sub_reach_new: "reach (\<lambda>S. S = new_subscriber m) (\<lambda>S S'. \<exists>e. sub_step P e S S') (new_subscriber m)"
  by (rule reach_start) simp

lemma sub_reach_step: "reach (\<lambda>S. S = new_subscriber m) (\<lambda>S S'. \<exists>e. sub_step P e S S') S \<Longrightarrow> sub_step P e S S' \<Longrightarrow>
    reach (\<lambda>S. S = new_subscriber m) (\<lambda>S S'. \<exists>e. sub_step P e S S') S'"
  by (erule reach_step) blast

subsection \<open>Properties\<close>

definition empty_store :: store where
  "empty_store = \<lparr>st_keys = [], st_log = []\<rparr>"

lemma strict_dump_encodes:
  assumes "sample_sendable json_ok x"
  shows "\<exists>j bs. sample_dump_json strict_pydantic x = Inr j \<and> utf8_encode j = Inr bs"
proof -
  from assms obtain v where v: "sample_py x = Inr v" "json_ok v"
    by (auto simp: sample_sendable_def split: sum.splits)
  then obtain j where j: "json_dumps v = Inr j" using json_dumps_ok by blast
  then have "utf8_encode j = Inr (bytes_of_ints j)"
    using json_dumps_plain [OF v(2)] utf8_encode_ascii plain_ascii by blast
  with v j show ?thesis by (simp add: sample_dump_json_def strict_pydantic_def)
qed

lemma dict_set_succeeds:
  assumes "sample_sendable json_ok x"
  shows "\<exists>s'. set_sample dict_redis strict_pydantic m x s = (Inr (), s')"
  using strict_dump_encodes [OF assms] by (fastforce simp: set_sample_Inr dict_redis_def)

definition primitive_sample :: "pystr \<Rightarrow> pyfloat \<Rightarrow> prim \<Rightarrow> sample" where
  "primitive_sample m now v = \<lparr>sample_class = Sample,
     metadata = \<lparr>metric_id = m, timestamp = NumF now, which_data_type = PRIMITIVE\<rparr>,
     sample_data = Prim \<lparr>pd_which = kind v, pd_value = v\<rparr>\<rparr>"

context pydantic_api
begin

lemma make_metadata_eq: "make_metadata P m now w = Inr \<lparr>metric_id = m, timestamp = NumF now, which_data_type = w\<rparr>"
  using metadata_back [of "\<lparr>metric_id = m, timestamp = NumF now, which_data_type = w\<rparr>"]
  by (simp add: make_metadata_def metadata_py_def)

lemma set_primitive_eq: "set_sample_primitive R P now m (prim_py v) = set_sample R P m (primitive_sample m now v)"
  by (simp add: set_sample_primitive_def make_metadata_eq from_value_back sample_of_def validate_data_type_def
      primitive_sample_def)

end

text \<open>C17: Once a sample has been stored, both readers return it for its metric, with the same metadata and
  data, and what they return for every other metric is unchanged.\<close>

theorem set_get_sample:
  assumes "redis_api R" "pydantic_api P ok" "sample_sendable ok x" "set_sample R P m x s = (Inr r, s')"
  shows "get_sample R P (metric_id (metadata x)) s' = Inr (Some (x\<lparr>sample_class := Sample\<rparr>)) \<and>
    get_sample_async R P (metric_id (metadata x)) s' = Inr (Some (x\<lparr>sample_class := Sample\<rparr>)) \<and>
    (\<forall>m'. m' \<noteq> metric_id (metadata x) \<longrightarrow> get_sample R P m' s' = get_sample R P m' s)"
proof -
  have S: "sample_store R P ok" using assms(1,2) by (rule sample_store.intro)
  show ?thesis
    using sample_store.set_get [OF S assms(3,4)] sample_store.set_get_other [OF S assms(4)] by blast
qed

theorem set_get_sample_witness:
  "\<exists>s'. set_sample dict_redis strict_pydantic (u ''cpu'') cpu_sample empty_store = (Inr (), s') \<and>
    get_sample dict_redis strict_pydantic (u ''cpu'') s' = Inr (Some (cpu_sample\<lparr>sample_class := Sample\<rparr>))"
proof -
  obtain s' where s': "set_sample dict_redis strict_pydantic (u ''cpu'') cpu_sample empty_store = (Inr (), s')"
    using dict_set_succeeds [OF cpu_sendable] by blast
  moreover have "metric_id (metadata cpu_sample) = u ''cpu''" by (simp add: cpu_sample_def)
  ultimately show ?thesis
    using set_get_sample [OF dict_store.redis_api_axioms strict.pydantic_api_axioms cpu_sendable s'] by metis
qed

text \<open>\<open>set_sample_primitive\<close> stores a primitive sample: the value that is read back is the one given, of
  the same type, for the metric given, with the time of the call.\<close>

theorem set_primitive_get:
  assumes "redis_api R" "pydantic_api P ok" "sample_sendable ok (primitive_sample m now v)"
    and "set_sample_primitive R P now m (prim_py v) s = (Inr r, s')"
  shows "\<exists>x. get_sample R P m s' = Inr (Some x) \<and> sample_data x = Prim \<lparr>pd_which = kind v, pd_value = v\<rparr> \<and>
    metric_id (metadata x) = m \<and> timestamp (metadata x) = NumF now"
proof -
  have S: "sample_store R P ok" using assms(1,2) by (rule sample_store.intro)
  have "set_sample R P m (primitive_sample m now v) s = (Inr r, s')"
    using assms(4) pydantic_api.set_primitive_eq [OF assms(2), of R now m v] by metis
  from sample_store.set_get(1) [OF S assms(3) this] show ?thesis by (simp add: primitive_sample_def)
qed

lemma demo_primitive_sendable: "sample_sendable json_ok (primitive_sample (u ''t'') (Fin 0) (IntV 42))"
  by (simp add: sample_sendable_def sample_ok_def primitive_ok_def primitive_sample_def sample_py_def metadata_py_def
      primitive_py_def scalar_def dict_ok_def json_float_0)

theorem set_primitive_get_witness:
  "\<exists>s' x. set_sample_primitive dict_redis strict_pydantic (Fin 0) (u ''t'') (PInt 42) empty_store = (Inr (), s') \<and>
    get_sample dict_redis strict_pydantic (u ''t'') s' = Inr (Some x) \<and>
    sample_data x = Prim \<lparr>pd_which = WINT, pd_value = IntV 42\<rparr>"
proof -
  obtain s' where "set_sample dict_redis strict_pydantic (u ''t'') (primitive_sample (u ''t'') (Fin 0) (IntV 42)) empty_store
      = (Inr (), s')"
    using dict_set_succeeds [OF demo_primitive_sendable] by blast
  then have s': "set_sample_primitive dict_redis strict_pydantic (Fin 0) (u ''t'') (prim_py (IntV 42)) empty_store = (Inr (), s')"
    by (simp only: strict.set_primitive_eq)
  from set_primitive_get [OF dict_store.redis_api_axioms strict.pydantic_api_axioms demo_primitive_sendable s'] s'
  show ?thesis by (auto simp del: u_simps)
qed

text \<open>For a metric that has no sample yet the synchronous reader returns \<open>None\<close>; the asynchronous one,
  declared to return \<open>Sample | None\<close>, raises a \<open>ValidationError\<close>.\<close>

theorem get_async_missing:
  assumes "rd_get R (cache_key m) s = Inr None"
  shows "get_sample R P m s = Inr None \<and> get_sample_async R P m s = Inl ValidationError"
  by (simp add: get_sample_def get_sample_async_def validate_json_bytes_def assms)

theorem get_async_missing_witness:
  "get_sample dict_redis strict_pydantic (u ''cpu'') empty_store = Inr None \<and>
    get_sample_async dict_redis strict_pydantic (u ''cpu'') empty_store = Inl ValidationError"
  by (rule get_async_missing) (simp add: dict_redis_def empty_store_def)

text \<open>C29: When the server's scan comes back to cursor 0, \<open>get_all_metric_ids\<close> returns, and the result is
  exactly the ids of the cache keys among all replies, less the ids that contain a colon.\<close>

theorem get_all_metric_ids_full:
  assumes "full_scan scan cs ks k"
  shows "get_all_metric_ids scan =
    Some (Inr {m. 58 \<notin> set m \<and> (\<exists>i \<le> k. cache_key m \<in> set (ks i))})"
  by (rule all_metric_ids_full [OF assms])

definition demo_scan :: "nat \<Rightarrow> int \<Rightarrow> (int \<times> byte list list) res" where
  "demo_scan n c = (if c = 0 then Inr (5, [bytes_of_ints (cache_key (u ''a''))])
     else Inr (0, [bytes_of_ints (cache_key (u ''b:c''))]))"

lemma demo_full: "full_scan demo_scan (\<lambda>i. if i = 1 then 5 else 0)
    (\<lambda>i. if i = 0 then [cache_key (u ''a'')] else [cache_key (u ''b:c'')]) 1"
proof -
  have "utf8_decode (bytes_of_ints s) = Inr s" if "ascii_str s" for s
    using utf8_decode_encode [OF utf8_encode_ascii [OF that]] .
  then show ?thesis
    by (auto simp: full_scan_def demo_scan_def cache_key_def le_Suc_eq)
qed

theorem get_all_metric_ids_full_witness:
  "get_all_metric_ids demo_scan = Some (Inr {u ''a''})"
proof -
  have "{m. (58::int) \<notin> set m \<and> (\<exists>i \<le> (1::nat). cache_key m \<in>
      set (if i = 0 then [cache_key (u ''a'')] else [cache_key (u ''b:c'')]))} = {u ''a''}"
    by (auto simp: le_Suc_eq simp del: u_simps) (auto simp: split: if_splits)
  then show ?thesis using get_all_metric_ids_full [OF demo_full] by simp
qed

text \<open>C18: In every interleaving of the listener with any number of reading threads, a sample that a thread
  gets is a consistent sample of the metric that was subscribed to.\<close>

theorem subscriber_safe:
  assumes "reach (\<lambda>S. S = new_subscriber m) (\<lambda>S S'. \<exists>e. sub_step P e S S') S"
    and "callers S t = Done (Some s) \<or> latest_sample S = Some s"
  shows "metric_id (metadata s) = m \<and> sample_ok s"
  using subs.reach_inv [OF assms(1)] assms(2) by (auto simp: sub_inv_def sample_for_def)

lemma demo_message:
  "\<exists>bs. validate_json_bytes strict_pydantic (Some bs) = Inr (cpu_sample\<lparr>sample_class := Sample\<rparr>)"
proof -
  obtain j bs where j: "sample_dump_json strict_pydantic cpu_sample = Inr j" "utf8_encode j = Inr bs"
    using strict_dump_encodes [OF cpu_sendable] by blast
  then show ?thesis
    using strict.sample_round [OF cpu_sendable] utf8_decode_encode [OF j(2)]
    by (intro exI [of _ bs]) (simp add: validate_json_bytes_def)
qed

theorem subscriber_safe_witness:
  "\<exists>S s. reach (\<lambda>S. S = new_subscriber (u ''cpu'')) (\<lambda>S S'. \<exists>e. sub_step strict_pydantic e S S') S \<and>
    latest_sample S = Some s \<and> metric_id (metadata s) = u ''cpu''"
proof -
  obtain bs where bs: "validate_json_bytes strict_pydantic (Some bs) = Inr (cpu_sample\<lparr>sample_class := Sample\<rparr>)"
    using demo_message by blast
  let ?N = "new_subscriber (u ''cpu'')"
  let ?S = "listen_message strict_pydantic \<lparr>msg_type = u ''message'', msg_data = bs\<rparr> ?N"
  have "sub_step strict_pydantic (Deliver \<lparr>msg_type = u ''message'', msg_data = bs\<rparr>) ?N ?S"
    by (rule deliver) (simp add: new_subscriber_def)
  then have r: "reach (\<lambda>S. S = ?N) (\<lambda>S S'. \<exists>e. sub_step strict_pydantic e S S') ?S"
    by (rule sub_reach_step [OF sub_reach_new])
  have l: "latest_sample ?S = Some (cpu_sample\<lparr>sample_class := Sample\<rparr>)"
    by (simp add: listen_message_def new_subscriber_def bs cpu_sample_def)
  from subscriber_safe [OF r disjI2 [OF l]] r l show ?thesis by blast
qed

text \<open>C20: A new message wakes the threads that wait: a thread waiting when a valid sample is delivered
  returns that sample with its next step.\<close>

theorem delivery_wakes:
  assumes "listener S = Running" "\<not> stop_event S" "callers S t = Waiting timeout"
    and "validate_json_bytes P (Some d) = Inr s" "metric_id (metadata s) = sub_metric S"
  shows "\<exists>S1 S2. sub_step P (Deliver \<lparr>msg_type = u ''message'', msg_data = d\<rparr>) S S1 \<and>
    sub_step P (Wake t) S1 S2 \<and> callers S2 t = Done (Some s)"
proof -
  let ?m = "\<lparr>msg_type = u ''message'', msg_data = d\<rparr>"
  let ?S1 = "listen_message P ?m S"
  have 1: "?S1 = S\<lparr>latest_sample := Some s, callers := notified \<circ> callers S\<rparr>"
    using assms by (simp add: listen_message_def)
  then have "callers ?S1 t = Notified" using assms(3) by simp
  then have "sub_step P (Wake t) ?S1 (set_caller t (Done (latest_sample ?S1)) ?S1)" by (rule wake)
  moreover have "sub_step P (Deliver ?m) S ?S1" using assms(1) by (rule deliver)
  moreover have "callers (set_caller t (Done (latest_sample ?S1)) ?S1) t = Done (Some s)"
    unfolding 1 by (simp add: set_caller_def)
  ultimately show ?thesis by blast
qed

theorem delivery_wakes_witness:
  "\<exists>d S1 S2. let S = set_caller 0 (Waiting None) (new_subscriber (u ''cpu'')) in
    sub_step strict_pydantic (Deliver \<lparr>msg_type = u ''message'', msg_data = d\<rparr>) S S1 \<and>
    sub_step strict_pydantic (Wake 0) S1 S2 \<and> callers S2 0 = Done (Some (cpu_sample\<lparr>sample_class := Sample\<rparr>))"
proof -
  obtain bs where bs: "validate_json_bytes strict_pydantic (Some bs) = Inr (cpu_sample\<lparr>sample_class := Sample\<rparr>)"
    using demo_message by blast
  let ?S = "set_caller 0 (Waiting None) (new_subscriber (u ''cpu''))"
  have "listener ?S = Running" "\<not> stop_event ?S" "callers ?S 0 = Waiting None"
      "metric_id (metadata (cpu_sample\<lparr>sample_class := Sample\<rparr>)) = sub_metric ?S"
    by (simp_all add: set_caller_def new_subscriber_def cpu_sample_def)
  from delivery_wakes [OF this(1-3) bs this(4)] show ?thesis unfolding Let_def by blast
qed

text \<open>C37: \<open>wait_for_sample\<close> can miss the wake-up: it looks for a sample, releases the lock and only then
  waits, so a sample that arrives in between leaves the thread waiting without end although a sample
  is available; nothing but another message ever wakes it, not even leaving the subscriber.\<close>

theorem wait_lost_wakeup:
  assumes "validate_json_bytes P (Some d) = Inr s" "metric_id (metadata s) = m"
  shows "\<exists>S. reach (\<lambda>S. S = new_subscriber m) (\<lambda>S S'. \<exists>e. sub_step P e S S') S \<and>
    latest_sample S = Some s \<and> callers S 0 = Waiting None \<and>
    (\<forall>S'. (\<lambda>S S'. \<exists>e. no_message e \<and> sub_step P e S S')\<^sup>*\<^sup>* S S' \<longrightarrow> callers S' 0 = Waiting None)"
proof -
  let ?r = "reach (\<lambda>S. S = new_subscriber m) (\<lambda>S S'. \<exists>e. sub_step P e S S')"
  let ?S0 = "new_subscriber m"
  let ?S1 = "begin_wait 0 None ?S0"
  let ?S2 = "listen_message P \<lparr>msg_type = u ''message'', msg_data = d\<rparr> ?S1"
  let ?S3 = "set_caller 0 (Waiting None) ?S2"
  have 1: "?S1 = set_caller 0 (Checked None) ?S0" by (simp add: begin_wait_def new_subscriber_def)
  have 2: "?S2 = ?S1\<lparr>latest_sample := Some s, callers := notified \<circ> callers ?S1\<rparr>"
    unfolding 1 by (simp add: listen_message_def assms set_caller_def new_subscriber_def)
  have s1: "sub_step P (Call 0 None) ?S0 ?S1" by (rule call) (simp add: new_subscriber_def)
  have s2: "sub_step P (Deliver \<lparr>msg_type = u ''message'', msg_data = d\<rparr>) ?S1 ?S2"
    by (rule deliver) (unfold 1, simp add: set_caller_def new_subscriber_def)
  have s3: "sub_step P (Park 0) ?S2 ?S3"
    by (rule park) (subst 2, unfold 1, simp add: set_caller_def)
  have "?r ?S3"
    by (rule sub_reach_step [OF sub_reach_step [OF sub_reach_step [OF sub_reach_new s1] s2] s3])
  moreover have "latest_sample ?S3 = Some s" "callers ?S3 0 = Waiting None"
    unfolding 2 by (simp_all add: set_caller_def)
  ultimately show ?thesis using waiting_stays_steps by blast
qed

theorem wait_lost_wakeup_witness:
  "\<exists>S. latest_sample S = Some (cpu_sample\<lparr>sample_class := Sample\<rparr>) \<and> callers S 0 = Waiting None \<and>
    reach (\<lambda>S. S = new_subscriber (u ''cpu'')) (\<lambda>S S'. \<exists>e. sub_step strict_pydantic e S S') S"
proof -
  obtain bs where bs: "validate_json_bytes strict_pydantic (Some bs) = Inr (cpu_sample\<lparr>sample_class := Sample\<rparr>)"
    using demo_message by blast
  have "metric_id (metadata (cpu_sample\<lparr>sample_class := Sample\<rparr>)) = u ''cpu''" by (simp add: cpu_sample_def)
  from wait_lost_wakeup [OF bs this] show ?thesis by blast
qed

end
