(* ===== verification/OnboardCommands.thy ===== *)
theory OnboardCommands
  imports RedisClient
begin

section \<open>Running commands: onboard-server-py/src/onboard_server/handle_commands.py\<close>

text \<open>
  What the payload computer does for a command: \<open>Subscribe\<close> starts the loop that sends every
  new sample of a metric at a limited rate, \<open>GetMetricIds\<close> answers once. The coroutines act
  on a connection through a trace of actions (bytes written, the socket's send buffer, the
  time slept); what the outside answers to each pass of the loop is its input.
\<close>

subsection \<open>Comparing samples\<close>

text \<open>Python's \<open>==\<close> on numbers compares their values whatever their types; NaN differs from itself.\<close>

fun num_eq :: "pynum \<Rightarrow> pynum \<Rightarrow> bool" where
  "num_eq (NumI i) (NumI j) = (i = j)"
| "num_eq (NumF f) (NumF g) = feq f g"
| "num_eq (NumI i) (NumF f) = (fval f = Some (of_int i))"
| "num_eq (NumF f) (NumI i) = (fval f = Some (of_int i))"

fun prim_num :: "prim \<Rightarrow> pynum option" where
  "prim_num (IntV i) = Some (NumI i)"
| "prim_num (FloatV f) = Some (NumF f)"
| "prim_num (BoolV b) = Some (NumI (if b then 1 else 0))"
| "prim_num (StrV _) = None"

definition prim_eq :: "prim \<Rightarrow> prim \<Rightarrow> bool" where
  "prim_eq v w =
     (case (prim_num v, prim_num w) of
        (Some a, Some b) \<Rightarrow> num_eq a b
      | _ \<Rightarrow> v = w)"

fun data_eq :: "sample_data \<Rightarrow> sample_data \<Rightarrow> bool" where
  "data_eq (Prim p) (Prim q) = (pd_which p = pd_which q \<and> prim_eq (pd_value p) (pd_value q))"
| "data_eq (File f) (File g) = (f = g)"
| "data_eq _ _ = False"

text \<open>
  The equality of model objects is that of pydantic, which documents it: the classes are the same and the fields are
  equal by Python's \<open>==\<close>. No class of the repository defines its own.
\<close>

definition sample_eq :: "sample \<Rightarrow> sample \<Rightarrow> bool" where
  "sample_eq s t \<longleftrightarrow> sample_class s = sample_class t \<and>
     metric_id (metadata s) = metric_id (metadata t) \<and>
     num_eq (timestamp (metadata s)) (timestamp (metadata t)) \<and>
     which_data_type (metadata s) = which_data_type (metadata t) \<and>
     data_eq (sample_data s) (sample_data t)"

subsection \<open>The downlink loop\<close>

datatype action = Write "byte list" | SetSndBuf int | SleepFor pyfloat

record downlink =
  last_sample :: "sample option"
  sock_buf_size :: int
  actions :: "action list"

text \<open>What one pass meets: the result of \<open>get_sample_async\<close>, of \<open>drain\<close> and of \<open>setsockopt\<close>.\<close>

record pass =
  got :: "sample option res"
  drained :: "unit res"
  setopt :: "unit res"

definition emit :: "action \<Rightarrow> (downlink, unit) act" where
  "emit a = (\<lambda>st. (Inr (), st\<lparr>actions := actions st @ [a]\<rparr>))"

definition downlink_latest_sample :: "pydantic \<Rightarrow> unit res \<Rightarrow> sample \<Rightarrow> (downlink, int) act" where
  "downlink_latest_sample P dr sample =
     abind (lift_res (telemetry_of P T_SAMPLE (Obj (SampleMsg sample)))) (\<lambda>t.
     abind (lift_res (rbind (telemetry_dump_json P t) utf8_encode)) (\<lambda>bs.
     abind (emit (Write bs)) (\<lambda>_.
     abind (lift_res dr) (\<lambda>_. lift_res (Inr (int (length bs)))))))"

definition adjust_buffer :: "bool \<Rightarrow> unit res \<Rightarrow> int \<Rightarrow> (downlink, unit) act" where
  "adjust_buffer has_sock so n = (\<lambda>st.
     if has_sock \<and> 0 < n \<and> (sock_buf_size st < n + 1 \<or> n * 2 < sock_buf_size st)
     then abind (\<lambda>st'. (Inr (), st'\<lparr>sock_buf_size := n * 2\<rparr>)) (\<lambda>_.
          abind (lift_res so) (\<lambda>_. emit (SetSndBuf (n * 2)))) st
     else (Inr (), st))"

definition max_downlink_hz :: int where
  "max_downlink_hz = 2"

definition is_new :: "sample option \<Rightarrow> sample \<Rightarrow> bool" where
  "is_new prev s = (case prev of None \<Rightarrow> True | Some l \<Rightarrow> \<not> sample_eq s l)"

definition downlink_new :: "pydantic \<Rightarrow> bool \<Rightarrow> int \<Rightarrow> pass \<Rightarrow> sample \<Rightarrow> (downlink, unit) act" where
  "downlink_new P has_sock bps e s =
     abind (\<lambda>st. (Inr (), st\<lparr>last_sample := Some s\<rparr>)) (\<lambda>_.
     abind (downlink_latest_sample P (drained e) s) (\<lambda>n.
     abind (adjust_buffer has_sock (setopt e) n) (\<lambda>_.
     abind (lift_res (true_div 1 max_downlink_hz)) (\<lambda>min_sleep.
     abind (lift_res (true_div n bps)) (\<lambda>q. emit (SleepFor (fmax min_sleep q)))))))"

definition downlink_pass :: "pydantic \<Rightarrow> bool \<Rightarrow> int \<Rightarrow> pass \<Rightarrow> (downlink, unit) act" where
  "downlink_pass P has_sock bps e =
     abind (lift_res (got e)) (\<lambda>v st.
       (case v of
          Some s \<Rightarrow> if is_new (last_sample st) s then downlink_new P has_sock bps e s st
                    else emit (SleepFor (Fin 1)) st
        | None \<Rightarrow> emit (SleepFor (Fin 1)) st))"

text \<open>
  The loop has no exit but an exception, so it is followed pass by pass over the inputs.
  Before it the code asks the socket for its buffer size, without testing that there is one.
\<close>

fun downlink_passes :: "pydantic \<Rightarrow> bool \<Rightarrow> int \<Rightarrow> pass list \<Rightarrow> (downlink, unit) act" where
  "downlink_passes P has_sock bps [] = lift_res (Inr ())"
| "downlink_passes P has_sock bps (e # es) =
     abind (downlink_pass P has_sock bps e) (\<lambda>_. downlink_passes P has_sock bps es)"

definition downlink_start :: "int option \<Rightarrow> downlink res" where
  "downlink_start sock =
     (case sock of None \<Rightarrow> Inl AttributeError
      | Some b \<Rightarrow> Inr \<lparr>last_sample = None, sock_buf_size = b, actions = []\<rparr>)"

definition downlink_loop :: "pydantic \<Rightarrow> int option \<Rightarrow> int \<Rightarrow> pass list \<Rightarrow> unit res \<times> action list" where
  "downlink_loop P sock bps es =
     (case downlink_start sock of
        Inl e \<Rightarrow> (Inl e, [])
      | Inr st \<Rightarrow> (case downlink_passes P True bps es st of (r, st') \<Rightarrow> (r, actions st')))"

subsection \<open>Commands\<close>

text \<open>\<open>handle_subscribe\<close> logs a cancellation and raises it again.\<close>

definition handle_subscribe :: "pydantic \<Rightarrow> int option \<Rightarrow> int \<Rightarrow> pass list \<Rightarrow> unit res \<times> action list" where
  "handle_subscribe P sock bps es =
     (case downlink_loop P sock bps es of
        (Inl CancelledError, as) \<Rightarrow> (Inl CancelledError, as)
      | r \<Rightarrow> r)"

text \<open>
  \<open>list(...)\<close> of a set lists its elements in an order of the implementation, the argument
  \<open>order\<close>. The scan of the server may not end (\<open>None\<close>).
\<close>

definition handle_get_metric_ids ::
  "pydantic \<Rightarrow> (pystr set \<Rightarrow> pystr list) \<Rightarrow> pystr set res option \<Rightarrow> unit res \<Rightarrow> (unit res \<times> action list) option" where
  "handle_get_metric_ids P order ids dr =
     (case ids of
        None \<Rightarrow> None
      | Some r \<Rightarrow> Some
          (case rbind r (\<lambda>s.
              rbind (metric_ids_validate P (PDict [(u ''metric_ids'', PList (map PStr (order s)))])) (\<lambda>m.
              rbind (telemetry_of P T_METRIC_IDS (Obj m)) (\<lambda>t. rbind (telemetry_dump_json P t) utf8_encode))) of
             Inl e \<Rightarrow> (Inl e, [])
           | Inr bs \<Rightarrow> (dr, [Write bs])))"

definition run_command ::
  "pydantic \<Rightarrow> (pystr set \<Rightarrow> pystr list) \<Rightarrow> pystr set res option \<Rightarrow> unit res \<Rightarrow> int option \<Rightarrow> (pystr \<Rightarrow> pass list) \<Rightarrow>
   command \<Rightarrow> (unit res \<times> action list) option" where
  "run_command P order ids dr sock passes c =
     (case c of
        Subscribe m bps \<Rightarrow> Some (handle_subscribe P sock bps (passes m))
      | GetMetricIds \<Rightarrow> handle_get_metric_ids P order ids dr
      | _ \<Rightarrow> Some (Inr (), []))"

subsection \<open>The trace\<close>

fun writes :: "action list \<Rightarrow> byte list list" where
  "writes [] = []"
| "writes (Write b # as) = b # writes as"
| "writes (_ # as) = writes as"

definition seconds :: "pyfloat \<Rightarrow> rat" where
  "seconds f = (case fval f of None \<Rightarrow> 0 | Some q \<Rightarrow> q)"

fun slept :: "action list \<Rightarrow> rat" where
  "slept [] = 0"
| "slept (SleepFor f # as) = seconds f + slept as"
| "slept (_ # as) = slept as"

lemma writes_append [simp]: "writes (as @ bs) = writes as @ writes bs"
  by (induction as rule: writes.induct) auto

lemma slept_append [simp]: "slept (as @ bs) = slept as + slept bs"
  by (induction as rule: slept.induct) auto

text \<open>The message a sample becomes.\<close>

definition sample_bytes :: "pydantic \<Rightarrow> sample \<Rightarrow> byte list res" where
  "sample_bytes P s = rbind (telemetry_dump_json P \<lparr>which_type = T_SAMPLE, tm_data = SampleMsg s\<rparr>) utf8_encode"

lemma downlink_latest_sample_eq:
  "downlink_latest_sample P dr s st =
    (case sample_bytes P s of Inl e \<Rightarrow> (Inl e, st)
     | Inr bs \<Rightarrow> (rbind dr (\<lambda>_. Inr (int (length bs))), st\<lparr>actions := actions st @ [Write bs]\<rparr>))"
proof -
  have t: "telemetry_of P T_SAMPLE (Obj (SampleMsg s)) = Inr \<lparr>which_type = T_SAMPLE, tm_data = SampleMsg s\<rparr>"
    by (simp add: telemetry_of_def tm_is_data_valid_def)
  show ?thesis
  proof (cases "sample_bytes P s")
    case (Inr bs)
    then show ?thesis
      by (cases dr) (simp_all add: downlink_latest_sample_def t sample_bytes_def emit_def abind_def)
  qed (simp add: downlink_latest_sample_def t sample_bytes_def)
qed

lemma adjust_buffer_Inr: "adjust_buffer hs so n st = (Inr r, st') \<longleftrightarrow>
   (if hs \<and> 0 < n \<and> (sock_buf_size st < n + 1 \<or> n * 2 < sock_buf_size st)
    then so = Inr () \<and> st' = st\<lparr>sock_buf_size := n * 2, actions := actions st @ [SetSndBuf (n * 2)]\<rparr>
    else st' = st)"
  by (cases so) (auto simp: adjust_buffer_def abind_def emit_def)

lemma min_sleep_half: "true_div 1 max_downlink_hz = Inr (Fin (1 / 2))"
  by (simp add: max_downlink_hz_def true_div_half)

lemma true_div_seconds: "true_div a b = Inr q \<Longrightarrow>
    1 / 2 \<le> seconds (fmax (Fin (1 / 2)) q) \<and> 0 \<le> seconds (fmax (Fin (1 / 2)) q)"
proof -
  assume "true_div a b = Inr q"
  then obtain v where "q = Fin v \<or> q = NegZero"
    by (auto simp: true_div_def fl_abs_def Let_def split: if_splits)
  then show ?thesis by (auto simp: fmax_def seconds_def)
qed

text \<open>One pass over a new sample: what it does before it fails, and its effect when it does not.\<close>

lemma downlink_new_trace:
  assumes "downlink_new P hs bps e s st = (r, st')"
  shows "\<exists>blk. actions st' = actions st @ blk \<and> length (writes blk) \<le> 1 \<and> 0 \<le> slept blk \<and>
    (r = Inr () \<longrightarrow> 1 / 2 \<le> slept blk)"
proof (cases "sample_bytes P s")
  case (Inl e')
  with assms show ?thesis by (auto simp: downlink_new_def downlink_latest_sample_eq abind_def)
next
  case (Inr bs)
  let ?st = "st\<lparr>last_sample := Some s, actions := actions st @ [Write bs]\<rparr>"
  let ?n = "int (length bs)"
  show ?thesis
  proof (cases "drained e")
    case (Inl e')
    with Inr assms show ?thesis by (auto simp: downlink_new_def downlink_latest_sample_eq abind_def)
  next
    case d: (Inr v)
    obtain r2 st2 where 2: "adjust_buffer hs (setopt e) ?n ?st = (r2, st2)" by fastforce
    have "\<exists>b2. actions st2 = actions ?st @ b2 \<and> writes b2 = [] \<and> slept b2 = 0"
      using 2 by (cases "setopt e") (auto simp: adjust_buffer_def abind_def emit_def split: if_splits)
    then obtain b2 where b2: "actions st2 = actions st @ Write bs # b2" "writes b2 = []" "slept b2 = 0"
      by auto
    have "downlink_new P hs bps e s st = (case r2 of Inl e' \<Rightarrow> (Inl e', st2)
      | Inr _ \<Rightarrow> (case true_div ?n bps of Inl e' \<Rightarrow> (Inl e', st2)
        | Inr q \<Rightarrow> emit (SleepFor (fmax (Fin (1 / 2)) q)) st2))"
      using Inr d 2 by (cases "true_div ?n bps"; cases r2)
        (simp_all add: downlink_new_def downlink_latest_sample_eq abind_def min_sleep_half)
    with assms b2 true_div_seconds show ?thesis
      by (auto simp: emit_def split: sum.splits)
  qed
qed

lemma downlink_new_ok:
  "downlink_new P hs bps e s st = (Inr r, st') \<longleftrightarrow> (\<exists>bs q st2. sample_bytes P s = Inr bs \<and> drained e = Inr () \<and>
     adjust_buffer hs (setopt e) (int (length bs)) (st\<lparr>last_sample := Some s, actions := actions st @ [Write bs]\<rparr>) = (Inr (), st2) \<and>
     true_div (int (length bs)) bps = Inr q \<and>
     st' = st2\<lparr>actions := actions st2 @ [SleepFor (fmax (Fin (1 / 2)) q)]\<rparr>)"
  by (auto simp: downlink_new_def downlink_latest_sample_eq res_simps min_sleep_half emit_def split: sum.splits)

lemma downlink_pass_trace:
  assumes "downlink_pass P hs bps e st = (r, st')"
  shows "\<exists>blk. actions st' = actions st @ blk \<and> length (writes blk) \<le> 1 \<and> 0 \<le> slept blk \<and>
    (r = Inr () \<longrightarrow> 1 / 2 \<le> slept blk)"
proof (cases "got e")
  case (Inl x)
  with assms show ?thesis by (auto simp: downlink_pass_def)
next
  case (Inr v)
  show ?thesis
  proof (cases "\<exists>s. v = Some s \<and> is_new (last_sample st) s")
    case True
    then obtain s where "downlink_pass P hs bps e st = downlink_new P hs bps e s st"
      using Inr by (auto simp: downlink_pass_def)
    with assms downlink_new_trace show ?thesis by metis
  next
    case False
    then have "downlink_pass P hs bps e st = emit (SleepFor (Fin 1)) st"
      using Inr by (auto simp: downlink_pass_def split: option.splits)
    with assms show ?thesis by (auto simp: emit_def seconds_def)
  qed
qed

lemma downlink_passes_trace:
  "downlink_passes P hs bps es st = (r, st') \<Longrightarrow>
    \<exists>blk. actions st' = actions st @ blk \<and> of_nat (length (writes blk)) \<le> 2 * slept blk + (if r = Inr () then 0 else 1)"
proof (induction es arbitrary: st)
  case (Cons e es)
  obtain r1 st1 where 1: "downlink_pass P hs bps e st = (r1, st1)" by fastforce
  obtain b1 where b1: "actions st1 = actions st @ b1" "length (writes b1) \<le> 1" "0 \<le> slept b1"
      "r1 = Inr () \<longrightarrow> 1 / 2 \<le> slept b1"
    using downlink_pass_trace [OF 1] by blast
  from b1(2) have w: "(of_nat (length (writes b1)) :: rat) \<le> 1" by (cases "length (writes b1)") auto
  show ?case
  proof (cases r1)
    case (Inl x)
    then have "st' = st1" "r = Inl x" using Cons.prems 1 by auto
    with b1 w show ?thesis by (intro exI [of _ b1]) simp
  next
    case (Inr y)
    then have "downlink_passes P hs bps es st1 = (r, st')" using Cons.prems 1 by simp
    then obtain b2 where b2: "actions st' = actions st1 @ b2"
        "of_nat (length (writes b2)) \<le> 2 * slept b2 + (if r = Inr () then 0 else 1)"
      using Cons.IH by blast
    with b1 w Inr show ?thesis by (intro exI [of _ "b1 @ b2"]) auto
  qed
qed (auto intro: exI [of _ "[]"])

text \<open>The sleep after a message, in the time it takes at \<open>bps\<close> up to the rounding of the quotient.\<close>

abbreviation full_precision :: rat where
  "full_precision \<equiv> 1 - 1 / 2 ^ 53"

lemma sleep_covers:
  assumes "true_div (int n) bps = Inr q" "0 < bps"
  shows "of_nat n * full_precision \<le> of_int bps * seconds (fmax (Fin (1 / 2)) q)"
proof -
  let ?x = "of_nat n / of_int bps :: rat"
  have q: "q = Fin (round_double ?x)"
    using assms by (auto simp: true_div_def fl_abs_def Let_def split: if_splits)
  have b: "(0 :: rat) < of_int bps" using assms(2) by simp
  have n: "of_nat n = ?x * of_int bps" using b by simp
  have half: "1 / 2 \<le> seconds (fmax (Fin (1 / 2)) q)" "round_double ?x \<le> seconds (fmax (Fin (1 / 2)) q)"
    unfolding q by (auto simp: fmax_def seconds_def)
  have "?x * full_precision \<le> seconds (fmax (Fin (1 / 2)) q)"
  proof (cases "1 / 2 \<le> ?x")
    case True
    from round_double_low [OF this] half(2) show ?thesis by linarith
  next
    case False
    have "?x * full_precision \<le> ?x * 1" using b by (intro mult_left_mono) simp_all
    with False half(1) show ?thesis by linarith
  qed
  then have "?x * full_precision * of_int bps \<le> seconds (fmax (Fin (1 / 2)) q) * of_int bps"
    using b by (intro mult_right_mono) simp_all
  then show ?thesis using n b by (simp add: mult.commute mult.left_commute)
qed

definition covered :: "int \<Rightarrow> byte list list \<Rightarrow> rat \<Rightarrow> bool" where
  "covered bps ws t \<longleftrightarrow> of_nat (length (concat ws)) * full_precision \<le> of_int bps * t"

lemma covered_append: "covered bps ws t \<Longrightarrow> covered bps ws' t' \<Longrightarrow> covered bps (ws @ ws') (t + t')"
  unfolding covered_def by (simp add: distrib_left distrib_right del: length_concat)

lemma covered_fewer:
  "covered bps ws t \<Longrightarrow> length (concat ws') \<le> length (concat ws) \<Longrightarrow> covered bps ws' t"
  unfolding covered_def by (rule order_trans [OF mult_right_mono]) (simp_all only: of_nat_le_iff, simp)

lemma downlink_pass_bytes:
  assumes "downlink_pass P hs bps e st = (Inr r, st')" "0 < bps"
  shows "\<exists>blk. actions st' = actions st @ blk \<and> covered bps (writes blk) (slept blk)"
proof -
  obtain v where v: "got e = Inr v" using assms(1) by (cases "got e") (auto simp: downlink_pass_def)
  show ?thesis
  proof (cases "\<exists>s. v = Some s \<and> is_new (last_sample st) s")
    case True
    then obtain s where "downlink_new P hs bps e s st = (Inr r, st')"
      using v assms(1) by (auto simp: downlink_pass_def)
    then obtain bs q st2 where b: "adjust_buffer hs (setopt e) (int (length bs))
        (st\<lparr>last_sample := Some s, actions := actions st @ [Write bs]\<rparr>) = (Inr (), st2)"
      "true_div (int (length bs)) bps = Inr q" "st' = st2\<lparr>actions := actions st2 @ [SleepFor (fmax (Fin (1 / 2)) q)]\<rparr>"
      unfolding downlink_new_ok by blast
    then obtain so where "actions st' = actions st @ [Write bs] @ so @ [SleepFor (fmax (Fin (1 / 2)) q)]" "so = [] \<or> (\<exists>n. so = [SetSndBuf n])"
      by (auto simp: adjust_buffer_Inr split: if_splits)
    with sleep_covers [OF b(2) assms(2)] show ?thesis
      by (intro exI [of _ "[Write bs] @ so @ [SleepFor (fmax (Fin (1 / 2)) q)]"]) (auto simp: covered_def)
  next
    case False
    then have "downlink_pass P hs bps e st = emit (SleepFor (Fin 1)) st"
      using v by (auto simp: downlink_pass_def split: option.splits)
    with assms show ?thesis
      by (intro exI [of _ "[SleepFor (Fin 1)]"]) (auto simp: emit_def covered_def seconds_def)
  qed
qed

lemma downlink_passes_bytes:
  "downlink_passes P hs bps es st = (r, st') \<Longrightarrow> 0 < bps \<Longrightarrow>
    \<exists>blk. actions st' = actions st @ blk \<and> covered bps (if r = Inr () then writes blk else butlast (writes blk)) (slept blk)"
proof (induction es arbitrary: st)
  case (Cons e es)
  obtain r1 st1 where 1: "downlink_pass P hs bps e st = (r1, st1)" by fastforce
  show ?case
  proof (cases r1)
    case (Inl x)
    then have s: "st' = st1" "r = Inl x" using Cons.prems 1 by auto
    obtain b1 where b1: "actions st1 = actions st @ b1" "length (writes b1) \<le> 1" "0 \<le> slept b1"
      using downlink_pass_trace [OF 1] by blast
    have "butlast (writes b1) = []" using b1(2) by (cases "writes b1") auto
    with b1 s Cons.prems(2) show ?thesis by (intro exI [of _ b1]) (simp add: covered_def)
  next
    case (Inr y)
    obtain b1 where b1: "actions st1 = actions st @ b1" "covered bps (writes b1) (slept b1)"
      using downlink_pass_bytes [OF 1 [unfolded Inr] Cons.prems(2)] by blast
    have "downlink_passes P hs bps es st1 = (r, st')" using Cons.prems 1 Inr by simp
    then obtain b2 where b2: "actions st' = actions st1 @ b2"
        "covered bps (if r = Inr () then writes b2 else butlast (writes b2)) (slept b2)"
      using Cons.IH Cons.prems(2) by blast
    have "covered bps (if r = Inr () then writes (b1 @ b2) else butlast (writes (b1 @ b2))) (slept (b1 @ b2))"
    proof (cases "r = Inr () \<or> writes b2 \<noteq> []")
      case True
      with covered_append [OF b1(2) b2(2)] show ?thesis by (auto simp: butlast_append)
    next
      case False
      then have "covered bps (writes b1 @ []) (slept b1 + slept b2)" using covered_append [OF b1(2) b2(2)] by simp
      then have "covered bps (butlast (writes b1)) (slept b1 + slept b2)"
        by (rule covered_fewer) (cases "writes b1" rule: rev_cases, simp_all del: length_concat)
      with False show ?thesis by simp
    qed
    with b1(1) b2(1) show ?thesis by (intro exI [of _ "b1 @ b2"]) simp
  qed
qed (auto intro: exI [of _ "[]"] simp: covered_def)

subsection \<open>What is sent\<close>

text \<open>The samples that differ from the one before them: what a subscriber should see.\<close>

fun fresh :: "sample option \<Rightarrow> sample option list \<Rightarrow> sample list" where
  "fresh p [] = []"
| "fresh p (None # vs) = fresh p vs"
| "fresh None (Some s # vs) = s # fresh (Some s) vs"
| "fresh (Some l) (Some s # vs) = (if sample_eq s l then fresh (Some l) vs else s # fresh (Some s) vs)"

lemma fresh_Some [simp]: "fresh p (Some s # vs) = (if is_new p s then s # fresh (Some s) vs else fresh p vs)"
  by (cases p) (simp_all add: is_new_def)

declare fresh.simps(3,4) [simp del]

abbreviation sample_telemetry :: "sample \<Rightarrow> telemetry" where
  "sample_telemetry s \<equiv> \<lparr>which_type = T_SAMPLE, tm_data = SampleMsg s\<rparr>"

lemma adjust_buffer_keeps: "adjust_buffer hs so n st = (Inr r, st') \<Longrightarrow>
    last_sample st' = last_sample st \<and> writes (actions st') = writes (actions st)"
  by (auto simp: adjust_buffer_Inr split: if_splits)

lemma downlink_pass_ok:
  assumes "downlink_pass P hs bps e st = (Inr r, st')"
  shows "\<exists>v bss. got e = Inr v \<and> traverse (sample_bytes P) (fresh (last_sample st) [v]) = Inr bss \<and>
    writes (actions st') = writes (actions st) @ bss \<and>
    fresh (last_sample st) (v # vs) = fresh (last_sample st) [v] @ fresh (last_sample st') vs"
proof -
  from assms obtain v where v: "got e = Inr v" by (cases "got e") (auto simp: downlink_pass_def)
  show ?thesis
  proof (cases "\<exists>s. v = Some s \<and> is_new (last_sample st) s")
    case True
    then obtain s where s: "v = Some s" "is_new (last_sample st) s" by blast
    then have "downlink_new P hs bps e s st = (Inr r, st')" using assms v by (simp add: downlink_pass_def)
    then show ?thesis using v s by (auto simp: downlink_new_ok dest: adjust_buffer_keeps)
  next
    case False
    then have "st' = st\<lparr>actions := actions st @ [SleepFor (Fin 1)]\<rparr>"
      using assms v by (auto simp: downlink_pass_def emit_def split: option.splits)
    with False v show ?thesis by (cases v) auto
  qed
qed

lemma downlink_passes_ok:
  "downlink_passes P hs bps es st = (Inr r, st') \<Longrightarrow>
    \<exists>vs bss. traverse got es = Inr vs \<and> traverse (sample_bytes P) (fresh (last_sample st) vs) = Inr bss \<and>
      writes (actions st') = writes (actions st) @ bss"
proof (induction es arbitrary: st)
  case (Cons e es)
  then obtain st1 where 1: "downlink_pass P hs bps e st = (Inr (), st1)" "downlink_passes P hs bps es st1 = (Inr r, st')"
    by (auto simp: res_simps)
  obtain vs bss where 2: "traverse got es = Inr vs" "traverse (sample_bytes P) (fresh (last_sample st1) vs) = Inr bss"
      "writes (actions st') = writes (actions st1) @ bss"
    using Cons.IH [OF 1(2)] by blast
  with downlink_pass_ok [OF 1(1), of vs] show ?case
    by (fastforce simp: traverse_append)
qed auto

subsection \<open>Properties\<close>

lemma downlink_writes:
  assumes "downlink_loop P (Some b) bps es = (Inr (), as)" "traverse got es = Inr vs"
  shows "traverse (sample_bytes P) (fresh None vs) = Inr (writes as)"
proof -
  from assms(1) obtain st' where st:
      "downlink_passes P True bps es \<lparr>last_sample = None, sock_buf_size = b, actions = []\<rparr> = (Inr (), st')" "actions st' = as"
    by (auto simp: downlink_loop_def downlink_start_def split: prod.splits)
  from downlink_passes_ok [OF st(1)] assms(2) st(2) show ?thesis by auto
qed

lemma fresh_subset: "s \<in> set (fresh p vs) \<Longrightarrow> Some s \<in> set vs"
  by (induction p vs rule: fresh.induct) (auto simp: is_new_def split: if_splits)

lemma writes_decode:
  "traverse (sample_bytes P) ss = Inr bss \<Longrightarrow>
    (\<And>s bs. s \<in> set ss \<Longrightarrow> sample_bytes P s = Inr bs \<Longrightarrow> client_decode P bs = Inr (f s)) \<Longrightarrow>
    traverse (client_decode P) bss = Inr (map f ss)"
  by (induction ss arbitrary: bss) (auto simp: res_simps)

context pydantic_api
begin

lemma telemetry_bytes_decode:
  assumes "tm_sendable ok t" "rbind (telemetry_dump_json P t) utf8_encode = Inr bs"
  shows "client_decode P bs = Inr t"
proof -
  from assms(2) obtain j where j: "telemetry_dump_json P t = Inr j" "utf8_encode j = Inr bs"
    by (auto simp: res_simps)
  then show ?thesis
    using telemetry_round [OF assms(1)] utf8_decode_encode [OF j(2)] by (simp add: client_decode_def)
qed

lemma sample_bytes_decode:
  "tm_sendable ok (sample_telemetry s) \<Longrightarrow> sample_bytes P s = Inr bs \<Longrightarrow> client_decode P bs = Inr (sample_telemetry s)"
  by (rule telemetry_bytes_decode) (auto simp: sample_bytes_def)

lemma downlink_decodes:
  assumes "downlink_loop P (Some b) bps es = (Inr (), as)" "traverse got es = Inr vs"
    and "\<And>s. Some s \<in> set vs \<Longrightarrow> tm_sendable ok (sample_telemetry s)"
  shows "traverse (client_decode P) (writes as) = Inr (map sample_telemetry (fresh None vs))"
  using downlink_writes [OF assms(1,2)]
  by (rule writes_decode) (blast dest: fresh_subset intro: sample_bytes_decode assms(3))

end

lemma strict_bytes:
  assumes "json_ok v"
  shows "\<exists>bs. rbind (pd_write strict_pydantic v) utf8_encode = Inr bs \<and> bs \<noteq> []"
proof -
  obtain j where j: "json_dumps v = Inr j" using json_dumps_ok [OF assms] by blast
  then have "utf8_encode j = Inr (bytes_of_ints j)"
    using json_dumps_plain [OF assms] utf8_encode_ascii plain_ascii by blast
  moreover have "j \<noteq> []" using py.write_head [OF j assms] by auto
  ultimately show ?thesis using j assms by (simp add: strict_pydantic_def bytes_of_ints_def)
qed

lemma strict_telemetry_bytes:
  assumes "tm_sendable json_ok t"
  shows "\<exists>bs. rbind (telemetry_dump_json strict_pydantic t) utf8_encode = Inr bs \<and> bs \<noteq> []"
  using strict_bytes assms by (auto simp: tm_sendable_def telemetry_dump_json_def split: sum.splits)

lemma strict_telecommand_bytes:
  "tc_sendable json_ok tc \<Longrightarrow> \<exists>bs. rbind (telecommand_dump_json strict_pydantic tc) utf8_encode = Inr bs \<and> bs \<noteq> []"
  by (simp add: tc_sendable_def telecommand_dump_json_def strict_bytes)

definition demo_wire :: sample where
  "demo_wire = cpu_sample\<lparr>sample_class := Sample\<rparr>"

lemma demo_wire_bytes: "\<exists>bs. sample_bytes strict_pydantic demo_wire = Inr bs \<and> bs \<noteq> []"
  using strict_telemetry_bytes [OF demo_tm_sendable] by (simp add: sample_bytes_def demo_wire_def)

definition demo_pass :: pass where
  "demo_pass = \<lparr>got = Inr (Some demo_wire), drained = Inr (), setopt = Inr ()\<rparr>"

lemma demo_wire_same: "sample_eq demo_wire demo_wire"
  by (simp add: sample_eq_def demo_wire_def cpu_sample_def prim_eq_def)

lemma adjust_buffer_succeeds: "\<exists>st2. adjust_buffer hs (Inr ()) n st = (Inr (), st2)"
  by (simp add: adjust_buffer_def abind_def emit_def)

text \<open>A rate at which the message takes a second.\<close>

definition demo_bps :: int where
  "demo_bps = (case sample_bytes strict_pydantic demo_wire of Inl _ \<Rightarrow> 0 | Inr bs \<Rightarrow> int (length bs))"

lemma demo_two_passes: "\<exists>as. downlink_loop strict_pydantic (Some 4096) demo_bps [demo_pass, demo_pass] = (Inr (), as)"
proof -
  let ?st = "\<lparr>last_sample = None, sock_buf_size = 4096, actions = []\<rparr>"
  obtain bs where bs: "sample_bytes strict_pydantic demo_wire = Inr bs" "bs \<noteq> []" using demo_wire_bytes by blast
  have "true_div (int (length bs)) (int (length bs)) = Inr (Fin 1)"
    using bs(2) fl_abs_1 by (simp add: true_div_def)
  moreover obtain st2 where 2: "adjust_buffer True (Inr ()) (int (length bs))
      (?st\<lparr>last_sample := Some demo_wire, actions := [Write bs]\<rparr>) = (Inr (), st2)"
    using adjust_buffer_succeeds by blast
  ultimately obtain st1 where 1: "downlink_new strict_pydantic True (int (length bs)) demo_pass demo_wire ?st = (Inr (), st1)"
      "last_sample st1 = Some demo_wire"
    using bs adjust_buffer_keeps [OF 2] by (fastforce simp: downlink_new_ok demo_pass_def)
  then have "downlink_pass strict_pydantic True (int (length bs)) demo_pass ?st = (Inr (), st1)"
    by (simp add: downlink_pass_def demo_pass_def is_new_def)
  moreover have "\<exists>st3. downlink_pass strict_pydantic True (int (length bs)) demo_pass st1 = (Inr (), st3)"
    using 1(2) by (simp add: downlink_pass_def demo_pass_def is_new_def demo_wire_same emit_def)
  ultimately have "\<exists>as. downlink_loop strict_pydantic (Some 4096) (int (length bs)) [demo_pass, demo_pass] = (Inr (), as)"
    by (auto simp: downlink_loop_def downlink_start_def)
  then show ?thesis using bs(1) by (simp add: demo_bps_def)
qed

text \<open>C6: A run of the downlink loop sends, in order, one message for every sample that differs from the
  sample before it, and nothing else; the client decodes each message to that sample.\<close>

theorem downlink_sends_fresh:
  assumes "pydantic_api P ok" "downlink_loop P (Some b) bps es = (Inr (), as)" "traverse got es = Inr vs"
    and "\<And>s. Some s \<in> set vs \<Longrightarrow> tm_sendable ok (sample_telemetry s)"
  shows "traverse (client_decode P) (writes as) = Inr (map sample_telemetry (fresh None vs))"
  by (rule pydantic_api.downlink_decodes [OF assms])

theorem downlink_sends_fresh_witness:
  "\<exists>bps as bs. downlink_loop strict_pydantic (Some 4096) bps [demo_pass, demo_pass] = (Inr (), as) \<and>
    writes as = [bs] \<and> client_decode strict_pydantic bs = Inr (sample_telemetry demo_wire)"
proof -
  obtain bps as where run: "downlink_loop strict_pydantic (Some 4096) bps [demo_pass, demo_pass] = (Inr (), as)"
    using demo_two_passes by blast
  have "traverse got [demo_pass, demo_pass] = Inr [Some demo_wire, Some demo_wire]" by (simp add: demo_pass_def)
  moreover have "tm_sendable json_ok (sample_telemetry demo_wire)" using demo_tm_sendable by (simp add: demo_wire_def)
  ultimately have "traverse (client_decode strict_pydantic) (writes as) =
      Inr (map sample_telemetry (fresh None [Some demo_wire, Some demo_wire]))"
    using downlink_sends_fresh [OF strict.pydantic_api_axioms run] by simp
  moreover have "fresh None [Some demo_wire, Some demo_wire] = [demo_wire]" by (simp add: is_new_def demo_wire_same)
  ultimately have "traverse (client_decode strict_pydantic) (writes as) = Inr [sample_telemetry demo_wire]" by simp
  then obtain bs where "writes as = [bs]" "client_decode strict_pydantic bs = Inr (sample_telemetry demo_wire)"
    by (cases "writes as") (auto simp: res_simps dest: traverse_length)
  with run show ?thesis by blast
qed

text \<open>However a run of the downlink loop goes and ends, it has sent at most \<open>max_downlink_hz\<close> messages per
  second slept, and one more.\<close>

theorem downlink_rate:
  "of_nat (length (writes (snd (downlink_loop P sock bps es)))) \<le>
    of_int max_downlink_hz * slept (snd (downlink_loop P sock bps es)) + 1"
proof (cases sock)
  case (Some b)
  obtain r st' where 1: "downlink_passes P True bps es \<lparr>last_sample = None, sock_buf_size = b, actions = []\<rparr> = (r, st')"
    by fastforce
  with downlink_passes_trace [OF 1] Some show ?thesis
    by (auto simp: downlink_loop_def downlink_start_def max_downlink_hz_def split: if_splits)
qed (simp add: downlink_loop_def downlink_start_def)

text \<open>C8: With a positive rate \<open>bps\<close> the bytes sent, all messages but the last and that one too once its sleep is over, never exceed
  \<open>bps\<close> times the seconds slept, up to the rounding of a double: so it limits bytes, not bits, per second.\<close>

theorem downlink_byte_rate:
  assumes "0 < bps" "downlink_loop P sock bps es = (r, as)"
  shows "of_nat (length (concat (butlast (writes as)))) * (1 - 1 / 2 ^ 53) \<le> of_int bps * slept as \<and>
    (r = Inr () \<longrightarrow> of_nat (length (concat (writes as))) * (1 - 1 / 2 ^ 53) \<le> of_int bps * slept as)"
proof (cases sock)
  case None
  with assms show ?thesis by (auto simp: downlink_loop_def downlink_start_def)
next
  case (Some b)
  obtain r' st' where 1: "downlink_passes P True bps es \<lparr>last_sample = None, sock_buf_size = b, actions = []\<rparr> = (r', st')"
    by fastforce
  have ra: "r' = r" "actions st' = as" using assms(2) Some 1 by (auto simp: downlink_loop_def downlink_start_def)
  have c: "covered bps (if r = Inr () then writes as else butlast (writes as)) (slept as)"
    using downlink_passes_bytes [OF 1 assms(1)] ra by simp
  moreover have "covered bps (butlast (writes as)) (slept as)"
    using c by (rule covered_fewer) (cases "writes as" rule: rev_cases, simp_all del: length_concat)
  ultimately show ?thesis by (auto simp: covered_def simp del: length_concat)
qed

theorem downlink_byte_rate_witness:
  "case downlink_loop strict_pydantic (Some 4096) 1000 [demo_pass, demo_pass] of (r, as) \<Rightarrow>
    of_nat (length (concat (butlast (writes as)))) * (1 - 1 / 2 ^ 53) \<le> 1000 * slept as"
proof -
  obtain r as where l: "downlink_loop strict_pydantic (Some 4096) 1000 [demo_pass, demo_pass] = (r, as)" by fastforce
  from downlink_byte_rate [OF _ this] show ?thesis by (simp add: l)
qed

text \<open>C30: A new sample is sent, then the loop asks the socket for a send buffer of twice the length of the message exactly
  when the size it knows is too small for one message or larger than two, and sleeps half a second or the length of the message in
  bytes over \<open>bps\<close>, whichever is longer. The size it knows is the one it asked for last, so
  afterwards it is enough for one message, and not more than for two.\<close>

theorem downlink_new_effect:
  fixes st :: downlink and bs :: "byte list"
  defines "n \<equiv> int (length bs)"
  defines "resize \<equiv> 0 < n \<and> (sock_buf_size st < n + 1 \<or> 2 * n < sock_buf_size st)"
  assumes "sample_bytes P s = Inr bs" "drained e = Inr ()" "setopt e = Inr ()" "true_div n bps = Inr q"
  shows "downlink_new P True bps e s st =
      (Inr (), st\<lparr>last_sample := Some s, sock_buf_size := (if resize then 2 * n else sock_buf_size st),
        actions := actions st @ Write bs # (if resize then [SetSndBuf (2 * n)] else []) @ [SleepFor (fmax (Fin (1 / 2)) q)]\<rparr>) \<and>
    (0 < n \<longrightarrow> (let size = (if resize then 2 * n else sock_buf_size st) in n + 1 \<le> size \<and> size \<le> 2 * n))"
proof (rule conjI)
  let ?st = "st\<lparr>last_sample := Some s, actions := actions st @ [Write bs]\<rparr>"
  let ?st2 = "st\<lparr>last_sample := Some s, sock_buf_size := (if resize then 2 * n else sock_buf_size st),
      actions := actions st @ Write bs # (if resize then [SetSndBuf (2 * n)] else [])\<rparr>"
  have "adjust_buffer True (setopt e) n ?st = (Inr (), ?st2)"
    using assms(5) by (cases resize) (auto simp: adjust_buffer_Inr resize_def mult.commute)
  then show "downlink_new P True bps e s st =
      (Inr (), st\<lparr>last_sample := Some s, sock_buf_size := (if resize then 2 * n else sock_buf_size st),
        actions := actions st @ Write bs # (if resize then [SetSndBuf (2 * n)] else []) @ [SleepFor (fmax (Fin (1 / 2)) q)]\<rparr>)"
    using assms(3,4,6) by (simp add: downlink_new_ok n_def [symmetric])
  show "0 < n \<longrightarrow> (let size = (if resize then 2 * n else sock_buf_size st) in n + 1 \<le> size \<and> size \<le> 2 * n)"
    by (simp add: resize_def)
qed

theorem downlink_new_effect_witness:
  "downlink_new \<lparr>pd_parse = json_loads, pd_write = (\<lambda>_. Inr [97]), pd_str = (\<lambda>_. None), pd_int = (\<lambda>_. None),
      pd_num = (\<lambda>_. None), pd_prim = (\<lambda>_. None), pd_first = (\<lambda>_. True)\<rparr> True 2 demo_pass demo_wire
      \<lparr>last_sample = None, sock_buf_size = 4096, actions = []\<rparr> =
    (Inr (), \<lparr>last_sample = Some demo_wire, sock_buf_size = 2,
      actions = [Write [97], SetSndBuf 2, SleepFor (fmax (Fin (1 / 2)) (Fin (1 / 2)))]\<rparr>)"
proof -
  let ?P = "\<lparr>pd_parse = json_loads, pd_write = (\<lambda>_. Inr [97]), pd_str = (\<lambda>_. None), pd_int = (\<lambda>_. None),
      pd_num = (\<lambda>_. None), pd_prim = (\<lambda>_. None), pd_first = (\<lambda>_. True)\<rparr>"
  have b: "sample_bytes ?P demo_wire = Inr [97]"
    using utf8_encode_ascii [of "[97]"]
    by (simp add: sample_bytes_def telemetry_dump_json_def telemetry_py_def demo_wire_def cpu_sample_def sample_py_def
        bytes_of_ints_def)
  have "true_div (int (length [97 :: byte])) 2 = Inr (Fin (1 / 2))" using true_div_half by simp
  from downlink_new_effect [OF b _ _ this, of demo_pass "\<lparr>last_sample = None, sock_buf_size = 4096, actions = []\<rparr>"]
  show ?thesis by (simp add: demo_pass_def)
qed

text \<open>C40: While the metric has no sample in the store, the asynchronous reader makes the downlink loop raise a
  \<open>ValidationError\<close> in its first pass, without a message: its test for a missing sample is never reached.\<close>

theorem downlink_missing_sample:
  assumes "rd_get R (cache_key m) s = Inr None" "got e = get_sample_async R P m s"
  shows "downlink_loop P (Some b) bps (e # es) = (Inl ValidationError, [])"
  using assms by (simp add: get_sample_async_def validate_json_bytes_def downlink_loop_def downlink_start_def downlink_pass_def)

theorem downlink_missing_sample_witness:
  "downlink_loop strict_pydantic (Some 4096) 1000
    [\<lparr>got = get_sample_async dict_redis strict_pydantic (u ''cpu'') empty_store, drained = Inr (), setopt = Inr ()\<rparr>]
    = (Inl ValidationError, [])"
  by (rule downlink_missing_sample [of dict_redis "u ''cpu''" empty_store]) (simp_all add: dict_redis_def empty_store_def)

text \<open>With a rate of 0 the first sample is sent and the loop then ends with a \<open>ZeroDivisionError\<close>.\<close>

theorem downlink_zero_bps:
  assumes "got e = Inr (Some s)" "drained e = Inr ()" "setopt e = Inr ()" "sample_bytes P s = Inr bs"
  shows "\<exists>as. downlink_loop P (Some b) 0 (e # es) = (Inl ZeroDivisionError, as) \<and> writes as = [bs]"
proof -
  let ?st = "\<lparr>last_sample = Some s, sock_buf_size = b, actions = [Write bs]\<rparr>"
  obtain r2 st2 where 2: "adjust_buffer True (setopt e) (int (length bs)) ?st = (r2, st2)" by fastforce
  then have "r2 = Inr ()" using assms(3)
    by (cases r2) (auto simp: adjust_buffer_def emit_def split: if_splits)
  moreover have "true_div n 0 = Inl ZeroDivisionError" for n by (simp add: true_div_def)
  ultimately have "downlink_passes P True 0 (e # es) \<lparr>last_sample = None, sock_buf_size = b, actions = []\<rparr> = (Inl ZeroDivisionError, st2)"
    using 2 assms by (simp add: downlink_pass_def downlink_new_def is_new_def downlink_latest_sample_eq min_sleep_half abind_def)
  moreover have "writes (actions st2) = [bs]" using 2 \<open>r2 = Inr ()\<close> adjust_buffer_keeps by fastforce
  ultimately show ?thesis by (simp add: downlink_loop_def downlink_start_def)
qed

theorem downlink_zero_bps_witness:
  "\<exists>bs as. downlink_loop strict_pydantic (Some 4096) 0 [demo_pass] = (Inl ZeroDivisionError, as) \<and> writes as = [bs]"
proof -
  obtain bs where "sample_bytes strict_pydantic demo_wire = Inr bs" using demo_wire_bytes by blast
  from downlink_zero_bps [OF _ _ _ this, of demo_pass 4096 "[]"] show ?thesis by (auto simp: demo_pass_def)
qed

context pydantic_api
begin

lemma ids_written:
  assumes "rbind (telemetry_dump_json P \<lparr>which_type = T_METRIC_IDS, tm_data = MetricIdsMsg (order S)\<rparr>) utf8_encode = Inr bs"
  shows "handle_get_metric_ids P order (Some (Inr S)) dr = Some (dr, [Write bs])"
proof -
  have "metric_ids_validate P (PDict [(u ''metric_ids'', PList (map PStr (order S)))]) = Inr (MetricIdsMsg (order S))"
    by (simp add: metric_ids_validate_def field_def str_list_back)
  with assms show ?thesis
    by (simp add: handle_get_metric_ids_def telemetry_of_def tm_is_data_valid_def del: u_simps)
qed

end

text \<open>The answer to \<open>GetMetricIds\<close> is one message, which the client decodes to a list of exactly the ids
  the store returned.\<close>

theorem get_metric_ids_answer:
  assumes "pydantic_api P ok" "set (order S) = S"
    and "tm_sendable ok \<lparr>which_type = T_METRIC_IDS, tm_data = MetricIdsMsg (order S)\<rparr>"
    and "handle_get_metric_ids P order (Some (Inr S)) dr = Some (Inr (), as)"
  shows "\<exists>bs ids. as = [Write bs] \<and> client_decode P bs = Inr \<lparr>which_type = T_METRIC_IDS, tm_data = MetricIdsMsg ids\<rparr> \<and> set ids = S"
proof -
  have m: "metric_ids_validate P (PDict [(u ''metric_ids'', PList (map PStr (order S)))]) = Inr (MetricIdsMsg (order S))"
    by (simp add: metric_ids_validate_def field_def pydantic_api.str_list_back [OF assms(1)])
  with assms(4) obtain bs where
    "rbind (telemetry_dump_json P \<lparr>which_type = T_METRIC_IDS, tm_data = MetricIdsMsg (order S)\<rparr>) utf8_encode = Inr bs"
    "as = [Write bs]"
    by (auto simp: handle_get_metric_ids_def telemetry_of_def tm_is_data_valid_def simp del: u_simps split: sum.splits)
  with pydantic_api.telemetry_bytes_decode [OF assms(1,3)] assms(2) show ?thesis by blast
qed

theorem get_metric_ids_answer_witness:
  "\<exists>as bs ids. handle_get_metric_ids strict_pydantic (\<lambda>_. [u ''a'']) (Some (Inr {u ''a''})) (Inr ()) = Some (Inr (), as) \<and>
    as = [Write bs] \<and> client_decode strict_pydantic bs = Inr \<lparr>which_type = T_METRIC_IDS, tm_data = MetricIdsMsg ids\<rparr> \<and>
    set ids = {u ''a''}"
proof -
  let ?t = "\<lparr>which_type = T_METRIC_IDS, tm_data = MetricIdsMsg [u ''a'']\<rparr>"
  have t: "tm_sendable json_ok ?t"
    by (simp add: tm_sendable_def tm_ok_def telemetry_py_def scalar_def dict_ok_def)
  then obtain bs where bs: "rbind (telemetry_dump_json strict_pydantic ?t) utf8_encode = Inr bs"
    using strict_telemetry_bytes by blast
  have "metric_ids_validate strict_pydantic (PDict [(u ''metric_ids'', PList (map PStr [u ''a'']))]) = Inr (MetricIdsMsg [u ''a''])"
    by (simp only: metric_ids_validate_def field_def model_dict_PDict rbind.simps strict.str_list_back map_of.simps
        fst_conv snd_conv fun_upd_same option.case)
  then have h: "handle_get_metric_ids strict_pydantic (\<lambda>_. [u ''a'']) (Some (Inr {u ''a''})) (Inr ()) = Some (Inr (), [Write bs])"
    using bs by (simp add: handle_get_metric_ids_def telemetry_of_def tm_is_data_valid_def del: u_simps)
  have "set ((\<lambda>_. [u ''a'']) {u ''a''}) = {u ''a''}" by simp
  from get_metric_ids_answer [OF strict.pydantic_api_axioms this t h] h show ?thesis by blast
qed

end
