(* ===== verification/CommandTelemetry.thy ===== *)
theory CommandTelemetry
  imports CommandMetrics OnboardCommands
begin

section \<open>The telemetry server: command/src/telemetry_server.py and its managers\<close>

text \<open>
  What the ground station does with a sample: the manager of the websocket clients passes it
  on to those who asked for its metric, the history manager keeps it in a sorted set of
  Redis, and a file is written to disk. Websockets are numbers; what a send gives, the
  sorted sets and the file system are parameters.
\<close>

subsection \<open>Websocket clients: telemetry_realtime_manager.py\<close>

record realtime =
  active_connections :: "(nat \<times> pystr set) list"

definition rt_connect :: "nat \<Rightarrow> unit res \<Rightarrow> (realtime, unit) act" where
  "rt_connect ws accepted =
     abind (lift_res accepted) (\<lambda>_ m. (Inr (), m\<lparr>active_connections := dict_set ws {} (active_connections m)\<rparr>))"

definition rt_disconnect :: "nat \<Rightarrow> (realtime, unit) act" where
  "rt_disconnect ws = (\<lambda>m.
     if ws \<in> fst ` set (active_connections m)
     then (Inr (), m\<lparr>active_connections := dict_del ws (active_connections m)\<rparr>)
     else (Inl KeyError, m))"

text \<open>\<open>self.active_connections[websocket].add(...)\<close> and \<open>.discard(...)\<close>.\<close>

definition rt_change :: "nat \<Rightarrow> (pystr set \<Rightarrow> pystr set) \<Rightarrow> (realtime, unit) act" where
  "rt_change ws f = (\<lambda>m.
     (case map_of (active_connections m) ws of
        None \<Rightarrow> (Inl KeyError, m)
      | Some S \<Rightarrow> (Inr (), m\<lparr>active_connections := dict_set ws (f S) (active_connections m)\<rparr>)))"

definition rt_message :: "nat \<Rightarrow> pystr \<Rightarrow> (realtime, unit) act" where
  "rt_message ws msg =
     (if startswith msg (u ''subscribe'') then
        abind (lift_res (py_index (split_on 32 msg) 1)) (\<lambda>m. rt_change ws (insert m))
      else if startswith msg (u ''unsubscribe'') then
        abind (lift_res (py_index (split_on 32 msg) 1)) (\<lambda>m. rt_change ws (\<lambda>S. S - {m}))
      else lift_res (Inr ()))"

text \<open>
  \<open>notify_all_subscribers\<close>: one send per client that asked for the metric; \<open>send\<close> tells how
  each of them ends. A send that fails fails the task group.
\<close>

definition recipients :: "pystr \<Rightarrow> realtime \<Rightarrow> nat list" where
  "recipients m rt = map fst (filter (\<lambda>(ws, S). m \<in> S) (active_connections rt))"

definition notify_all_subscribers ::
  "pydantic \<Rightarrow> (nat \<Rightarrow> unit res) \<Rightarrow> sample \<Rightarrow> realtime \<Rightarrow> unit res \<times> (nat \<times> pystr) list" where
  "notify_all_subscribers P send s rt =
     (case recipients (metric_id (metadata s)) rt of
        [] \<Rightarrow> (Inr (), [])
      | wss \<Rightarrow>
        (case sample_dump_json P s of
           Inl e \<Rightarrow> (Inl ExceptionGroup, [])
         | Inr j \<Rightarrow> (if list_all (\<lambda>ws. is_ok (send ws)) wss then Inr () else Inl ExceptionGroup,
             map (\<lambda>ws. (ws, j)) wss)))"

text \<open>
  The endpoints, one coroutine per websocket: \<open>rt_running\<close> are those still in their loop. Only
  a disconnect removes a client from the manager, any other exception just ends its endpoint.
\<close>

record rt_server =
  rt_manager :: realtime
  rt_running :: "nat set"

datatype rt_event = Connect nat | Receive nat "pystr res"

fun rt_step :: "rt_event \<Rightarrow> rt_server \<Rightarrow> rt_server" where
  "rt_step (Connect ws) s =
     (if ws \<in> rt_running s then s
      else s\<lparr>rt_manager := snd (rt_connect ws (Inr ()) (rt_manager s)), rt_running := insert ws (rt_running s)\<rparr>)"
| "rt_step (Receive ws r) s =
     (if ws \<notin> rt_running s then s
      else (case r of
          Inl WebSocketDisconnect \<Rightarrow>
            s\<lparr>rt_manager := snd (rt_disconnect ws (rt_manager s)), rt_running := rt_running s - {ws}\<rparr>
        | Inl e \<Rightarrow> s\<lparr>rt_running := rt_running s - {ws}\<rparr>
        | Inr msg \<Rightarrow>
          (case rt_message ws msg (rt_manager s) of
             (Inr _, m) \<Rightarrow> s\<lparr>rt_manager := m\<rparr>
           | (Inl e, m) \<Rightarrow> s\<lparr>rt_manager := m, rt_running := rt_running s - {ws}\<rparr>)))"

definition new_realtime :: rt_server where
  "new_realtime = \<lparr>rt_manager = \<lparr>active_connections = []\<rparr>, rt_running = {}\<rparr>"

subsection \<open>History: telemetry_history_manager.py\<close>

record 'z zset =
  zs_add :: "pystr \<Rightarrow> pystr \<Rightarrow> pynum \<Rightarrow> ('z, unit) act"
  zs_range :: "pystr \<Rightarrow> pyfloat \<Rightarrow> pyfloat \<Rightarrow> 'z \<Rightarrow> byte list list res"
  zs_keys :: "pystr \<Rightarrow> 'z \<Rightarrow> pystr list res"    \<comment> \<open>the keys that begin with the text\<close>
  zs_delete :: "pystr list \<Rightarrow> ('z, unit) act"

definition history_key :: "pystr \<Rightarrow> pystr" where
  "history_key m = u ''telemetry_history:'' @ m"

definition clear_history :: "'z zset \<Rightarrow> ('z, unit) act" where
  "clear_history Z = (\<lambda>z.
     abind (lift_res (zs_keys Z (u ''telemetry_history:'') z)) (\<lambda>ks.
       if ks = [] then lift_res (Inr ()) else zs_delete Z ks) z)"

definition history_add :: "'z zset \<Rightarrow> pydantic \<Rightarrow> sample \<Rightarrow> ('z, unit) act" where
  "history_add Z P s =
     abind (lift_res (sample_dump_json P s)) (\<lambda>j.
       zs_add Z (history_key (metric_id (metadata s))) j (timestamp (metadata s)))"

text \<open>\<open>parse\<close> stands for \<open>dateutil\<close>'s parser followed by \<open>timestamp()\<close>.\<close>

definition parse_date :: "(pystr \<Rightarrow> pyfloat res) \<Rightarrow> pystr \<Rightarrow> pyfloat res" where
  "parse_date parse s =
     (case parse s of
        Inr t \<Rightarrow> Inr t
      | Inl e \<Rightarrow> if is_value_error e then Inl (HTTPException 400) else Inl e)"

definition history_endpoint ::
  "'z zset \<Rightarrow> pydantic \<Rightarrow> (pystr \<Rightarrow> pyfloat res) \<Rightarrow> pystr \<Rightarrow> pystr \<Rightarrow> pystr \<Rightarrow> 'z \<Rightarrow> sample list res" where
  "history_endpoint Z P parse m start end z =
     rbind (parse_date parse start) (\<lambda>a.
     rbind (parse_date parse end) (\<lambda>b.
     rbind (zs_range Z (history_key m) a b z) (\<lambda>js.
       traverse (\<lambda>bs. validate_json_bytes P (Some bs)) js)))"

subsection \<open>Files: store_file_sample.py\<close>

record 'f files =
  fs_exists :: "pystr \<Rightarrow> 'f \<Rightarrow> bool"
  fs_makedirs :: "pystr \<Rightarrow> ('f, unit) act"
  fs_write :: "pystr \<Rightarrow> byte list \<Rightarrow> ('f, unit) act"

text \<open>\<open>os.path.join\<close> of two parts.\<close>

definition path_join :: "pystr \<Rightarrow> pystr \<Rightarrow> pystr" where
  "path_join a b =
     (if startswith b (u ''/'') then b
      else if a = [] \<or> last a = 47 then a @ b else a @ u ''/'' @ b)"

fun num_str :: "pynum \<Rightarrow> pystr" where
  "num_str (NumI i) = str_of_int i"
| "num_str (NumF f) = repr_float f"

definition metric_dir :: "pystr \<Rightarrow> sample \<Rightarrow> pystr" where
  "metric_dir dir s = path_join dir (u ''metric-'' @ metric_id (metadata s))"

definition sample_file :: "pystr \<Rightarrow> sample \<Rightarrow> pystr \<Rightarrow> pystr" where
  "sample_file dir s n =
     path_join (metric_dir dir s) (num_str (timestamp (metadata s)) @ u ''.'' @ last (split_on 46 n))"

definition make_metric_dir :: "'f files \<Rightarrow> pystr \<Rightarrow> sample \<Rightarrow> ('f, unit) act" where
  "make_metric_dir F dir s = (\<lambda>w.
     if fs_exists F (metric_dir dir s) w then (Inr (), w) else fs_makedirs F (metric_dir dir s) w)"

definition store_file_sample :: "'f files \<Rightarrow> pystr \<Rightarrow> sample \<Rightarrow> ('f, unit) act" where
  "store_file_sample F dir s =
     (case sample_data s of
        Prim _ \<Rightarrow> lift_res (Inl AssertionError)
      | File f \<Rightarrow>
        abind (make_metric_dir F dir s) (\<lambda>_.
          fs_write F (sample_file dir s (filename f)) (file_bytes f)))"

subsection \<open>The server\<close>

record ('z, 'f) telemetry_server =
  ts_realtime :: rt_server
  ts_history :: 'z
  ts_files :: 'f
  ts_sent :: "(nat \<times> pystr) list"

text \<open>
  \<open>add_sample\<close>: a task group of two or three tasks, which raises when one of them did. A task
  that failed makes the group cancel the others where they wait: with \<open>cut2\<close> the history
  task has not sent its command by then, with \<open>cut3\<close> the file task has only made the directory.
\<close>

definition add_sample ::
  "pydantic \<Rightarrow> 'z zset \<Rightarrow> 'f files \<Rightarrow> pystr \<Rightarrow> (nat \<Rightarrow> unit res) \<Rightarrow> bool \<Rightarrow> bool \<Rightarrow> sample \<Rightarrow>
   (('z, 'f) telemetry_server, unit) act" where
  "add_sample P Z F dir send cut2 cut3 s = (\<lambda>w.
     (case notify_all_subscribers P send s (rt_manager (ts_realtime w)) of (r1, out) \<Rightarrow>
      (case history_add Z P s (ts_history w) of (r2, z) \<Rightarrow>
       (case (if sample_class s = FileSample then store_file_sample F dir s (ts_files w) else (Inr (), ts_files w)) of (r3, f) \<Rightarrow>
         (if is_ok r1 \<and> is_ok r2 \<and> is_ok r3 then Inr () else Inl ExceptionGroup,
          w\<lparr>ts_sent := ts_sent w @ out,
            ts_history := (if cut2 \<and> \<not> (is_ok r1 \<and> is_ok r3) then ts_history w else z),
            ts_files := (if cut3 \<and> sample_class s = FileSample \<and> is_ok r3 \<and> \<not> (is_ok r1 \<and> is_ok r2)
              then snd (make_metric_dir F dir s (ts_files w)) else f)\<rparr>)))))"

definition telemetry_run :: "'z zset \<Rightarrow> unit res \<Rightarrow> (('z, 'f) telemetry_server, unit) act" where
  "telemetry_run Z srv = (\<lambda>w.
     (case clear_history Z (ts_history w) of
        (Inl e, z) \<Rightarrow> (Inl e, w\<lparr>ts_history := z\<rparr>)
      | (Inr _, z) \<Rightarrow> (srv, w\<lparr>ts_history := z\<rparr>)))"

subsection \<open>The contract of the realtime server\<close>

text \<open>
  What the clients are promised: each has the set of the metrics it asked for, changed by
  its own commands only, from joining to leaving.
\<close>

datatype client_event = Join nat | Ask nat pystr | Drop nat pystr | Part nat

fun render :: "client_event \<Rightarrow> rt_event" where
  "render (Join ws) = Connect ws"
| "render (Ask ws m) = Receive ws (Inr (u ''subscribe '' @ m))"
| "render (Drop ws m) = Receive ws (Inr (u ''unsubscribe '' @ m))"
| "render (Part ws) = Receive ws (Inl WebSocketDisconnect)"

text \<open>Metric ids without a space, which the text commands can carry.\<close>

fun sayable :: "client_event \<Rightarrow> bool" where
  "sayable (Ask ws m) = (32 \<notin> set m)"
| "sayable (Drop ws m) = (32 \<notin> set m)"
| "sayable _ = True"

fun client_spec :: "client_event \<Rightarrow> (nat \<rightharpoonup> pystr set) \<Rightarrow> (nat \<rightharpoonup> pystr set)" where
  "client_spec (Join ws) a = (if ws \<in> dom a then a else a(ws \<mapsto> {}))"
| "client_spec (Ask ws m) a = (case a ws of None \<Rightarrow> a | Some S \<Rightarrow> a(ws \<mapsto> insert m S))"
| "client_spec (Drop ws m) a = (case a ws of None \<Rightarrow> a | Some S \<Rightarrow> a(ws \<mapsto> S - {m}))"
| "client_spec (Part ws) a = a(ws := None)"

definition rt_abs :: "rt_server \<Rightarrow> (nat \<rightharpoonup> pystr set)" where
  "rt_abs s = map_of (active_connections (rt_manager s))"

definition rt_inv :: "rt_server \<Rightarrow> bool" where
  "rt_inv s \<longleftrightarrow> dict_ok (active_connections (rt_manager s)) \<and> rt_running s = dom (rt_abs s)"

text \<open>A text command is cut at its space; the second part is the metric id.\<close>

lemma split_command: "32 \<notin> set c \<Longrightarrow> 32 \<notin> set m \<Longrightarrow> py_index (split_on 32 (c @ 32 # m)) 1 = Inr m"
  by (simp add: split_on_sep split_on_none py_index_1)

lemma rt_message_ask:
  "32 \<notin> set m \<Longrightarrow> rt_message ws (u ''subscribe '' @ m) = rt_change ws (insert m)"
  using split_command [of "u ''subscribe''" m] by (simp add: rt_message_def startswith_def)

lemma rt_message_drop:
  "32 \<notin> set m \<Longrightarrow> rt_message ws (u ''unsubscribe '' @ m) = rt_change ws (\<lambda>S. S - {m})"
  using split_command [of "u ''unsubscribe''" m] by (simp add: rt_message_def startswith_def)

lemma in_connections: "ws \<in> fst ` set d \<longleftrightarrow> (\<exists>S. map_of d ws = Some S)"
  using in_dict [of ws d] by auto

lemma rt_commute:
  assumes "rt_inv s" "sayable e"
  shows "rt_inv (rt_step (render e) s) \<and> rt_abs (rt_step (render e) s) = client_spec e (rt_abs s)"
proof -
  have run: "ws \<in> rt_running s \<longleftrightarrow> (\<exists>S. map_of (active_connections (rt_manager s)) ws = Some S)" for ws
    using assms(1) by (auto simp: rt_inv_def rt_abs_def)
  have d: "dict_ok (active_connections (rt_manager s))" "rt_running s = dom (rt_abs s)"
    using assms(1) by (simp_all add: rt_inv_def)
  show ?thesis
  proof (cases e)
    case (Join ws)
    then show ?thesis using assms(1) run [of ws] d
      by (auto simp: rt_inv_def rt_abs_def rt_connect_def dict_simps dict_set_ok)
  next
    case (Ask ws m)
    then show ?thesis using assms run [of ws] d
      by (cases "map_of (active_connections (rt_manager s)) ws")
        (auto simp: rt_message_ask rt_change_def rt_inv_def rt_abs_def dict_simps dict_set_ok simp del: u_simps)
  next
    case (Drop ws m)
    then show ?thesis using assms run [of ws] d
      by (cases "map_of (active_connections (rt_manager s)) ws")
        (auto simp: rt_message_drop rt_change_def rt_inv_def rt_abs_def dict_simps dict_set_ok simp del: u_simps)
  next
    case (Part ws)
    then show ?thesis using assms(1) run [of ws] d
      by (auto simp: rt_disconnect_def in_connections rt_inv_def rt_abs_def dict_simps dict_del_ok fun_eq_iff)
  qed
qed

interpretation realtime: simulation "\<lambda>e. rt_step (render e)" client_spec rt_abs rt_inv sayable
  by unfold_locales (simp_all add: rt_commute)

lemma recipients_iff:
  "dict_ok (active_connections m) \<Longrightarrow>
    ws \<in> set (recipients i m) \<longleftrightarrow> (\<exists>S. map_of (active_connections m) ws = Some S \<and> i \<in> S)"
  by (force simp: recipients_def dict_ok_def)

lemma recipients_distinct: "dict_ok (active_connections m) \<Longrightarrow> distinct (recipients i m)"
  by (simp add: recipients_def dict_ok_def distinct_map_filter)

lemma notify_sends: "sample_dump_json P s = Inr j \<Longrightarrow>
    snd (notify_all_subscribers P send s rt) = map (\<lambda>ws. (ws, j)) (recipients (metric_id (metadata s)) rt)"
  by (simp add: notify_all_subscribers_def split: list.split)

subsection \<open>The sorted sets\<close>

text \<open>The score of a member is a double.\<close>

definition score :: "pynum \<Rightarrow> pyfloat res" where
  "score n = (case n of NumI i \<Rightarrow> float_of_int i | NumF f \<Rightarrow> Inr f)"

definition between :: "pyfloat \<Rightarrow> pyfloat \<Rightarrow> pyfloat \<Rightarrow> bool" where
  "between a b f \<longleftrightarrow> \<not> flt f a \<and> \<not> flt b f"

text \<open>
  What \<open>ZADD\<close> and \<open>ZRANGEBYSCORE\<close> promise: a member has the score of its last \<open>ZADD\<close>, a
  range lists the members with a score in it, other keys are not touched.
\<close>

locale zset_api =
  fixes Z :: "'z zset"
  assumes add_encodes: "zs_add Z k v n z = (Inr x, z') \<Longrightarrow> \<exists>bs f. utf8_encode v = Inr bs \<and> score n = Inr f"
    and range_add: "zs_add Z k v n z = (Inr x, z') \<Longrightarrow> utf8_encode v = Inr bs \<Longrightarrow> score n = Inr f \<Longrightarrow>
        zs_range Z k a b z = Inr ms \<Longrightarrow>
        \<exists>ms'. zs_range Z k a b z' = Inr ms' \<and> set ms' = (if between a b f then insert bs (set ms) else set ms - {bs})"
    and range_other: "zs_add Z k v n z = (Inr x, z') \<Longrightarrow> k' \<noteq> k \<Longrightarrow> zs_range Z k' a b z' = zs_range Z k' a b z"

text \<open>The instance: for each key its members with their scores.\<close>

type_synonym zset_store = "(pystr \<times> (byte list \<times> pyfloat) list) list"

definition members :: "zset_store \<Rightarrow> pystr \<Rightarrow> (byte list \<times> pyfloat) list" where
  "members z k = (case map_of z k of None \<Rightarrow> [] | Some ms \<Rightarrow> ms)"

fun by_score :: "byte list \<times> pyfloat \<Rightarrow> (byte list \<times> pyfloat) list \<Rightarrow> (byte list \<times> pyfloat) list" where
  "by_score m [] = [m]"
| "by_score m (n # ms) = (if flt (snd m) (snd n) then m # n # ms else n # by_score m ms)"

definition dict_zset :: "zset_store zset" where
  "dict_zset =
     \<lparr>zs_add = (\<lambda>k v n z. case (utf8_encode v, score n) of
          (Inr bs, Inr f) \<Rightarrow> (Inr (), dict_set k (by_score (bs, f) (dict_del bs (members z k))) z)
        | (Inl e, _) \<Rightarrow> (Inl e, z) | (_, Inl e) \<Rightarrow> (Inl e, z)),
      zs_range = (\<lambda>k a b z. Inr (map fst (filter (\<lambda>(bs, f). between a b f) (members z k)))),
      zs_keys = (\<lambda>p z. Inr (filter (\<lambda>k. startswith k p) (map fst z))),
      zs_delete = (\<lambda>ks z. (Inr (), filter (\<lambda>(k, _). k \<notin> set ks) z))\<rparr>"

lemma set_by_score: "set (by_score m ms) = insert m (set ms)"
  by (induction m ms rule: by_score.induct) auto

lemma set_dict_del: "set (dict_del k d) = {(k', v) \<in> set d. k' \<noteq> k}"
  by (auto simp: dict_del_def)

lemma members_dict_set [simp]: "members (dict_set k ms z) k' = (if k' = k then ms else members z k')"
  by (simp add: members_def dict_simps)

interpretation dict_zsets: zset_api dict_zset
proof
  fix k :: pystr and v n z x z'
  assume "zs_add dict_zset k v n z = (Inr x, z')"
  then obtain bs f where bs: "utf8_encode v = Inr bs" "score n = Inr f"
      "z' = dict_set k (by_score (bs, f) (dict_del bs (members z k))) z"
    by (auto simp: dict_zset_def split: sum.splits)
  show "\<exists>bs f. utf8_encode v = Inr bs \<and> score n = Inr f" using bs by blast
  note bs(3) [simp]
  show "zs_range dict_zset k' a b z' = zs_range dict_zset k' a b z" if "k' \<noteq> k" for k' a b
    using that by (simp add: dict_zset_def)
  show "\<exists>ms'. zs_range dict_zset k a b z' = Inr ms' \<and>
      set ms' = (if between a b f' then insert bs' (set ms) else set ms - {bs'})"
    if "utf8_encode v = Inr bs'" "score n = Inr f'" "zs_range dict_zset k a b z = Inr ms" for bs' f' a b ms
  proof -
    have e: "bs' = bs" "f' = f" "set ms = fst ` {(v, g) \<in> set (members z k). between a b g}"
      using that bs(1,2) by (auto simp: dict_zset_def image_iff)
    show ?thesis unfolding e by (auto simp: dict_zset_def set_by_score set_dict_del image_iff) metis
  qed
qed

locale history = zset_api Z + pydantic_api P ok for Z :: "'z zset" and P ok
begin

lemma history_add_get:
  assumes "sample_sendable ok x" "history_add Z P x z = (Inr r, z')" "score (timestamp (metadata x)) = Inr f"
    and "parse_date parse start = Inr a" "parse_date parse end = Inr b" "between a b f"
    and "history_endpoint Z P parse (metric_id (metadata x)) start end z = Inr old"
  shows "\<exists>new. history_endpoint Z P parse (metric_id (metadata x)) start end z' = Inr new \<and>
    set new = insert (x\<lparr>sample_class := Sample\<rparr>) (set old)"
proof -
  let ?k = "history_key (metric_id (metadata x))"
  let ?dec = "\<lambda>bs. validate_json_bytes P (Some bs)"
  obtain j where j: "sample_dump_json P x = Inr j" "zs_add Z ?k j (timestamp (metadata x)) z = (Inr r, z')"
    using assms(2) by (auto simp: history_add_def res_simps)
  obtain bs where bs: "utf8_encode j = Inr bs" using add_encodes [OF j(2)] by blast
  obtain ms where ms: "zs_range Z ?k a b z = Inr ms" "traverse ?dec ms = Inr old"
    using assms(4,5,7) by (auto simp: history_endpoint_def res_simps)
  obtain ms' where ms': "zs_range Z ?k a b z' = Inr ms'" "set ms' = insert bs (set ms)"
    using range_add [OF j(2) bs assms(3) ms(1)] assms(6) by auto
  have d: "?dec bs = Inr (x\<lparr>sample_class := Sample\<rparr>)"
    using sample_round [OF assms(1)] j(1) utf8_decode_encode [OF bs] by (simp add: validate_json_bytes_def)
  define g where "g b = (case ?dec b of Inr s \<Rightarrow> s | Inl _ \<Rightarrow> x)" for b
  have old: "\<forall>b \<in> set ms. ?dec b = Inr (g b)" "old = map g ms"
    using ms(2) by (induction ms arbitrary: old) (auto simp: g_def res_simps)
  then have "traverse ?dec ms' = Inr (map g ms')"
    using ms'(2) d by (intro traverse_Inr) (auto simp: g_def)
  moreover have "set (map g ms') = insert (x\<lparr>sample_class := Sample\<rparr>) (set old)"
    using ms'(2) old(2) d by (auto simp: g_def)
  ultimately show ?thesis using assms(4,5) ms'(1) by (auto simp: history_endpoint_def)
qed

end

interpretation dict_history: history dict_zset strict_pydantic json_ok ..

subsection \<open>File names\<close>

lemma last_split_suffix: "\<exists>d. p = d @ last (split_on c p)"
proof (induction p)
  case (Cons x p)
  then obtain d where d: "p = d @ last (split_on c p)" by blast
  show ?case
  proof (cases "x = c")
    case True
    then show ?thesis using d by (intro exI [of _ "x # d"]) simp
  next
    case False
    obtain w ws where s: "split_on c p = w # ws" by (cases "split_on c p") auto
    show ?thesis
    proof (cases ws)
      case Nil
      then show ?thesis using False s split_on_singleD [of c p w] by (intro exI [of _ "[]"]) simp
    next
      case (Cons v vs)
      then show ?thesis using False s d by (intro exI [of _ "x # d"]) simp
    qed
  qed
qed simp

subsection \<open>A client that ended\<close>

text \<open>A websocket whose endpoint ended by an exception stays registered: nothing removes it.\<close>

definition zombie :: "rt_server \<Rightarrow> nat \<Rightarrow> pystr \<Rightarrow> bool" where
  "zombie s ws m \<longleftrightarrow> ws \<notin> rt_running s \<and> ws \<in> set (recipients m (rt_manager s))"

lemma malformed_makes_zombie:
  assumes "ws \<in> rt_running s" "ws \<in> set (recipients m (rt_manager s))"
  shows "zombie (rt_step (Receive ws (Inr (u ''subscribe''))) s) ws m"
proof -
  have "rt_message ws (u ''subscribe'') (rt_manager s) = (Inl IndexError, rt_manager s)"
    by (simp add: rt_message_def startswith_def py_index_def)
  with assms show ?thesis by (simp add: zombie_def del: u_simps)
qed

lemma notify_zombie:
  "ws \<in> set (recipients (metric_id (metadata x)) rt) \<Longrightarrow> send ws = Inl e \<Longrightarrow>
    fst (notify_all_subscribers P send x rt) = Inl ExceptionGroup"
  by (auto simp: notify_all_subscribers_def list_all_iff is_ok_def split: list.split sum.split)

lemma add_sample_fails:
  "fst (notify_all_subscribers P send x (rt_manager (ts_realtime w))) = Inl ExceptionGroup \<Longrightarrow>
    fst (add_sample P Z F dir send cut2 cut3 x w) = Inl ExceptionGroup"
  by (auto simp: add_sample_def is_ok_def split: prod.split)

subsection \<open>Properties\<close>

lemma new_realtime_inv: "rt_inv new_realtime" "rt_abs new_realtime = Map.empty"
  by (simp_all add: rt_inv_def rt_abs_def new_realtime_def dict_ok_def)

text \<open>C12: The manager of the websocket clients implements its contract: whatever commands the clients send, each
  client has exactly the metrics it asked for and has not dropped, and a sample is sent once to each
  client that has its metric and to nobody else.\<close>

theorem realtime_refines_contract:
  assumes "list_all sayable es"
  shows "let s = fold (\<lambda>e. rt_step (render e)) es new_realtime; a = fold client_spec es Map.empty in
    rt_abs s = a \<and> distinct (recipients i (rt_manager s)) \<and>
    set (recipients i (rt_manager s)) = {ws. \<exists>S. a ws = Some S \<and> i \<in> S}"
proof -
  let ?s = "fold (\<lambda>e. rt_step (render e)) es new_realtime"
  note r = realtime.run [OF new_realtime_inv(1) assms]
  then have d: "dict_ok (active_connections (rt_manager ?s))" by (simp add: rt_inv_def)
  from r new_realtime_inv(2) have a: "rt_abs ?s = fold client_spec es Map.empty" by metis
  have "set (recipients i (rt_manager ?s)) = {ws. \<exists>S. rt_abs ?s ws = Some S \<and> i \<in> S}"
    using recipients_iff [OF d] by (auto simp: rt_abs_def)
  with a recipients_distinct [OF d] show ?thesis by (simp add: Let_def)
qed

definition demo_clients :: "client_event list" where
  "demo_clients = [Join 1, Ask 1 (u ''a''), Join 2, Ask 2 (u ''a''), Drop 2 (u ''a'')]"

lemma demo_clients_ok: "list_all sayable demo_clients"
  by (simp add: demo_clients_def)

lemma demo_clients_spec: "fold client_spec demo_clients Map.empty = [1 \<mapsto> {u ''a''}, 2 \<mapsto> {}]"
  by (simp add: demo_clients_def)

theorem realtime_refines_contract_witness:
  "set (recipients (u ''a'') (rt_manager (fold (\<lambda>e. rt_step (render e)) demo_clients new_realtime))) = {1}"
proof -
  have "{ws. \<exists>S. fold client_spec demo_clients Map.empty ws = Some S \<and> u ''a'' \<in> S} = {1}"
    unfolding demo_clients_spec by auto
  with realtime_refines_contract [OF demo_clients_ok, of "u ''a''"] show ?thesis by (simp only: Let_def simp_thms)
qed

text \<open>C39: The files of the samples that arrive are never stored: a sample decoded from a telemetry message is
  never a \<open>FileSample\<close>, so adding it leaves the file system as it was.\<close>

theorem received_files_not_stored:
  assumes "client_decode P bs = Inr t" "tm_data t = SampleMsg x"
  shows "ts_files (snd (add_sample P Z F dir send cut2 cut3 x w)) = ts_files w"
proof -
  have "tm_ok t" using assms(1) by (auto simp: client_decode_def res_simps dest: telemetry_validate_json_ok)
  with assms(2) have "sample_class x = Sample" by (simp add: tm_ok_def)
  then show ?thesis by (simp add: add_sample_def split: prod.split)
qed

definition text_sample :: sample where
  "text_sample = \<lparr>sample_class = Sample,
     metadata = \<lparr>metric_id = u ''doc'', timestamp = NumI 7, which_data_type = FILE\<rparr>,
     sample_data = File \<lparr>filename = u ''a.txt'', file_bytes = [1, 2]\<rparr>\<rparr>"

definition demo_files :: "(pystr \<times> byte list) list files" where
  "demo_files = \<lparr>fs_exists = (\<lambda>p w. True), fs_makedirs = (\<lambda>p w. (Inr (), w)),
     fs_write = (\<lambda>p bs w. (Inr (), dict_set p bs w))\<rparr>"

lemma text_sample_ok: "scalar_str (b64_str [1, 2])"
  using ascii_scalar [OF b64_str_ascii] .

lemma text_sample_sendable:
  "tm_sendable json_ok \<lparr>which_type = T_SAMPLE, tm_data = SampleMsg text_sample\<rparr>" "sample_sendable json_ok text_sample"
  using text_sample_ok
  by (simp_all add: sample_sendable_def tm_sendable_def tm_ok_def telemetry_py_def sample_ok_def text_sample_def sample_py_def
      metadata_py_def file_py_def scalar_def dict_ok_def)

theorem received_files_not_stored_witness:
  "\<exists>bs. client_decode strict_pydantic bs = Inr \<lparr>which_type = T_SAMPLE, tm_data = SampleMsg text_sample\<rparr> \<and>
    ts_files (snd (add_sample strict_pydantic dict_zset demo_files (u ''/files'') (\<lambda>_. Inr ()) False False text_sample
      \<lparr>ts_realtime = new_realtime, ts_history = [], ts_files = [], ts_sent = []\<rparr>)) = []"
proof -
  let ?t = "\<lparr>which_type = T_SAMPLE, tm_data = SampleMsg text_sample\<rparr>"
  obtain bs where "rbind (telemetry_dump_json strict_pydantic ?t) utf8_encode = Inr bs"
    using strict_telemetry_bytes [OF text_sample_sendable(1)] by blast
  from strict.telemetry_bytes_decode [OF text_sample_sendable(1) this]
  have d: "client_decode strict_pydantic bs = Inr ?t" .
  have "ts_files (snd (add_sample strict_pydantic dict_zset demo_files (u ''/files'') (\<lambda>_. Inr ()) False False text_sample
      \<lparr>ts_realtime = new_realtime, ts_history = [], ts_files = [], ts_sent = []\<rparr>)) =
    ts_files \<lparr>ts_realtime = new_realtime, ts_history = ([] :: zset_store), ts_files = [], ts_sent = []\<rparr>"
    by (rule received_files_not_stored [OF d]) simp
  with d show ?thesis by (intro exI [of _ bs]) (simp only: telemetry_server.simps simp_thms)
qed

text \<open>C26: A sample that was added to the history is found by every query of its metric whose range covers its time,
  next to what the query returned before. When the start or the end cannot be read as a date the answer is status 400, and
  another error of the parser is raised as it is; the store is not asked.\<close>

theorem history_query_finds:
  assumes "zset_api Z" "pydantic_api P ok" "sample_sendable ok x"
    and "history_add Z P x z = (Inr r, z')" "score (timestamp (metadata x)) = Inr f"
    and "parse_date parse start = Inr a" "parse_date parse end = Inr b" "between a b f"
    and "history_endpoint Z P parse (metric_id (metadata x)) start end z = Inr old"
  shows "(\<exists>new. history_endpoint Z P parse (metric_id (metadata x)) start end z' = Inr new \<and>
      set new = insert (x\<lparr>sample_class := Sample\<rparr>) (set old)) \<and>
    (\<forall>s t m e. parse s = Inl e \<or> is_ok (parse s) \<and> parse t = Inl e \<longrightarrow>
      history_endpoint Z P parse m s t z' = Inl (if is_value_error e then HTTPException 400 else e))"
proof -
  have "history Z P ok" using assms(1,2) by (rule history.intro)
  moreover have "history_endpoint Z P parse m s t z' = Inl (if is_value_error e then HTTPException 400 else e)"
    if "parse s = Inl e \<or> is_ok (parse s) \<and> parse t = Inl e" for s t m e
    using that by (auto simp: history_endpoint_def parse_date_def is_ok_def split: sum.splits)
  ultimately show ?thesis using history.history_add_get [OF _ assms(3-9)] by blast
qed

theorem history_query_finds_witness:
  "\<exists>z'. history_add dict_zset strict_pydantic cpu_sample [] = (Inr (), z') \<and>
    (\<exists>new. history_endpoint dict_zset strict_pydantic (\<lambda>s. if s = u ''from'' then Inr NInf else Inr PInf) (u ''cpu'')
        (u ''from'') (u ''to'') z' = Inr new \<and> set new = {cpu_sample\<lparr>sample_class := Sample\<rparr>})"
proof -
  let ?p = "\<lambda>s. if s = u ''from'' then Inr NInf else Inr PInf :: pyfloat res"
  obtain j bs where j: "sample_dump_json strict_pydantic cpu_sample = Inr j" "utf8_encode j = Inr bs"
    using strict_dump_encodes [OF cpu_sendable] by blast
  have t: "timestamp (metadata cpu_sample) = NumI 7" "metric_id (metadata cpu_sample) = u ''cpu''"
    by (simp_all add: cpu_sample_def)
  obtain f where f: "score (NumI 7) = Inr f" "f \<noteq> NaN"
    using float_of_int_7 by (auto simp: score_def)
  obtain z' where z': "history_add dict_zset strict_pydantic cpu_sample [] = (Inr (), z')"
    using j f t by (simp add: history_add_def dict_zset_def)
  have b: "between NInf PInf f" using f(2) by (cases f) (simp_all add: between_def)
  have d: "parse_date ?p (u ''from'') = Inr NInf" "parse_date ?p (u ''to'') = Inr PInf"
    by (simp_all add: parse_date_def)
  have old: "history_endpoint dict_zset strict_pydantic ?p (u ''cpu'') (u ''from'') (u ''to'') [] = Inr []"
    using d by (simp add: history_endpoint_def dict_zset_def members_def del: u_simps)
  from history_query_finds [OF dict_zsets.zset_api_axioms strict.pydantic_api_axioms cpu_sendable z' _ d b, unfolded t, OF f(1) old]
  show ?thesis using z' by auto
qed

end
