(* ===== verification/CommandServer.thy ===== *)
theory CommandServer
  imports CommandTelemetry
begin

section \<open>The ground station: command/src/server.py, cli.py, config.py, netcdf.py\<close>

text \<open>
  The command line puts requests into two queues, two coroutines of the server take them out
  and act on the metric handler, a third serves telemetry. The theory models the queues, the
  commands of the shell, the configuration, and the export to NetCDF.
\<close>

subsection \<open>Configuration\<close>

record command_config =
  telemetry_server_port :: int
  onboard_server_ip :: pystr
  onboard_server_port :: int
  default_max_bps :: int
  default_bps_distribution_mode :: pystr
  file_store_dir :: pystr

text \<open>A field is read from the environment, where every value is text, or has its default.\<close>

definition config_field :: "(pystr \<times> pystr) list \<Rightarrow> pystr \<Rightarrow> (pyval \<Rightarrow> 'a option) \<Rightarrow> 'a \<Rightarrow> 'a res" where
  "config_field environ k f d =
     (case map_of environ k of
        None \<Rightarrow> Inr d
      | Some v \<Rightarrow> (case f (PStr v) of None \<Rightarrow> Inl ValidationError | Some x \<Rightarrow> Inr x))"

text \<open>\<open>files\<close> is the absolute path of the directory \<open>files\<close>.\<close>

definition load_config :: "pydantic \<Rightarrow> pystr \<Rightarrow> (pystr \<times> pystr) list \<Rightarrow> command_config res" where
  "load_config P files environ =
     rbind (config_field environ (u ''TELEMETRY_SERVER_PORT'') (pd_int P) 8000) (\<lambda>tp.
     rbind (config_field environ (u ''ONBOARD_SERVER_IP'') (pd_str P) (u ''localhost'')) (\<lambda>ip.
     rbind (config_field environ (u ''ONBOARD_SERVER_PORT'') (pd_int P) 8888) (\<lambda>op.
     rbind (config_field environ (u ''DEFAULT_MAX_BPS'') (pd_int P) 100000) (\<lambda>mb.
     rbind (config_field environ (u ''DEFAULT_BPS_DISTRIBUTION_MODE'') (pd_str P) (u ''fair'')) (\<lambda>md.
     rbind (config_field environ (u ''FILE_STORE_DIR_ABSPATH'') (pd_str P) files) (\<lambda>fd.
       Inr \<lparr>telemetry_server_port = tp, onboard_server_ip = ip, onboard_server_port = op,
         default_max_bps = mb, default_bps_distribution_mode = md, file_store_dir = fd\<rparr>))))))"

subsection \<open>The server\<close>

text \<open>
  \<open>cs_ended\<close> is the exception that \<open>gather\<close> raised, \<open>cs_sync\<close> how the synchronising task ended.
  The queues belong to the event loop, the command line is a thread that goes on.
\<close>

record command_server =
  cs_handler :: metric_handler
  update_bps_queue :: "(pystr \<times> int) list"
  set_max_bps_queue :: "int list"
  cs_sync :: "unit res option"
  cs_ended :: "pyexc option"

definition new_command_server :: "command_config \<Rightarrow> (nat \<Rightarrow> unit res) \<Rightarrow> command_server" where
  "new_command_server cfg cl =
     \<lparr>cs_handler = new_handler (default_bps_distribution_mode cfg) (default_max_bps cfg) cl,
      update_bps_queue = [], set_max_bps_queue = [], cs_sync = None, cs_ended = None\<rparr>"

text \<open>An exception leaves \<open>gather\<close>, then \<open>async with\<close>, whose own exception replaces it.\<close>

definition gather_raises :: "pyexc \<Rightarrow> command_server \<Rightarrow> command_server" where
  "gather_raises e s =
     (case handler_exit (cs_sync s) (cs_handler s) of
        (Inl e', h) \<Rightarrow> s\<lparr>cs_handler := h, cs_ended := Some e'\<rparr>
      | (Inr _, h) \<Rightarrow> s\<lparr>cs_handler := h, cs_ended := Some e\<rparr>)"

definition handler_does :: "(metric_handler, unit) act \<Rightarrow> command_server \<Rightarrow> command_server" where
  "handler_does m s =
     (case m (cs_handler s) of
        (Inl e, h) \<Rightarrow> gather_raises e (s\<lparr>cs_handler := h\<rparr>)
      | (Inr _, h) \<Rightarrow> s\<lparr>cs_handler := h\<rparr>)"

text \<open>The two coroutines: the next element of the queue, once there is one.\<close>

definition handle_update_bps_queue :: "command_server \<Rightarrow> command_server" where
  "handle_update_bps_queue s =
     (case update_bps_queue s of
        [] \<Rightarrow> s
      | (m, b) # q \<Rightarrow> handler_does (update_bps m b) (s\<lparr>update_bps_queue := q\<rparr>))"

definition handle_set_max_bps_queue :: "command_server \<Rightarrow> command_server" where
  "handle_set_max_bps_queue s =
     (case set_max_bps_queue s of
        [] \<Rightarrow> s
      | b # q \<Rightarrow> handler_does (set_max_bps b) (s\<lparr>set_max_bps_queue := q\<rparr>))"

text \<open>
  The shell: its object holds three functions of its owner, here as functions on the owner's state \<open>'s\<close>;
  \<open>echoed\<close> is what a command prints.
\<close>

record 's cli =
  handle_set_bps :: "pystr \<Rightarrow> int \<Rightarrow> 's \<Rightarrow> 's"
  handle_set_max_bps :: "int \<Rightarrow> 's \<Rightarrow> 's"
  get_metric_infos :: "'s \<Rightarrow> (pystr \<times> int) set"

datatype cli_command = SetBps pystr int | SetMaxBps int | GetMetricInfos

datatype echoed = EchoNone | EchoNoInfos | EchoInfos "(pystr \<times> int) set"

fun cli_app :: "'s cli \<Rightarrow> cli_command \<Rightarrow> 's \<Rightarrow> echoed list \<times> 's" where
  "cli_app cli (SetBps m b) s = ([], handle_set_bps cli m b s)"
| "cli_app cli (SetMaxBps b) s = ([EchoNone], handle_set_max_bps cli b s)"
| "cli_app cli GetMetricInfos s =
     (let infos = get_metric_infos cli s in ((if infos = {} then [EchoNoInfos] else [EchoInfos infos]), s))"

text \<open>The functions of the server: two that queue a request, and the metrics of the handler.\<close>

definition update_bps_sync :: "pystr \<Rightarrow> int \<Rightarrow> command_server \<Rightarrow> command_server" where
  "update_bps_sync m b s = s\<lparr>update_bps_queue := update_bps_queue s @ [(m, b)]\<rparr>"

definition set_max_bps_sync :: "int \<Rightarrow> command_server \<Rightarrow> command_server" where
  "set_max_bps_sync b s = s\<lparr>set_max_bps_queue := set_max_bps_queue s @ [b]\<rparr>"

definition server_cli :: "command_server cli" where
  "server_cli = \<lparr>handle_set_bps = update_bps_sync, handle_set_max_bps = set_max_bps_sync,
     get_metric_infos = (\<lambda>s. get_metrics (cs_handler s))\<rparr>"

definition cli_run :: "cli_command \<Rightarrow> command_server \<Rightarrow> echoed list \<times> command_server" where
  "cli_run = cli_app server_cli"

lemma cli_run_simps [simp]:
  "cli_run (SetBps m b) s = ([], s\<lparr>update_bps_queue := update_bps_queue s @ [(m, b)]\<rparr>)"
  "cli_run (SetMaxBps b) s = ([EchoNone], s\<lparr>set_max_bps_queue := set_max_bps_queue s @ [b]\<rparr>)"
  "cli_run GetMetricInfos s =
     ((if get_metrics (cs_handler s) = {} then [EchoNoInfos] else [EchoInfos (get_metrics (cs_handler s))]), s)"
  by (simp_all add: cli_run_def server_cli_def update_bps_sync_def set_max_bps_sync_def Let_def)

text \<open>
  One thing that happens: a command of the shell, an element taken from a queue, a pass of
  the synchronising task, a subscription task that ends, the telemetry server that fails.
  After \<open>gather\<close> has raised only the shell goes on.
\<close>

datatype server_event =
    Cli cli_command
  | TakeBps
  | TakeMax
  | SyncRead "pystr list" "byte list res"    \<comment> \<open>the order in which the new ids are iterated, the read\<close>
  | TaskEnded nat "unit res"
  | ServeFailed pyexc

fun server_step :: "pydantic \<Rightarrow> server_event \<Rightarrow> command_server \<Rightarrow> command_server" where
  "server_step P (Cli c) s = snd (cli_run c s)"
| "server_step P TakeBps s = (if cs_ended s = None then handle_update_bps_queue s else s)"
| "server_step P TakeMax s = (if cs_ended s = None then handle_set_max_bps_queue s else s)"
| "server_step P (SyncRead new rd) s =
     (if cs_ended s = None \<and> cs_sync s = None then
        (case sync_pass P (\<lambda>_. new) rd (cs_handler s) of
           (Inl e, h) \<Rightarrow> s\<lparr>cs_handler := h, cs_sync := Some (Inl e)\<rparr>
         | (Inr _, h) \<Rightarrow> s\<lparr>cs_handler := h\<rparr>)
      else s)"
| "server_step P (TaskEnded i r) s =
     (if live (cs_handler s) i then
        s\<lparr>cs_handler := (cs_handler s)\<lparr>sub_tasks :=
          (sub_tasks (cs_handler s))[i := (sub_tasks (cs_handler s) ! i)\<lparr>tk_end := Some r\<rparr>]\<rparr>\<rparr>
      else s)"
| "server_step P (ServeFailed e) s = (if cs_ended s = None then gather_raises e s else s)"

subsection \<open>Export: netcdf.py\<close>

text \<open>
  What was assigned to the two variables along the unlimited dimension \<open>time\<close>, and the attributes, as
  triples of variable, name and text.
\<close>

record netcdf =
  nc_timestamp :: "pyfloat list"
  nc_value :: "pynum list"
  nc_attributes :: "(pystr \<times> pystr \<times> pystr) list"

definition create_netcdf_file :: netcdf where
  "create_netcdf_file = \<lparr>nc_timestamp = [], nc_value = [],
     nc_attributes =
       [(u ''timestamp'', u ''units'', u ''seconds since 1970-01-01 00:00:00''),
        (u ''timestamp'', u ''long_name'', u ''Unix timestamp''),
        (u ''value'', u ''long_name'', u ''Primitive value'')]\<rparr>"

datatype nc_input = NcBool bool | NcNum pynum

text \<open>A boolean is converted to a float, then both variables are written at the end.\<close>

definition write_to_netcdf :: "nc_input \<Rightarrow> pyfloat \<Rightarrow> netcdf \<Rightarrow> netcdf" where
  "write_to_netcdf v t nc =
     nc\<lparr>nc_timestamp := nc_timestamp nc @ [t],
       nc_value := nc_value nc @ [case v of NcBool b \<Rightarrow> NumF (Fin (if b then 1 else 0)) | NcNum n \<Rightarrow> n]\<rparr>"

subsection \<open>Lemmas\<close>

lemma update_bps_rate:
  assumes "handler_inv h" "update_bps m b h = (Inr r, h')"
  shows "map_of (metrics h') m' =
    (if m' = m \<and> m \<in> dom (map_of (metrics h)) then Some b else map_of (metrics h) m')"
proof -
  obtain r1 h1 where 1: "update_begin m b h = (r1, h1)" by fastforce
  note c = update_begin_cases [OF assms(1) 1]
  have "metrics h' = metrics h1"
    using assms(2) 1 by (cases r1) (auto simp: update_bps_def abind_def create_sub_def split: if_splits)
  with c show ?thesis by (auto simp: dict_simps)
qed

text \<open>The queue of rates, drained while nothing else happens.\<close>

lemma drain_rates:
  assumes "handler_inv (cs_handler s)" "cs_ended s = None" "update_bps_queue s = q"
    and "cs_ended (fold (server_step P) (replicate (length q) TakeBps) s) = None"
  shows "update_bps_queue (fold (server_step P) (replicate (length q) TakeBps) s) = [] \<and>
    (\<forall>m. map_of (metrics (cs_handler (fold (server_step P) (replicate (length q) TakeBps) s))) m =
      (if m \<in> dom (map_of (metrics (cs_handler s))) \<and> m \<in> fst ` set q then map_of (rev q) m
       else map_of (metrics (cs_handler s)) m)) \<and>
    (\<forall>m b. m \<in> dom (map_of (metrics (cs_handler s))) \<longrightarrow>
      map_of (rev q) m = Some b \<or> m \<notin> fst ` set q \<and> served (cs_handler s) m b \<longrightarrow>
      served (cs_handler (fold (server_step P) (replicate (length q) TakeBps) s)) m b)"
  using assms
proof (induction q arbitrary: s)
  case (Cons x q)
  obtain m b where x: "x = (m, b)" by fastforce
  let ?s1 = "server_step P TakeBps s"
  have stuck: "cs_ended (fold (server_step P) (replicate n TakeBps) t) = cs_ended t" if "cs_ended t \<noteq> None" for n t
    using that by (induction n) auto
  have e1: "cs_ended ?s1 = None" using Cons.prems(4) stuck [of ?s1 "length q"] by fastforce
  obtain r h1 where u: "update_bps m b (cs_handler s) = (r, h1)" by fastforce
  have s1: "?s1 = handler_does (update_bps m b) (s\<lparr>update_bps_queue := q\<rparr>)"
    using Cons.prems(2,3) x by (simp add: handle_update_bps_queue_def)
  have "r = Inr ()"
  proof (cases r)
    case (Inl e)
    then have "cs_ended ?s1 \<noteq> None" unfolding s1
      by (auto simp: handler_does_def u gather_raises_def split: prod.split sum.split)
    with e1 show ?thesis by simp
  qed simp
  then have s1': "?s1 = s\<lparr>update_bps_queue := q, cs_handler := h1\<rparr>" unfolding s1 by (simp add: handler_does_def u)
  have i1: "handler_inv h1" using update_bps_inv [OF Cons.prems(1) u] by blast
  have sv: "m \<in> dom (map_of (metrics (cs_handler s))) \<Longrightarrow> served h1 m b"
      "m' \<noteq> m \<Longrightarrow> served (cs_handler s) m' b' \<Longrightarrow> served h1 m' b'" for m' b'
    using update_bps_inv [OF Cons.prems(1) u] \<open>r = Inr ()\<close> by blast+
  have k: "map_of (metrics h1) m' =
      (if m' = m \<and> m \<in> dom (map_of (metrics (cs_handler s))) then Some b else map_of (metrics (cs_handler s)) m')" for m'
    by (rule update_bps_rate [OF Cons.prems(1)]) (use u \<open>r = Inr ()\<close> in simp)
  then have d: "dom (map_of (metrics h1)) = dom (map_of (metrics (cs_handler s)))" by (auto split: if_splits)
  let ?t = "fold (server_step P) (replicate (length q) TakeBps) ?s1"
  have t: "fold (server_step P) (replicate (length (x # q)) TakeBps) s = ?t" by simp
  have ih: "update_bps_queue ?t = [] \<and>
    (\<forall>m. map_of (metrics (cs_handler ?t)) m =
      (if m \<in> dom (map_of (metrics (cs_handler ?s1))) \<and> m \<in> fst ` set q then map_of (rev q) m
       else map_of (metrics (cs_handler ?s1)) m)) \<and>
    (\<forall>m b. m \<in> dom (map_of (metrics (cs_handler ?s1))) \<longrightarrow>
      map_of (rev q) m = Some b \<or> m \<notin> fst ` set q \<and> served (cs_handler ?s1) m b \<longrightarrow> served (cs_handler ?t) m b)"
  proof (rule Cons.IH)
    show "handler_inv (cs_handler ?s1)" "cs_ended ?s1 = None" "update_bps_queue ?s1 = q"
      unfolding s1' by (simp_all add: i1 Cons.prems(2))
    show "cs_ended ?t = None" using Cons.prems(4) unfolding t .
  qed
  have none: "map_of (rev q) m' = None" if "m' \<notin> fst ` set q" for m'
    using that by (simp add: map_of_eq_None_iff)
  have "\<exists>v. map_of (rev q) m' = Some v" if "m' \<in> fst ` set q" for m'
    using that map_of_eq_None_iff [of "rev q" m'] by fastforce
  with ih none have "update_bps_queue ?t = [] \<and>
    (\<forall>m. map_of (metrics (cs_handler ?t)) m =
      (if m \<in> dom (map_of (metrics (cs_handler s))) \<and> m \<in> fst ` set (x # q) then map_of (rev (x # q)) m
       else map_of (metrics (cs_handler s)) m))"
    unfolding s1' by (fastforce simp: k d x map_add_def split: option.splits)
  moreover have "served (cs_handler ?t) m' b'" if m': "m' \<in> dom (map_of (metrics (cs_handler s)))"
      "map_of (rev (x # q)) m' = Some b' \<or> m' \<notin> fst ` set (x # q) \<and> served (cs_handler s) m' b'" for m' b'
  proof -
    have "map_of (rev q) m' = Some b' \<or> m' \<notin> fst ` set q \<and> served (cs_handler ?s1) m' b'"
      using m'(2) sv none m'(1) unfolding s1' x
      by (cases "map_of (rev q) m'"; cases "m' = m") (auto simp: map_add_def map_of_eq_None_iff)
    moreover have "m' \<in> dom (map_of (metrics (cs_handler ?s1)))" unfolding s1' using m'(1) d by simp
    ultimately show ?thesis using ih by blast
  qed
  ultimately show ?case unfolding t by blast
qed simp

text \<open>The server keeps the invariant of the handler, whatever happens.\<close>

lemma cancel_all_inv:
  "handler_inv h \<Longrightarrow> list_all (\<lambda>i. i < length (sub_tasks h)) is \<Longrightarrow> cancel_all is h = (r, h') \<Longrightarrow> handler_inv h'"
proof (induction "is" arbitrary: h)
  case (Cons i "is")
  obtain r1 h1 where 1: "cancel_and_await i h = (r1, h1)" by fastforce
  have i: "i < length (sub_tasks h)" using Cons.prems(2) by simp
  have h1: "handler_inv h1" "length (sub_tasks h1) = length (sub_tasks h)"
    using cancel_and_await_inv [OF Cons.prems(1) 1 i] cancel_and_await_live [OF 1 i] by simp_all
  show ?case
  proof (cases r1)
    case (Inl e)
    with h1 1 Cons.prems(3) show ?thesis by (auto simp: abind_def)
  next
    case (Inr y)
    then have c: "cancel_all is h1 = (r, h')" using Cons.prems(3) 1 by (auto simp: abind_def)
    have "list_all (\<lambda>i. i < length (sub_tasks h1)) is" using Cons.prems(2) h1(2) by simp
    from Cons.IH [OF h1(1) this c] show ?thesis .
  qed
qed simp

lemma gather_raises_inv: "handler_inv (cs_handler s) \<Longrightarrow> handler_inv (cs_handler (gather_raises e s))"
proof -
  assume i: "handler_inv (cs_handler s)"
  obtain r h where 1: "cancel_all (map snd (metric_subscriptions (cs_handler s))) (cs_handler s) = (r, h)" by fastforce
  have "handler_inv h" by (rule cancel_all_inv [OF i registered_valid [OF i] 1])
  with i 1 show ?thesis
    by (auto simp: gather_raises_def handler_exit_def split: option.split sum.split prod.split)
qed

lemma handler_does_inv:
  "m (cs_handler s) = (r, h) \<Longrightarrow> handler_inv h \<Longrightarrow> handler_inv (cs_handler (handler_does m s))"
  using gather_raises_inv [of "s\<lparr>cs_handler := h\<rparr>"] by (cases r) (simp_all add: handler_does_def)

text \<open>A pass of the synchronising task lists new ids only, each once.\<close>

definition lists_new :: "pydantic \<Rightarrow> command_server \<Rightarrow> server_event \<Rightarrow> bool" where
  "lists_new P s e =
     (case e of
        SyncRead new (Inr bs) \<Rightarrow>
          (case client_decode P bs of
             Inr t \<Rightarrow> (case tm_data t of
                 MetricIdsMsg ids \<Rightarrow> set new = set ids - fst ` set (metrics (cs_handler s)) \<and> distinct new
               | _ \<Rightarrow> True)
           | _ \<Rightarrow> True)
      | _ \<Rightarrow> True)"

lemma sync_pass_inv:
  assumes "handler_inv h" "sync_pass P (\<lambda>_. new) rd h = (r, h')"
    and "\<And>bs t ids. rd = Inr bs \<Longrightarrow> client_decode P bs = Inr t \<Longrightarrow> tm_data t = MetricIdsMsg ids \<Longrightarrow>
      set new = set ids - fst ` set (metrics h) \<and> distinct new"
  shows "handler_inv h'"
proof (cases "\<exists>bs t ids. rd = Inr bs \<and> bs \<noteq> [] \<and> client_decode P bs = Inr t \<and> tm_data t = MetricIdsMsg ids")
  case True
  then obtain bs t ids where c: "rd = Inr bs" "bs \<noteq> []" "client_decode P bs = Inr t" "tm_data t = MetricIdsMsg ids"
    by blast
  then have "update_metric_id_list (\<lambda>_. new) ids h = (r, h')" using assms(2) by (simp add: sync_pass_def)
  with update_list_inv [OF assms(1) this] assms(3) [OF c(1,3,4)] show ?thesis by blast
next
  case False
  have "h' = h"
  proof (cases rd)
    case (Inl e)
    with assms(2) show ?thesis by (cases e) (auto simp: sync_pass_def)
  next
    case (Inr bs)
    with assms(2) False show ?thesis
      by (cases "client_decode P bs"; cases "bs = []") (auto simp: sync_pass_def split: tm_message.splits)
  qed
  with assms(1) show ?thesis by simp
qed

lemma server_step_inv:
  assumes "handler_inv (cs_handler s)" "lists_new P s e"
  shows "handler_inv (cs_handler (server_step P e s))"
proof (cases e)
  case (Cli c)
  with assms show ?thesis by (cases c) simp_all
next
  case TakeBps
  then show ?thesis using assms
    by (auto simp: handle_update_bps_queue_def split: list.split
        intro!: handler_does_inv [OF prod.collapse [symmetric]] conjunct1 [OF update_bps_inv [OF _ prod.collapse [symmetric]]])
next
  case TakeMax
  then show ?thesis using assms
    by (auto simp: handle_set_max_bps_queue_def split: list.split
        intro!: handler_does_inv [OF prod.collapse [symmetric]] set_max_bps_inv [OF _ prod.collapse [symmetric]])
next
  case (SyncRead new rd)
  obtain r h where 1: "sync_pass P (\<lambda>_. new) rd (cs_handler s) = (r, h)" by fastforce
  have "handler_inv h"
    by (rule sync_pass_inv [OF assms(1) 1]) (use assms(2) SyncRead in \<open>simp add: lists_new_def\<close>)
  with assms(1) SyncRead 1 show ?thesis by (cases r) auto
next
  case (TaskEnded i r)
  then show ?thesis using assms(1) task_ends_inv [OF assms(1), of i r] by (auto simp: live_def)
next
  case (ServeFailed x)
  with assms(1) show ?thesis by (simp add: gather_raises_inv)
qed

interpretation ground: machine "\<lambda>s. \<exists>cfg cl. s = new_command_server cfg cl"
    "\<lambda>s s'. \<exists>e. lists_new P s e \<and> s' = server_step P e s" "\<lambda>s. handler_inv (cs_handler s)" for P
proof
  show "handler_inv (cs_handler s)" if "\<exists>cfg cl. s = new_command_server cfg cl" for s
    using that by (auto simp: new_command_server_def handler_inv_def new_handler_def dict_ok_def live_def)
qed (auto intro: server_step_inv)

lemma queue_rates:
  "fold (\<lambda>(m, b). server_step P (Cli (SetBps m b))) q s = s\<lparr>update_bps_queue := update_bps_queue s @ q\<rparr>"
  by (induction q arbitrary: s) auto

subsection \<open>Properties\<close>

text \<open>C23: As long as no two operations of the handler overlap: when the rates given by a sequence of \<open>setbps\<close> commands to a
  server with an empty queue are taken from it one after the other, with nothing else in between and without an error, each
  known metric among them has the last rate given for it and a registered task that runs at that rate, every other metric
  keeps its rate and its task, and unknown ones are ignored.\<close>

theorem setbps_last_wins:
  assumes "reach (\<lambda>s. \<exists>cfg cl. s = new_command_server cfg cl) (\<lambda>s s'. \<exists>e. lists_new P s e \<and> s' = server_step P e s) s"
    and "cs_ended s = None" "update_bps_queue s = []"
    and "s' = fold (server_step P) (replicate (length q) TakeBps) (fold (\<lambda>(m, b). server_step P (Cli (SetBps m b))) q s)"
    and "cs_ended s' = None"
  shows "update_bps_queue s' = [] \<and>
    (\<forall>m. map_of (metrics (cs_handler s')) m =
      (if m \<in> dom (map_of (metrics (cs_handler s))) \<and> m \<in> fst ` set q then map_of (rev q) m
       else map_of (metrics (cs_handler s)) m)) \<and>
    (\<forall>m b. m \<in> dom (map_of (metrics (cs_handler s))) \<longrightarrow>
      map_of (rev q) m = Some b \<or> m \<notin> fst ` set q \<and> served (cs_handler s) m b \<longrightarrow> served (cs_handler s') m b)"
proof -
  let ?s = "s\<lparr>update_bps_queue := q\<rparr>"
  have s': "s' = fold (server_step P) (replicate (length q) TakeBps) ?s"
    using assms(3,4) by (simp add: queue_rates)
  have "handler_inv (cs_handler ?s)" using ground.reach_inv [OF assms(1)] by simp
  from drain_rates [OF this, of q P] assms(2,5) show ?thesis unfolding s' by simp
qed

definition demo_config :: command_config where
  "demo_config = \<lparr>telemetry_server_port = 8000, onboard_server_ip = u ''localhost'', onboard_server_port = 8888,
     default_max_bps = 1001, default_bps_distribution_mode = u ''fair'', file_store_dir = u ''/files''\<rparr>"

definition demo_rates :: "(pystr \<times> int) list" where
  "demo_rates = [(u ''a'', 5), (u ''z'', 6), (u ''a'', 7)]"

text \<open>A server that has listed two metrics, before and after three \<open>setbps\<close>, one of them for an unknown metric.\<close>

definition demo_server :: command_server where
  "demo_server = \<lparr>cs_handler = demo_handler, update_bps_queue = [], set_max_bps_queue = [], cs_sync = None, cs_ended = None\<rparr>"

definition demo_set :: command_server where
  "demo_set = fold (server_step strict_pydantic) (replicate (length demo_rates) TakeBps)
     (fold (\<lambda>(m, b). server_step strict_pydantic (Cli (SetBps m b))) demo_rates demo_server)"

lemma demo_server_reach:
  "reach (\<lambda>s. \<exists>cfg cl. s = new_command_server cfg cl)
    (\<lambda>s s'. \<exists>e. lists_new strict_pydantic s e \<and> s' = server_step strict_pydantic e s) demo_server"
proof -
  let ?ids = "[u ''a'', u ''b'']" and ?s = "new_command_server demo_config (\<lambda>_. Inr ())"
  let ?t = "\<lparr>which_type = T_METRIC_IDS, tm_data = MetricIdsMsg ?ids\<rparr>"
  have "tm_sendable json_ok ?t" by (simp add: tm_sendable_def tm_ok_def telemetry_py_def scalar_def dict_ok_def)
  then obtain bs where bs: "client_decode strict_pydantic bs = Inr ?t" "bs \<noteq> []"
    using strict_telemetry_bytes strict.telemetry_bytes_decode by metis
  have h: "cs_handler ?s = new_handler (u ''fair'') 1001 (\<lambda>_. Inr ())" by (simp add: new_command_server_def demo_config_def)
  have l: "lists_new strict_pydantic ?s (SyncRead ?ids (Inr bs))"
    using bs by (auto simp: lists_new_def h new_handler_def)
  have "fst (update_metric_id_list (\<lambda>_. ?ids) ?ids (new_handler (u ''fair'') 1001 (\<lambda>_. Inr ()))) = Inr ()"
    by (simp add: update_metric_id_list_def new_handler_def add_metric_def create_sub_def redistribute_bps_fairly_def
        update_bps_def update_begin_def cancel_and_await_def abind_def is_ok_def)
  then have "update_metric_id_list (\<lambda>_. ?ids) ?ids (cs_handler ?s) = (Inr (), demo_handler)"
    unfolding h demo_handler_def by (simp add: prod_eq_iff del: u_simps)
  then have "demo_server = server_step strict_pydantic (SyncRead ?ids (Inr bs)) ?s"
    using bs by (simp add: demo_server_def sync_pass_def new_command_server_def)
  with l have st: "\<exists>e. lists_new strict_pydantic ?s e \<and> demo_server = server_step strict_pydantic e ?s"
    by (intro exI [of _ "SyncRead ?ids (Inr bs)"] conjI)
  have "reach (\<lambda>s. \<exists>cfg cl. s = new_command_server cfg cl)
      (\<lambda>s s'. \<exists>e. lists_new strict_pydantic s e \<and> s' = server_step strict_pydantic e s) ?s"
    by (rule reach_start) blast
  from this st show ?thesis by (rule reach_step)
qed

lemma demo_set_eq: "cs_ended demo_set = None" "metrics (cs_handler demo_server) = [(u ''a'', 500), (u ''b'', 500)]"
  by (simp_all add: demo_set_def demo_rates_def demo_server_def demo_handler_eq handle_update_bps_queue_def
      handler_does_def update_bps_def update_begin_def abind_def cancel_and_await_def create_sub_def)

theorem setbps_last_wins_witness:
  "map_of (metrics (cs_handler demo_server)) (u ''a'') = Some 500 \<and> served (cs_handler demo_set) (u ''a'') 7 \<and>
    map_of (metrics (cs_handler demo_set)) (u ''b'') = Some 500 \<and> map_of (metrics (cs_handler demo_set)) (u ''z'') = None"
proof -
  have "cs_ended demo_server = None" "update_bps_queue demo_server = []" by (simp_all add: demo_server_def)
  note w = setbps_last_wins [OF demo_server_reach this demo_set_def demo_set_eq(1)]
  have "u ''a'' \<in> dom (map_of (metrics (cs_handler demo_server)))" "map_of (rev demo_rates) (u ''a'') = Some 7"
    "u ''b'' \<notin> fst ` set demo_rates" "u ''z'' \<notin> dom (map_of (metrics (cs_handler demo_server)))"
    by (simp_all add: demo_set_eq(2) demo_rates_def)
  with w show ?thesis by (auto simp: demo_set_eq(2))
qed

text \<open>A \<open>setmaxbps\<close> with a new value before the first metric is known ends the server with a
  \<open>ZeroDivisionError\<close>; the shell goes on, but no rate it sets is ever taken again.\<close>

theorem setmaxbps_before_metrics:
  "let s = fold (server_step P) [Cli (SetMaxBps b), TakeMax] (new_command_server cfg cl) in
    if b = default_max_bps cfg then cs_ended s = None
    else cs_ended s = Some ZeroDivisionError \<and>
      (\<forall>n. fold (server_step P) (replicate n TakeBps) (server_step P (Cli (SetBps m r)) s) = server_step P (Cli (SetBps m r)) s)"
proof -
  have stuck: "fold (server_step P) (replicate n TakeBps) t = t" if "cs_ended t \<noteq> None" for n and t :: command_server
    using that by (induction n) auto
  let ?s = "fold (server_step P) [Cli (SetMaxBps b), TakeMax] (new_command_server cfg cl)"
  have e: "cs_ended ?s = (if b = default_max_bps cfg then None else Some ZeroDivisionError)"
    by (simp add: new_command_server_def handle_set_max_bps_queue_def handler_does_def set_max_bps_def new_handler_def
        redistribute_bps_fairly_def gather_raises_def handler_exit_def)
  have "cs_ended (server_step P (Cli (SetBps m r)) ?s) \<noteq> None" if "b \<noteq> default_max_bps cfg"
    using e that by simp
  then show ?thesis using e stuck unfolding Let_def by (auto simp del: fold_replicate)
qed

end
