(* ===== verification/CommandStation.thy ===== *)
theory CommandStation
  imports CommandInterleaving CommandServer
begin

section \<open>The coroutines of the ground station: command/src/server.py with sync_metric_ids.py\<close>

text \<open>
  Three coroutines change the rates: one takes \<open>setbps\<close> requests from a queue, one takes
  \<open>setmaxbps\<close> requests, and the synchronising task adds metrics. Each runs until it awaits, so their
  updates interleave. The theory puts them on top of the interleaved handler, proves which
  promises survive every interleaving, and which need the coroutines to take turns.
\<close>

subsection \<open>State\<close>

datatype coroutine = RateLoop | MaxLoop | SyncLoop

text \<open>
  \<open>st_ready\<close> are the children of task groups that did not run yet, \<open>st_owned\<close> the updates that
  wait for an old task, each with the coroutine it runs for. \<open>st_new\<close> are the ids the
  synchronising task still has to add, \<open>st_failed\<close> the task groups a child of which has raised.
\<close>

record station =
  st_run :: handler_run
  st_rates :: "(pystr \<times> int) list"
  st_maxes :: "int list"
  st_ready :: "(coroutine \<times> pystr \<times> int) list"
  st_owned :: "(coroutine \<times> pystr \<times> int \<times> nat) list"
  st_new :: "pystr list"
  st_failed :: "coroutine set"
  st_sync :: "unit res option"
  st_ended :: "pyexc option"

definition new_station :: "command_config \<Rightarrow> (nat \<Rightarrow> unit res) \<Rightarrow> station" where
  "new_station cfg cl =
     \<lparr>st_run = new_run (default_bps_distribution_mode cfg) (default_max_bps cfg) cl,
      st_rates = [], st_maxes = [], st_ready = [], st_owned = [], st_new = [], st_failed = {},
      st_sync = None, st_ended = None\<rparr>"

definition idle :: "coroutine \<Rightarrow> station \<Rightarrow> bool" where
  "idle c s \<longleftrightarrow> c \<notin> fst ` set (st_ready s) \<and> c \<notin> fst ` set (st_owned s)"

subsection \<open>Operations\<close>

text \<open>
  An exception that leaves one of the two loops leaves \<open>gather\<close>; one that leaves the
  synchronising task is kept in the task.
\<close>

definition st_raises :: "coroutine \<Rightarrow> pyexc \<Rightarrow> station \<Rightarrow> station" where
  "st_raises c e s =
     (if c = SyncLoop then s\<lparr>st_sync := Some (Inl e), st_new := []\<rparr> else s\<lparr>st_ended := Some e\<rparr>)"

definition update_raised :: "coroutine \<Rightarrow> pyexc \<Rightarrow> station \<Rightarrow> station" where
  "update_raised c e s = (if c = RateLoop then st_raises c e s else s\<lparr>st_failed := insert c (st_failed s)\<rparr>)"

text \<open>A task group raises when its last child has ended and one of them had raised.\<close>

definition group_ends :: "coroutine \<Rightarrow> station \<Rightarrow> station" where
  "group_ends c s =
     (if c \<in> st_failed s \<and> idle c s then st_raises c ExceptionGroup (s\<lparr>st_failed := st_failed s - {c}\<rparr>) else s)"

text \<open>\<open>update_bps\<close> up to its \<open>await\<close>, and from there to its end.\<close>

definition st_update :: "coroutine \<Rightarrow> pystr \<Rightarrow> int \<Rightarrow> station \<Rightarrow> station" where
  "st_update c m b s =
     (case update_start m b (st_run s) of (r, t) \<Rightarrow>
        let s1 = s\<lparr>st_run := t,
          st_owned := st_owned s @ map (Pair c) (drop (length (hr_waiting (st_run s))) (hr_waiting t))\<rparr>
        in group_ends c (case r of Inl e \<Rightarrow> update_raised c e s1 | Inr _ \<Rightarrow> s1))"

definition st_wake :: "coroutine \<times> pystr \<times> int \<times> nat \<Rightarrow> station \<Rightarrow> station" where
  "st_wake w s =
     (case update_resume (snd w) (st_run s) of (r, t) \<Rightarrow>
        let s1 = s\<lparr>st_run := t, st_owned := remove1 w (st_owned s)\<rparr>
        in group_ends (fst w) (case r of Inl e \<Rightarrow> update_raised (fst w) e s1 | Inr _ \<Rightarrow> s1))"

text \<open>\<open>redistribute_bps_fairly\<close> creates its children; they run later.\<close>

definition st_distribute :: "coroutine \<Rightarrow> station \<Rightarrow> station" where
  "st_distribute c s =
     (let h = hr_handler (st_run s) in
      if metrics h = [] then st_raises c ZeroDivisionError s
      else s\<lparr>st_ready := st_ready s @ map (\<lambda>m. (c, m, max_bps h div int (length (metrics h)))) (map fst (metrics h))\<rparr>)"

definition st_settings :: "int \<Rightarrow> bool \<Rightarrow> station \<Rightarrow> station" where
  "st_settings b up s = s\<lparr>st_run := (st_run s)\<lparr>hr_handler := (hr_handler (st_run s))\<lparr>max_bps := b, updated := up\<rparr>\<rparr>\<rparr>"

definition st_take_rate :: "station \<Rightarrow> station" where
  "st_take_rate s =
     (case st_rates s of
        [] \<Rightarrow> s
      | (m, b) # q \<Rightarrow> if idle RateLoop s then st_update RateLoop m b (s\<lparr>st_rates := q\<rparr>) else s)"

definition st_take_max :: "station \<Rightarrow> station" where
  "st_take_max s =
     (case st_maxes s of
        [] \<Rightarrow> s
      | b # q \<Rightarrow>
        if idle MaxLoop s then
          (let h = hr_handler (st_run s) in
           if b \<noteq> max_bps h then st_distribute MaxLoop (st_settings b (updated h) (s\<lparr>st_maxes := q\<rparr>))
           else s\<lparr>st_maxes := q\<rparr>)
        else s)"

text \<open>\<open>update_metric_id_list\<close>: the new ids are found at once, then added one by one in the order \<open>new\<close>.\<close>

definition st_ids :: "pystr list \<Rightarrow> station \<Rightarrow> station" where
  "st_ids new s =
     (if idle SyncLoop s \<and> st_new s = [] \<and> st_sync s = None \<and> new \<noteq> []
      then (st_settings (max_bps (hr_handler (st_run s))) True s)\<lparr>st_new := new\<rparr> else s)"

definition st_add :: "station \<Rightarrow> station" where
  "st_add s =
     (case st_new s of
        [] \<Rightarrow> s
      | m # ms \<Rightarrow>
        if idle SyncLoop s then
          (let s1 = s\<lparr>st_run := start_metric m (st_run s), st_new := ms\<rparr> in
           if bps_distribution_mode (hr_handler (st_run s1)) = u ''fair'' then st_distribute SyncLoop s1 else s1)
        else s)"

subsection \<open>Events\<close>

text \<open>
  A child that did not run yet starts in the order of creation; of the updates that wait for the task of a metric
  the event loop wakes the first. A step is what runs between two awaits, or less.
\<close>

datatype station_event =
    Shell cli_command
  | TakeRate
  | TakeMaximum
  | Ids "pystr list" "pystr list"      \<comment> \<open>the ids received, the new ones in the order of the set\<close>
  | AddMetric
  | StartUpdate
  | Wake pystr
  | Ends nat "unit res"

fun station_step :: "station_event \<Rightarrow> station \<Rightarrow> station" where
  "station_step (Shell (SetBps m b)) s = s\<lparr>st_rates := st_rates s @ [(m, b)]\<rparr>"
| "station_step (Shell (SetMaxBps b)) s = s\<lparr>st_maxes := st_maxes s @ [b]\<rparr>"
| "station_step (Shell GetMetricInfos) s = s"
| "station_step TakeRate s = (if st_ended s = None then st_take_rate s else s)"
| "station_step TakeMaximum s = (if st_ended s = None then st_take_max s else s)"
| "station_step (Ids latest new) s = (if st_ended s = None then st_ids new s else s)"
| "station_step AddMetric s = (if st_ended s = None then st_add s else s)"
| "station_step StartUpdate s =
     (case st_ready s of
        [] \<Rightarrow> s
      | (c, m, b) # q \<Rightarrow> if st_ended s = None then st_update c m b (s\<lparr>st_ready := q\<rparr>) else s)"
| "station_step (Wake m) s =
     (case find (\<lambda>w. fst (snd w) = m) (st_owned s) of
        None \<Rightarrow> s
      | Some w \<Rightarrow>
        if st_ended s = None \<and> \<not> live (hr_handler (st_run s)) (snd (snd (snd w))) then st_wake w s else s)"
| "station_step (Ends i r) s =
     (if live (hr_handler (st_run s)) i then s\<lparr>st_run := end_task i r (st_run s)\<rparr> else s)"

text \<open>The new ids are those received that are not known yet.\<close>

definition event_ok :: "station \<Rightarrow> station_event \<Rightarrow> bool" where
  "event_ok s e \<longleftrightarrow>
     (case e of
        Ids latest new \<Rightarrow> set new = set latest - fst ` set (metrics (hr_handler (st_run s))) \<and> distinct new
      | _ \<Rightarrow> True)"

definition station_next :: "station \<Rightarrow> station \<Rightarrow> bool" where
  "station_next s s' \<longleftrightarrow> (\<exists>e. event_ok s e \<and> s' = station_step e s)"

text \<open>The coroutines take turns: none begins while updates of another are under way.\<close>

definition in_turn :: "station \<Rightarrow> station_event \<Rightarrow> bool" where
  "in_turn s e \<longleftrightarrow>
     (case e of
        TakeRate \<Rightarrow> st_ready s = [] \<and> st_owned s = []
      | TakeMaximum \<Rightarrow> st_ready s = [] \<and> st_owned s = []
      | AddMetric \<Rightarrow> st_ready s = [] \<and> st_owned s = []
      | _ \<Rightarrow> True)"

definition turn_next :: "station \<Rightarrow> station \<Rightarrow> bool" where
  "turn_next s s' \<longleftrightarrow> (\<exists>e. event_ok s e \<and> in_turn s e \<and> s' = station_step e s)"

definition station_starts :: "station \<Rightarrow> bool" where
  "station_starts s \<longleftrightarrow> (\<exists>cfg cl. s = new_station cfg cl)"

subsection \<open>What the operations do to the handler\<close>

named_theorems station_simps \<open>fields of a station after an operation\<close>

lemma st_raises_simps [station_simps]:
  "st_run (st_raises c e s) = st_run s" "st_owned (st_raises c e s) = st_owned s"
  "st_ready (st_raises c e s) = st_ready s" "st_rates (st_raises c e s) = st_rates s"
  "st_maxes (st_raises c e s) = st_maxes s" "st_failed (st_raises c e s) = st_failed s"
  by (simp_all add: st_raises_def)

lemma update_raised_simps [station_simps]:
  "st_run (update_raised c e s) = st_run s" "st_owned (update_raised c e s) = st_owned s"
  "st_ready (update_raised c e s) = st_ready s" "st_rates (update_raised c e s) = st_rates s"
  "st_maxes (update_raised c e s) = st_maxes s"
  by (simp_all add: update_raised_def station_simps)

lemma group_ends_simps [station_simps]:
  "st_run (group_ends c s) = st_run s" "st_owned (group_ends c s) = st_owned s"
  "st_ready (group_ends c s) = st_ready s" "st_rates (group_ends c s) = st_rates s"
  "st_maxes (group_ends c s) = st_maxes s"
  by (simp_all add: group_ends_def station_simps)

lemma st_update_simps [station_simps]:
  "st_run (st_update c m b s) = snd (update_start m b (st_run s))"
  "st_owned (st_update c m b s) =
    st_owned s @ map (Pair c) (drop (length (hr_waiting (st_run s))) (hr_waiting (snd (update_start m b (st_run s)))))"
  "st_ready (st_update c m b s) = st_ready s" "st_rates (st_update c m b s) = st_rates s"
  "st_maxes (st_update c m b s) = st_maxes s"
  by (cases "update_start m b (st_run s)"; cases "fst (update_start m b (st_run s))";
      simp add: st_update_def station_simps Let_def)+

lemma st_wake_simps [station_simps]:
  "st_run (st_wake w s) = snd (update_resume (snd w) (st_run s))"
  "st_owned (st_wake w s) = remove1 w (st_owned s)" "st_ready (st_wake w s) = st_ready s"
  "st_rates (st_wake w s) = st_rates s" "st_maxes (st_wake w s) = st_maxes s"
  by (cases "update_resume (snd w) (st_run s)"; cases "fst (update_resume (snd w) (st_run s))";
      simp add: st_wake_def station_simps Let_def)+

lemma st_distribute_simps [station_simps]:
  "st_run (st_distribute c s) = st_run s" "st_owned (st_distribute c s) = st_owned s"
  "st_rates (st_distribute c s) = st_rates s" "st_maxes (st_distribute c s) = st_maxes s"
  by (simp_all add: st_distribute_def station_simps Let_def)

lemma st_settings_simps [station_simps]:
  "hr_waiting (st_run (st_settings b up s)) = hr_waiting (st_run s)"
  "metrics (hr_handler (st_run (st_settings b up s))) = metrics (hr_handler (st_run s))"
  "st_owned (st_settings b up s) = st_owned s" "st_ready (st_settings b up s) = st_ready s"
  "st_new (st_settings b up s) = st_new s" "st_failed (st_settings b up s) = st_failed s"
  "st_sync (st_settings b up s) = st_sync s" "st_ended (st_settings b up s) = st_ended s"
  by (simp_all add: st_settings_def)

text \<open>An exception can only shorten the list of ids to add.\<close>

lemma new_after:
  "st_new (group_ends c s) = st_new s \<or> st_new (group_ends c s) = []"
  "st_new (update_raised c e s) = st_new s \<or> st_new (update_raised c e s) = []"
  "st_new (st_update c m b s) = st_new s \<or> st_new (st_update c m b s) = []"
  "st_new (st_wake w s) = st_new s \<or> st_new (st_wake w s) = []"
  "st_new (st_distribute c s) = st_new s \<or> st_new (st_distribute c s) = []"
proof -
  show g: "st_new (group_ends c s) = st_new s \<or> st_new (group_ends c s) = []" for c s
    by (simp add: group_ends_def st_raises_def)
  show u: "st_new (update_raised c e s) = st_new s \<or> st_new (update_raised c e s) = []" for c e s
    by (simp add: update_raised_def st_raises_def)
  show "st_new (st_update c m b s) = st_new s \<or> st_new (st_update c m b s) = []"
    using g u by (auto simp: st_update_def Let_def split: prod.split sum.split) (metis select_convs(6) surjective update_convs(1,5))+
  show "st_new (st_wake w s) = st_new s \<or> st_new (st_wake w s) = []"
    using g u by (auto simp: st_wake_def Let_def split: prod.split sum.split) (metis select_convs(6) surjective update_convs(1,5))+
  show "st_new (st_distribute c s) = st_new s \<or> st_new (st_distribute c s) = []"
    by (simp add: st_distribute_def st_raises_def Let_def)
qed

lemma update_start_waits:
  "hr_waiting (snd (update_start m b t)) =
    hr_waiting t @ drop (length (hr_waiting t)) (hr_waiting (snd (update_start m b t)))"
  "fst ` set (metrics (hr_handler (snd (update_start m b t)))) = fst ` set (metrics (hr_handler t))"
  by (auto simp: update_start_def Let_def keys_dict_set split: option.split)

lemma update_resume_waits:
  "hr_waiting (snd (update_resume w t)) = remove1 w (hr_waiting t)"
  "metrics (hr_handler (snd (update_resume w t))) = metrics (hr_handler t)"
  by (auto simp: update_resume_def Let_def create_sub_facts split: prod.split option.split sum.split)

lemma first_removed:
  "find (\<lambda>w. fst (snd w) = m) os = Some w \<Longrightarrow>
    map snd (remove1 w os) = remove1 (snd w) (map snd os) \<and> w \<in> set os \<and> fst (snd w) = m"
  by (induction os) (auto split: if_splits)

text \<open>The updates that wait are those of the handler; the ids still to add are unknown to it.\<close>

definition station_ok :: "station \<Rightarrow> bool" where
  "station_ok s \<longleftrightarrow> map snd (st_owned s) = hr_waiting (st_run s) \<and> distinct (st_new s) \<and>
     set (st_new s) \<inter> fst ` set (metrics (hr_handler (st_run s))) = {}"

lemma st_take_rate_simps: "st_rates s = (m, b) # q \<Longrightarrow> idle RateLoop s \<Longrightarrow>
    st_take_rate s = st_update RateLoop m b (s\<lparr>st_rates := q\<rparr>)"
  by (simp add: st_take_rate_def)

lemma station_okI:
  assumes "station_ok s" "map snd (st_owned s') = hr_waiting (st_run s')"
    and "st_new s' = st_new s \<or> st_new s' = []"
    and "fst ` set (metrics (hr_handler (st_run s'))) = fst ` set (metrics (hr_handler (st_run s)))"
  shows "station_ok s'"
  using assms by (elim disjE) (simp_all add: station_ok_def)

lemma st_update_ok:
  assumes "station_ok s"
  shows "station_ok (st_update c m b s)"
  by (rule station_okI [OF assms])
    (use assms update_start_waits [of m b "st_run s"] in \<open>simp_all add: station_simps comp_def new_after station_ok_def\<close>)

lemma st_wake_ok:
  assumes "station_ok s" "find (\<lambda>w. fst (snd w) = m) (st_owned s) = Some w"
  shows "station_ok (st_wake w s)"
  by (rule station_okI [OF assms(1)])
    (use assms(1) first_removed [OF assms(2)] in \<open>simp_all add: station_simps new_after station_ok_def update_resume_waits\<close>)

lemma st_distribute_ok:
  assumes "station_ok s"
  shows "station_ok (st_distribute c s)"
  by (rule station_okI [OF assms]) (use assms in \<open>simp_all add: station_simps new_after station_ok_def\<close>)

lemma station_step_ok:
  assumes "station_ok s" "event_ok s e"
  shows "station_ok (station_step e s)"
proof (cases e)
  case (Shell c)
  with assms(1) show ?thesis by (cases c) (simp_all add: station_ok_def)
next
  case TakeRate
  have "station_ok (s\<lparr>st_rates := q\<rparr>)" for q using assms(1) by (simp add: station_ok_def)
  with TakeRate assms(1) show ?thesis by (auto simp: st_take_rate_def st_update_ok split: list.split)
next
  case TakeMaximum
  have "station_ok (s\<lparr>st_maxes := q\<rparr>)" "station_ok (st_settings b up (s\<lparr>st_maxes := q\<rparr>))" for q b up
    using assms(1) by (simp_all add: station_ok_def st_settings_def)
  with TakeMaximum assms(1) show ?thesis by (auto simp: st_take_max_def Let_def st_distribute_ok split: list.split)
next
  case (Ids latest new)
  with assms show ?thesis by (auto simp: station_ok_def st_ids_def event_ok_def station_simps)
next
  case AddMetric
  have "station_ok (s\<lparr>st_run := start_metric m (st_run s), st_new := ms\<rparr>)" if "st_new s = m # ms" for m ms
    using assms(1) that by (auto simp: station_ok_def start_metric_def create_sub_facts keys_dict_set)
  with AddMetric assms(1) show ?thesis by (auto simp: st_add_def Let_def st_distribute_ok split: list.split)
next
  case StartUpdate
  have "station_ok (s\<lparr>st_ready := q\<rparr>)" for q using assms(1) by (simp add: station_ok_def)
  with StartUpdate assms(1) show ?thesis by (auto simp: st_update_ok split: list.split)
next
  case (Wake m)
  with assms(1) st_wake_ok [OF assms(1)] show ?thesis by (auto split: option.split)
next
  case (Ends i r)
  with assms(1) show ?thesis by (simp add: station_ok_def end_task_facts)
qed

text \<open>Every step of the station is a run of the interleaved handler.\<close>

lemma start_runs: "free m t \<Longrightarrow> (run_step free)\<^sup>*\<^sup>* t (snd (update_start m b t))"
  by (intro r_into_rtranclp run_start)

lemma settings_runs: "(run_step free)\<^sup>*\<^sup>* (st_run s) (st_run (st_settings b up s))"
  unfolding st_settings_def by (simp add: r_into_rtranclp run_settings)

lemma station_step_runs:
  assumes "station_ok s" "event_ok s e"
    and "\<And>m b q. e = TakeRate \<Longrightarrow> st_rates s = (m, b) # q \<Longrightarrow> free m (st_run s)"
    and "\<And>c m b q. e = StartUpdate \<Longrightarrow> st_ready s = (c, m, b) # q \<Longrightarrow> free m (st_run s)"
  shows "(run_step free)\<^sup>*\<^sup>* (st_run s) (st_run (station_step e s))"
proof (cases e)
  case (Shell c)
  then show ?thesis by (cases c) simp_all
next
  case TakeRate
  with assms(3) show ?thesis by (auto simp: st_take_rate_def station_simps start_runs split: list.split)
next
  case TakeMaximum
  then show ?thesis using settings_runs [of free "s\<lparr>st_maxes := q\<rparr>" for q]
    by (auto simp: st_take_max_def station_simps Let_def split: list.split)
next
  case (Ids latest new)
  then show ?thesis using settings_runs [of free s] by (auto simp: st_ids_def)
next
  case AddMetric
  have "run_step free (st_run s) (start_metric m (st_run s))" if "st_new s = m # ms" for m ms
    using assms(1) that by (intro run_metric) (auto simp: station_ok_def)
  with AddMetric show ?thesis by (auto simp: st_add_def station_simps Let_def split: list.split)
next
  case StartUpdate
  with assms(4) show ?thesis by (auto simp: station_simps start_runs split: list.split)
next
  case (Wake m)
  have "run_step free (st_run s) (snd (update_resume (snd w) (st_run s)))"
    if "find (\<lambda>w. fst (snd w) = m) (st_owned s) = Some w" "\<not> live (hr_handler (st_run s)) (snd (snd (snd w)))" for w
  proof -
    have "snd w \<in> set (hr_waiting (st_run s))"
      using first_removed [OF that(1)] assms(1) unfolding station_ok_def by (metis image_eqI set_map)
    with that(2) show ?thesis by (cases w) (auto intro: run_resume)
  qed
  with Wake show ?thesis by (auto simp: station_simps split: option.split)
next
  case (Ends i r)
  then show ?thesis by (auto intro: run_end)
qed

lemma station_next_ok: "station_ok s \<Longrightarrow> station_next s s' \<Longrightarrow> station_ok s'"
  by (auto simp: station_next_def station_step_ok)

interpretation stations: machine station_starts station_next station_ok
proof
  show "station_ok s" if "station_starts s" for s
    using that by (auto simp: station_starts_def new_station_def station_ok_def new_run_def)
qed (rule station_next_ok)

lemma station_starts_run: "station_starts s \<Longrightarrow> starts (st_run s)"
  by (force simp: station_starts_def starts_def new_station_def)

abbreviation anytime :: "pystr \<Rightarrow> handler_run \<Rightarrow> bool" where
  "anytime \<equiv> \<lambda>_ _. True"

lemma station_reaches_run:
  "reach station_starts station_next s \<Longrightarrow> reach starts (run_step anytime) (st_run s)"
proof (induction rule: reach.induct)
  case (reach_start s)
  then show ?case by (intro reach.reach_start station_starts_run)
next
  case (reach_step s s')
  then obtain e where e: "event_ok s e" "s' = station_step e s" by (auto simp: station_next_def)
  have "station_ok s" by (rule stations.reach_inv [OF reach_step.hyps(1)])
  from station_step_runs [OF this e(1), of anytime] reach_step.IH show ?case
    unfolding e(2) by (simp add: reach_steps)
qed

lemma station_loose: "reach station_starts station_next s \<Longrightarrow> loose_inv (st_run s)"
  using loose.reach_inv [OF station_reaches_run] .

subsection \<open>Coroutines that take turns\<close>

abbreviation st_metric :: "coroutine \<times> pystr \<times> 'a \<Rightarrow> pystr" where
  "st_metric w \<equiv> fst (snd w)"

definition turns_ok :: "station \<Rightarrow> bool" where
  "turns_ok s \<longleftrightarrow> station_ok s \<and> run_inv (st_run s) \<and>
     distinct (map st_metric (st_ready s) @ map st_metric (st_owned s))"

lemma update_start_adds:
  "map st_metric (map (Pair c) (drop (length (hr_waiting t)) (hr_waiting (snd (update_start m b t))))) \<in> {[], [m]}"
  by (simp add: update_start_def Let_def split: option.split)

lemma st_update_distinct:
  assumes "distinct (m # map st_metric (st_ready s) @ map st_metric (st_owned s))"
  shows "distinct (map st_metric (st_ready (st_update c m b s)) @ map st_metric (st_owned (st_update c m b s)))"
  using assms update_start_adds [of c "st_run s" m b] unfolding insert_iff empty_iff
  by (elim disjE FalseE) (simp_all add: station_simps)

lemma st_distribute_distinct:
  assumes "st_ready s = []" "st_owned s = []" "dict_ok (metrics (hr_handler (st_run s)))"
  shows "distinct (map st_metric (st_ready (st_distribute c s)) @ map st_metric (st_owned (st_distribute c s)))"
  using assms by (simp add: st_distribute_def Let_def station_simps comp_def dict_ok_def)

lemma turns_distinct:
  assumes "turns_ok s" "in_turn s e"
  shows "distinct (map st_metric (st_ready (station_step e s)) @ map st_metric (st_owned (station_step e s)))"
proof (cases e)
  case (Shell c)
  with assms show ?thesis by (cases c) (simp_all add: turns_ok_def)
next
  case TakeRate
  with assms st_update_distinct show ?thesis
    by (auto simp: turns_ok_def in_turn_def st_take_rate_def split: list.split)
next
  case TakeMaximum
  have "dict_ok (metrics (hr_handler (st_run s)))" using assms(1) run_invD(1) by (simp add: turns_ok_def)
  with TakeMaximum assms st_distribute_distinct show ?thesis
    by (simp add: turns_ok_def in_turn_def st_take_max_def Let_def st_settings_def split: list.split)
next
  case (Ids latest new)
  with assms show ?thesis by (simp add: turns_ok_def st_ids_def station_simps)
next
  case AddMetric
  have "dict_ok (metrics (hr_handler (start_metric m (st_run s))))" for m
    using assms(1) run_invD(1) by (simp add: turns_ok_def start_metric_def create_sub_facts dict_set_ok)
  with AddMetric assms st_distribute_distinct show ?thesis
    by (simp add: turns_ok_def in_turn_def st_add_def Let_def split: list.split)
next
  case StartUpdate
  show ?thesis
  proof (cases "st_ready s")
    case (Cons x q)
    obtain c m b where x: "x = (c, m, b)" by (cases x)
    have "distinct (m # map st_metric (st_ready (s\<lparr>st_ready := q\<rparr>)) @ map st_metric (st_owned (s\<lparr>st_ready := q\<rparr>)))"
      using assms(1) Cons x by (simp add: turns_ok_def)
    from st_update_distinct [OF this, of c b] StartUpdate Cons x assms(1) show ?thesis
      by (simp add: turns_ok_def)
  qed (use StartUpdate assms in \<open>simp add: turns_ok_def\<close>)
next
  case (Wake m)
  with assms(1) show ?thesis
    by (auto simp: turns_ok_def station_simps distinct_map distinct_remove1 inj_on_def dest!: subsetD [OF set_remove1_subset] split: option.split)
next
  case (Ends i r)
  with assms show ?thesis by (simp add: turns_ok_def)
qed

text \<open>When an update starts, no other one of its metric is under way.\<close>

lemma turn_runs:
  assumes "turns_ok s" "event_ok s e" "in_turn s e"
  shows "(run_step one_at_a_time)\<^sup>*\<^sup>* (st_run s) (st_run (station_step e s))"
proof (rule station_step_runs [OF _ assms(2)])
  have w: "fst ` set (hr_waiting (st_run s)) = st_metric ` set (st_owned s)"
    using assms(1) unfolding turns_ok_def station_ok_def by (metis image_image list.set_map)
  show "station_ok s" using assms(1) by (simp add: turns_ok_def)
  show "one_at_a_time m (st_run s)" if "e = TakeRate" "st_rates s = (m, b) # q" for m b q
    using assms(3) that(1) by (simp add: one_at_a_time_def in_turn_def w)
  show "one_at_a_time m (st_run s)" if "e = StartUpdate" "st_ready s = (c, m, b) # q" for c m b q
    using assms(1) that(2) by (simp add: one_at_a_time_def turns_ok_def w)
qed

lemma turn_next_ok: "turns_ok s \<Longrightarrow> turn_next s s' \<Longrightarrow> turns_ok s'"
  using turn_runs turns_distinct station_step_ok interleaved.steps_inv
  unfolding turn_next_def by (metis turns_ok_def)

interpretation turns: machine station_starts turn_next turns_ok
proof
  show "turns_ok s" if "station_starts s" for s
    using that stations.inv_start [OF that] interleaved.inv_start [OF station_starts_run [OF that]]
    by (auto simp: turns_ok_def station_starts_def new_station_def)
qed (rule turn_next_ok)

lemma turns_reach_run:
  "reach station_starts turn_next s \<Longrightarrow> reach starts (run_step one_at_a_time) (st_run s)"
proof (induction rule: reach.induct)
  case (reach_start s)
  then show ?case by (intro reach.reach_start station_starts_run)
next
  case (reach_step s s')
  then obtain e where e: "event_ok s e" "in_turn s e" "s' = station_step e s" by (auto simp: turn_next_def)
  from turn_runs [OF turns.reach_inv [OF reach_step.hyps(1)] e(1,2)] reach_step.IH show ?case
    unfolding e(3) by (rule reach_steps [rotated])
qed

text \<open>Between two turns no cancelled task runs, and the handler is as if the operations had run one after the other.\<close>

lemma settled_handler:
  assumes "reach station_starts turn_next s" "st_owned s = []"
  shows "handler_inv (hr_handler (st_run s))"
proof -
  note inv = run_invD [OF interleaved.reach_inv [OF turns_reach_run [OF assms(1)]]]
  have w: "hr_waiting (st_run s) = []"
    using turns.reach_inv [OF assms(1)] assms(2) by (simp add: turns_ok_def station_ok_def)
  have "active (st_run s) i" if "live (hr_handler (st_run s)) i" for i
    using loose.reach_inv [OF turns_reach_run [OF assms(1)]] that w by (auto simp: loose_inv_def active_def)
  with inv show ?thesis unfolding handler_inv_def by blast
qed

subsection \<open>Rates that are shown\<close>

text \<open>
  The rate of a metric is the one of the last update that waits for it, or of its registered task. Updates of a
  metric end in the order in which they started, so this survives every overlap.
\<close>

definition waiting_for :: "pystr \<Rightarrow> handler_run \<Rightarrow> (pystr \<times> int \<times> nat) list" where
  "waiting_for m t = filter (\<lambda>w. fst w = m) (hr_waiting t)"

definition shown_ok :: "handler_run \<Rightarrow> bool" where
  "shown_ok t \<longleftrightarrow> (\<forall>m i. map_of (metric_subscriptions (hr_handler t)) m = Some i \<longrightarrow>
     map_of (metrics (hr_handler t)) m = Some
       (if waiting_for m t = [] then tk_bps (sub_tasks (hr_handler t) ! i) else fst (snd (last (waiting_for m t)))))"

lemma shown_okD:
  "shown_ok t \<Longrightarrow> map_of (metric_subscriptions (hr_handler t)) m = Some i \<Longrightarrow>
    map_of (metrics (hr_handler t)) m = Some
      (if waiting_for m t = [] then tk_bps (sub_tasks (hr_handler t) ! i) else fst (snd (last (waiting_for m t))))"
  by (simp add: shown_ok_def)

lemma shown_start:
  assumes "shown_ok t" "subs_ok (hr_handler t)"
  shows "shown_ok (snd (update_start m b t))"
proof (cases "m \<in> fst ` set (metrics (hr_handler t))")
  case True
  from subs_ok_registered [OF assms(2) this] obtain i where "map_of (metric_subscriptions (hr_handler t)) m = Some i" .
  with True assms(1) show ?thesis
    by (auto simp: update_start_def Let_def shown_ok_def waiting_for_def dict_simps)
qed (use assms in \<open>simp add: update_start_def\<close>)

lemma shown_metric:
  assumes "shown_ok t" "loose_inv t" "m \<notin> fst ` set (metrics (hr_handler t))"
  shows "shown_ok (start_metric m t)"
proof -
  have "fst w \<noteq> m" if "w \<in> set (hr_waiting t)" for w using assms(2,3) that unfolding loose_inv_def by blast
  then have w: "waiting_for m t = []" by (auto simp: waiting_for_def filter_empty_conv)
  have s: "subs_ok (hr_handler t)" using assms(2) by (simp add: loose_inv_def)
  show ?thesis unfolding shown_ok_def
  proof (intro allI impI)
    fix m' i assume r: "map_of (metric_subscriptions (hr_handler (start_metric m t))) m' = Some i"
    let ?h = "(hr_handler t)\<lparr>metrics := dict_set m 0 (metrics (hr_handler t))\<rparr>"
    show "map_of (metrics (hr_handler (start_metric m t))) m' = Some (if waiting_for m' (start_metric m t) = []
        then tk_bps (sub_tasks (hr_handler (start_metric m t)) ! i) else fst (snd (last (waiting_for m' (start_metric m t)))))"
    proof (cases "m' = m")
      case True
      with r have "i = length (sub_tasks ?h)" by (simp add: start_metric_def create_sub_facts(3))
      with True w show ?thesis using create_sub_facts(5) [of m 0 ?h]
        by (simp add: start_metric_def create_sub_facts(2) dict_simps waiting_for_def)
    next
      case False
      with r have r': "map_of (metric_subscriptions (hr_handler t)) m' = Some i"
        by (simp add: start_metric_def create_sub_facts(3))
      then have "i < length (sub_tasks ?h)" using s by (simp add: subs_ok_def)
      from create_sub_facts(4) [OF this, of m 0] assms(1) r' False show ?thesis
        by (simp add: shown_ok_def start_metric_def create_sub_facts(2) dict_simps waiting_for_def)
    qed
  qed
qed

lemma shown_end: "shown_ok t \<Longrightarrow> shown_ok (end_task i r t)"
  by (simp add: shown_ok_def waiting_for_def end_task_facts end_task_tasks(2))

lemma shown_settings: "shown_ok (st_run s) \<Longrightarrow> shown_ok (st_run (st_settings b up s))"
  by (simp add: shown_ok_def waiting_for_def st_settings_def)

lemma shown_resume:
  assumes "shown_ok t" "loose_inv t" "find (\<lambda>w. fst w = m) (hr_waiting t) = Some w" "fst (update_resume w t) = Inr ()"
  shows "shown_ok (snd (update_resume w t))"
proof -
  obtain b i where w: "w = (m, b, i)" "w \<in> set (hr_waiting t)"
  proof -
    have "w \<in> set (hr_waiting t) \<and> fst w = m" using assms(3) unfolding find_Some_iff by (metis nth_mem)
    with that show thesis by (cases w) auto
  qed
  have s: "snd (update_resume w t) = t\<lparr>hr_waiting := remove1 w (hr_waiting t), hr_handler := create_sub m b (hr_handler t)\<rparr>"
    using assms(4) by (auto simp: w(1) update_resume_def Let_def split: option.splits sum.splits if_splits)
  have hd: "waiting_for m t = w # waiting_for m (snd (update_resume w t))"
  proof -
    have "filter (\<lambda>w. fst w = m) ws = w # filter (\<lambda>w. fst w = m) (remove1 w ws)" if "find (\<lambda>w. fst w = m) ws = Some w" for ws
      using that by (induction ws) (auto simp: w(1) split: if_splits)
    from this [OF assms(3)] show ?thesis by (simp add: waiting_for_def s)
  qed
  have other: "waiting_for m' (snd (update_resume w t)) = waiting_for m' t" if "m' \<noteq> m" for m'
  proof -
    have "filter (\<lambda>w. fst w = m') (remove1 w ws) = filter (\<lambda>w. fst w = m') ws" for ws
      using that w(1) by (induction ws) auto
    then show ?thesis by (simp add: waiting_for_def s)
  qed
  have valid: "i' < length (sub_tasks (hr_handler t))" if "map_of (metric_subscriptions (hr_handler t)) m' = Some i'" for m' i'
    using that assms(2) by (simp add: loose_inv_def subs_ok_def)
  show ?thesis unfolding shown_ok_def
  proof (intro allI impI)
    fix m' i' assume r: "map_of (metric_subscriptions (hr_handler (snd (update_resume w t)))) m' = Some i'"
    show "map_of (metrics (hr_handler (snd (update_resume w t)))) m' = Some (if waiting_for m' (snd (update_resume w t)) = []
        then tk_bps (sub_tasks (hr_handler (snd (update_resume w t))) ! i')
        else fst (snd (last (waiting_for m' (snd (update_resume w t))))))"
    proof (cases "m' = m")
      case True
      have "m \<in> fst ` set (metrics (hr_handler t))" using assms(2) w unfolding loose_inv_def by (metis fst_conv)
      moreover have "subs_ok (hr_handler t)" using assms(2) by (simp add: loose_inv_def)
      ultimately obtain j where "map_of (metric_subscriptions (hr_handler t)) m = Some j" by (metis subs_ok_registered)
      from shown_okD [OF assms(1) this] hd
      have "map_of (metrics (hr_handler t)) m = Some (fst (snd (last (waiting_for m t))))" by simp
      moreover have "i' = length (sub_tasks (hr_handler t))" using r True by (simp add: s create_sub_facts(3))
      ultimately show ?thesis using create_sub_facts(5) [of m b "hr_handler t"] unfolding True hd
        by (simp add: s [unfolded w(1)] w(1) create_sub_facts(2))
    next
      case False
      with r have r': "map_of (metric_subscriptions (hr_handler t)) m' = Some i'" by (simp add: s create_sub_facts(3))
      from create_sub_facts(4) [OF valid [OF r'], of m b] shown_okD [OF assms(1) r'] show ?thesis
        unfolding other [OF False] by (simp add: s create_sub_facts(2))
    qed
  qed
qed

text \<open>No operation has raised so far.\<close>

definition no_error :: "station \<Rightarrow> bool" where
  "no_error s \<longleftrightarrow> st_ended s = None \<and> st_failed s = {} \<and> st_sync s = None"

lemma no_error_simps [station_simps]:
  "\<not> no_error (st_raises c e s)" "\<not> no_error (update_raised c e s)"
  "no_error (group_ends c s) \<longleftrightarrow> no_error s"
  by (auto simp: no_error_def st_raises_def update_raised_def group_ends_def)

lemma no_error_same [station_simps]:
  "no_error (s\<lparr>st_run := t\<rparr>) = no_error s" "no_error (s\<lparr>st_owned := os\<rparr>) = no_error s"
  "no_error (s\<lparr>st_ready := rs\<rparr>) = no_error s" "no_error (s\<lparr>st_rates := q\<rparr>) = no_error s"
  "no_error (s\<lparr>st_maxes := q'\<rparr>) = no_error s" "no_error (s\<lparr>st_new := ms\<rparr>) = no_error s"
  "no_error (st_settings b up s) = no_error s"
  by (simp_all add: no_error_def st_settings_def)

lemma no_error_update [station_simps]:
  "no_error (st_update c m b s) \<longleftrightarrow> no_error s \<and> fst (update_start m b (st_run s)) = Inr ()"
  by (cases "update_start m b (st_run s)"; cases "fst (update_start m b (st_run s))")
    (simp_all add: st_update_def Let_def station_simps)

lemma no_error_wake [station_simps]:
  "no_error (st_wake w s) \<longleftrightarrow> no_error s \<and> fst (update_resume (snd w) (st_run s)) = Inr ()"
  by (cases "update_resume (snd w) (st_run s)"; cases "fst (update_resume (snd w) (st_run s))")
    (simp_all add: st_wake_def Let_def station_simps)

lemma no_error_distribute [station_simps]:
  "no_error (st_distribute c s) \<longleftrightarrow> no_error s \<and> metrics (hr_handler (st_run s)) \<noteq> []"
  by (simp add: st_distribute_def Let_def station_simps)

lemma find_mapped: "find P xs = Some x \<Longrightarrow> P = Q \<circ> f \<Longrightarrow> find Q (map f xs) = Some (f x)"
  by (induction xs) (auto split: if_splits)

lemma shown_station_step:
  assumes "station_ok s" "loose_inv (st_run s)" "event_ok s e" "no_error s \<Longrightarrow> shown_ok (st_run s)"
    and "no_error (station_step e s)"
  shows "no_error s \<and> shown_ok (st_run (station_step e s))"
proof -
  have sub: "subs_ok (hr_handler (st_run s))" using assms(2) by (simp add: loose_inv_def)
  show ?thesis
  proof (cases e)
    case (Shell c)
    with assms(4,5) show ?thesis by (cases c) (simp_all add: no_error_def)
  next
    case TakeRate
    with assms(4,5) show ?thesis
      by (auto simp: st_take_rate_def station_simps shown_start [OF _ sub] split: list.splits if_splits)
  next
    case TakeMaximum
    have "shown_ok (st_run (st_settings b up (s\<lparr>st_maxes := q\<rparr>)))" if "no_error s" for b up q
      by (rule shown_settings) (use assms(4) that in simp)
    with TakeMaximum assms(4,5) show ?thesis
      by (auto simp: st_take_max_def station_simps Let_def split: list.splits if_splits)
  next
    case (Ids latest new)
    with assms(4,5) show ?thesis by (auto simp: st_ids_def station_simps shown_settings split: if_splits)
  next
    case AddMetric
    have "shown_ok (start_metric m (st_run s))" if "st_new s = m # ms" "no_error s" for m ms
      by (rule shown_metric [OF assms(4) [OF that(2)] assms(2)]) (use assms(1) that(1) in \<open>auto simp: station_ok_def\<close>)
    with AddMetric assms(4,5) show ?thesis
      by (auto simp: st_add_def station_simps Let_def split: list.splits if_splits)
  next
    case StartUpdate
    with assms(4,5) show ?thesis
      by (auto simp: station_simps shown_start [OF _ sub] split: list.splits if_splits)
  next
    case (Wake m)
    have "shown_ok (snd (update_resume (snd w) (st_run s)))"
      if w: "find (\<lambda>w. st_metric w = m) (st_owned s) = Some w" "no_error s" "fst (update_resume (snd w) (st_run s)) = Inr ()" for w
    proof (rule shown_resume [OF assms(4) [OF w(2)] assms(2) _ w(3)])
      show "find (\<lambda>w. fst w = m) (hr_waiting (st_run s)) = Some (snd w)"
        using find_mapped [OF w(1), of "\<lambda>w. fst w = m" snd] assms(1) by (simp add: station_ok_def comp_def)
    qed
    with Wake assms(4,5) show ?thesis
      by (auto simp: station_simps split: option.splits if_splits)
  next
    case (Ends i r)
    with assms(4,5) show ?thesis by (auto simp: station_simps shown_end split: if_splits)
  qed
qed

lemma shown_start_station: "station_starts s \<Longrightarrow> shown_ok (st_run s)"
  by (auto simp: station_starts_def new_station_def shown_ok_def new_run_def new_handler_def)

lemma station_shown: "reach station_starts station_next s \<Longrightarrow> no_error s \<Longrightarrow> shown_ok (st_run s)"
proof (induction rule: reach.induct)
  case (reach_start s)
  then show ?case by (intro shown_start_station)
next
  case (reach_step s s')
  then obtain e where e: "event_ok s e" "s' = station_step e s" by (auto simp: station_next_def)
  from shown_station_step [OF stations.reach_inv [OF reach_step.hyps(1)] station_loose [OF reach_step.hyps(1)] e(1)
      reach_step.IH] reach_step.prems show ?case
    unfolding e(2) by blast
qed

subsection \<open>Progress\<close>

text \<open>
  What the event loop does by itself: it starts the children of task groups, ends tasks that were cancelled, and
  wakes updates whose old task has ended. \<open>healthy\<close>: no subscription task has ended with an error.
\<close>

definition healthy :: "handler_run \<Rightarrow> bool" where
  "healthy t \<longleftrightarrow> (\<forall>k \<in> set (sub_tasks (hr_handler t)).
     case tk_end k of Some (Inl e) \<Rightarrow> e = CancelledError | _ \<Rightarrow> True)"

definition settling :: "station \<Rightarrow> station \<Rightarrow> bool" where
  "settling s s' \<longleftrightarrow> s' = station_step StartUpdate s \<or> (\<exists>m. s' = station_step (Wake m) s) \<or>
     (\<exists>i \<in> hr_cancelled (st_run s). s' = station_step (Ends i (Inl CancelledError)) s)"

definition work_left :: "station \<Rightarrow> nat" where
  "work_left s = 3 * length (st_ready s) + 2 * length (st_owned s)"

lemma settling_next: "settling s s' \<Longrightarrow> station_next s s'"
proof -
  have "event_ok s StartUpdate" "event_ok s (Wake m)" "event_ok s (Ends i r)" for m i r by (simp_all add: event_ok_def)
  then show "settling s s' \<Longrightarrow> station_next s s'" unfolding settling_def station_next_def by blast
qed

lemma healthy_start: "healthy t \<Longrightarrow> healthy (snd (update_start m b t))"
  by (auto simp: update_start_def Let_def healthy_def split: option.split)

lemma healthy_resume: "healthy t \<Longrightarrow> healthy (snd (update_resume w t))"
  by (auto simp: update_resume_def Let_def healthy_def create_sub_def split: prod.split option.split sum.split)

lemma healthy_end: "healthy t \<Longrightarrow> healthy (end_task i (Inl CancelledError) t)"
  by (auto simp: end_task_def healthy_def dest: set_update_subset_insert [THEN subsetD])

lemma start_returns: "subs_ok (hr_handler t) \<Longrightarrow> fst (update_start m b t) = Inr ()"
proof (cases "m \<in> fst ` set (metrics (hr_handler t))")
  case True
  assume "subs_ok (hr_handler t)"
  from this True obtain i where "map_of (metric_subscriptions (hr_handler t)) m = Some i" by (rule subs_ok_registered)
  with True show ?thesis by (simp add: update_start_def Let_def)
qed (simp add: update_start_def)

lemma resume_returns:
  assumes "healthy t" "i < length (sub_tasks (hr_handler t))"
  shows "fst (update_resume (m, b, i) t) = Inr ()"
  using assms(1) nth_mem [OF assms(2)] unfolding healthy_def update_resume_def Let_def
  by (fastforce split: option.split sum.split)

lemma start_shrinks:
  assumes "loose_inv (st_run s)" "no_error s" "healthy (st_run s)" "st_ready s = x # q"
  shows "let s' = station_step StartUpdate s in no_error s' \<and> healthy (st_run s') \<and> work_left s' < work_left s"
proof -
  obtain c m b where x: "x = (c, m, b)" by (cases x)
  have "subs_ok (hr_handler (st_run s))" using assms(1) by (simp add: loose_inv_def)
  moreover have "2 * (length (hr_waiting (snd (update_start m b (st_run s)))) - length (hr_waiting (st_run s))) < 3"
    by (simp add: update_start_def Let_def split: option.split)
  moreover have "st_ended s = None" using assms(2) by (simp add: no_error_def)
  ultimately show ?thesis using assms(2-4) x
    by (simp add: Let_def work_left_def station_simps start_returns healthy_start)
qed

lemma wake_shrinks:
  assumes "station_ok s" "loose_inv (st_run s)" "no_error s" "healthy (st_run s)" "st_owned s = (c, m, b, i) # os"
    and "\<not> live (hr_handler (st_run s)) i"
  shows "let s' = station_step (Wake m) s in no_error s' \<and> healthy (st_run s') \<and> work_left s' + 2 = work_left s"
proof -
  have "(m, b, i) \<in> set (hr_waiting (st_run s))" using assms(1,5) unfolding station_ok_def by (metis list.set_intros(1) list.simps(9) snd_conv)
  then have "i < length (sub_tasks (hr_handler (st_run s)))" using assms(2) unfolding loose_inv_def by (metis snd_conv)
  moreover have "st_ended s = None" using assms(3) by (simp add: no_error_def)
  ultimately show ?thesis using assms(3-6)
    by (simp add: Let_def work_left_def station_simps resume_returns healthy_resume)
qed

lemma settling_relpowp: "settling s s1 \<Longrightarrow> (settling ^^ n) s1 t \<Longrightarrow> (settling ^^ Suc n) s t"
  by (rule relpowp_Suc_I2)

lemma settles:
  assumes "reach station_starts station_next s" "no_error s" "healthy (st_run s)"
  shows "\<exists>n t. n \<le> work_left s \<and> (settling ^^ n) s t \<and> reach station_starts station_next t \<and>
    no_error t \<and> st_ready t = [] \<and> st_owned t = []"
  using assms
proof (induction "work_left s" arbitrary: s rule: less_induct)
  case less
  note ok = stations.reach_inv [OF less.prems(1)] station_loose [OF less.prems(1)]
  have step: "reach station_starts station_next s'" if "settling s s'" for s'
    by (rule reach_step [OF less.prems(1) settling_next [OF that]])
  show ?case
  proof (cases "st_ready s")
    case (Cons x q)
    let ?s = "station_step StartUpdate s"
    have s: "settling s ?s" by (simp add: settling_def del: station_step.simps)
    have "work_left ?s < work_left s" "no_error ?s" "healthy (st_run ?s)"
      using start_shrinks [OF ok(2) less.prems(2,3) Cons] by (simp_all add: Let_def del: station_step.simps)
    from less.hyps [OF this(1) step [OF s] this(2,3)] obtain n t where t: "n \<le> work_left ?s" "(settling ^^ n) ?s t"
      "reach station_starts station_next t" "no_error t" "st_ready t = []" "st_owned t = []"
      by blast
    from settling_relpowp [OF s t(2)] t \<open>work_left ?s < work_left s\<close> show ?thesis
      by (intro exI [of _ "Suc n"] exI [of _ t]) (simp del: station_step.simps)
  next
    case Nil
    show ?thesis
    proof (cases "st_owned s")
      case Nil
      with \<open>st_ready s = []\<close> less.prems show ?thesis by (intro exI [of _ 0] exI [of _ s]) simp
    next
      case (Cons w os)
      obtain c m b i where w: "w = (c, m, b, i)" by (cases w)
      define s1 where "s1 = (if live (hr_handler (st_run s)) i then station_step (Ends i (Inl CancelledError)) s else s)"
      have "(m, b, i) \<in> set (hr_waiting (st_run s))"
        using ok(1) Cons w unfolding station_ok_def by (metis list.set_intros(1) list.simps(9) snd_conv)
      then have i: "i \<in> hr_cancelled (st_run s)" using ok(2) unfolding loose_inv_def by (metis snd_conv)
      have 1: "(settling ^^ (if live (hr_handler (st_run s)) i then 1 else 0)) s s1"
        using i unfolding s1_def settling_def by (simp del: station_step.simps) blast
      have s1: "reach station_starts station_next s1" "no_error s1" "healthy (st_run s1)" "work_left s1 = work_left s"
          "st_owned s1 = (c, m, b, i) # os" "\<not> live (hr_handler (st_run s1)) i"
      proof -
        show "reach station_starts station_next s1"
          using less.prems(1) step i unfolding s1_def settling_def by (simp del: station_step.simps) blast
        show "no_error s1" "healthy (st_run s1)" "work_left s1 = work_left s" "st_owned s1 = (c, m, b, i) # os"
          "\<not> live (hr_handler (st_run s1)) i"
          using less.prems(2,3) Cons w by (simp_all add: s1_def station_simps healthy_end work_left_def live_def)
            (simp add: end_task_def)
      qed
      let ?s = "station_step (Wake m) s1"
      have s: "settling s1 ?s" unfolding settling_def by blast
      have d: "work_left ?s + 2 = work_left s1" "no_error ?s" "healthy (st_run ?s)"
        using wake_shrinks [OF stations.reach_inv [OF s1(1)] station_loose [OF s1(1)] s1(2,3,5,6)]
        by (simp_all add: Let_def del: station_step.simps)
      have "work_left ?s < work_left s" using d(1) s1(4) by linarith
      from less.hyps [OF this reach_step [OF s1(1) settling_next [OF s]] d(2,3)]
      obtain n t where t: "n \<le> work_left ?s" "(settling ^^ n) ?s t" "reach station_starts station_next t" "no_error t"
        "st_ready t = []" "st_owned t = []"
        by blast
      have "(settling ^^ ((if live (hr_handler (st_run s)) i then 1 else 0) + Suc n)) s t"
        unfolding relpowp_add using 1 settling_relpowp [OF s t(2)] by blast
      moreover have "(if live (hr_handler (st_run s)) i then 1 else 0) + Suc n \<le> work_left s"
        using t(1) d(1) s1(4) by simp
      ultimately show ?thesis using t(3-6) by blast
    qed
  qed
qed

subsection \<open>A station with one metric\<close>

text \<open>The metric is found, and the first redistribution gives it the whole rate.\<close>

definition one_metric :: "command_config \<Rightarrow> pystr \<Rightarrow> station" where
  "one_metric cfg m = fold station_step
     [Ids [m] [m], AddMetric, StartUpdate, Ends 0 (Inl CancelledError), Wake m] (new_station cfg (\<lambda>_. Inr ()))"

lemma one_metric_eq:
  assumes "default_bps_distribution_mode cfg = u ''fair''"
  shows "one_metric cfg m =
    \<lparr>st_run =
       \<lparr>hr_handler =
          \<lparr>max_bps = default_max_bps cfg, metrics = [(m, default_max_bps cfg)], metric_subscriptions = [(m, 1)],
           sub_tasks = [\<lparr>tk_metric = m, tk_bps = 0, tk_end = Some (Inl CancelledError)\<rparr>,
             \<lparr>tk_metric = m, tk_bps = default_max_bps cfg, tk_end = None\<rparr>],
           updated = True, bps_distribution_mode = u ''fair'', closing = \<lambda>_. Inr ()\<rparr>,
        hr_cancelled = {0}, hr_waiting = []\<rparr>,
     st_rates = [], st_maxes = [], st_ready = [], st_owned = [], st_new = [], st_failed = {}, st_sync = None,
     st_ended = None\<rparr>"
  using assms
  by (simp add: one_metric_def new_station_def new_run_def new_handler_def st_ids_def st_settings_def idle_def
      st_add_def start_metric_def create_sub_def st_distribute_def st_update_def update_start_def group_ends_def
      st_wake_def update_resume_def live_def end_task_def Let_def del: u_simps)

lemma in_turn_any:
  "in_turn s (Shell c)" "in_turn s (Ids ids new)" "in_turn s StartUpdate" "in_turn s (Wake m)" "in_turn s (Ends i r)"
  by (simp_all add: in_turn_def)

lemma turn_step:
  "reach station_starts turn_next s \<Longrightarrow> event_ok s e \<Longrightarrow> in_turn s e \<Longrightarrow> reach station_starts turn_next (station_step e s)"
  by (rule reach_step) (auto simp: turn_next_def)

lemma turns_are_steps: "reach station_starts turn_next s \<Longrightarrow> reach station_starts station_next s"
proof (induction rule: reach.induct)
  case (reach_step s s')
  then show ?case by (auto simp: turn_next_def station_next_def intro: reach.reach_step)
qed (rule reach.reach_start)

lemma event_step: "reach station_starts station_next s \<Longrightarrow> event_ok s e \<Longrightarrow> reach station_starts station_next (station_step e s)"
  by (rule reach_step) (auto simp: station_next_def)

lemma one_metric_reach: "reach station_starts turn_next (one_metric cfg m)"
proof -
  have 0: "reach station_starts turn_next (new_station cfg (\<lambda>_. Inr ()))" by (rule reach_start) (auto simp: station_starts_def)
  have 1: "reach station_starts turn_next (station_step (Ids [m] [m]) (new_station cfg (\<lambda>_. Inr ())))"
    by (rule turn_step [OF 0]) (simp_all add: event_ok_def in_turn_any new_station_def new_run_def new_handler_def)
  have 2: "reach station_starts turn_next (station_step AddMetric (station_step (Ids [m] [m]) (new_station cfg (\<lambda>_. Inr ()))))"
    by (rule turn_step [OF 1]) (simp_all add: event_ok_def in_turn_def new_station_def st_ids_def idle_def st_settings_def)
  have 3: "reach station_starts turn_next (station_step StartUpdate (station_step AddMetric (station_step (Ids [m] [m]) (new_station cfg (\<lambda>_. Inr ())))))"
    by (rule turn_step [OF 2]) (simp_all add: event_ok_def in_turn_any del: station_step.simps)
  show ?thesis unfolding one_metric_def fold.simps comp_def id_def
    by (rule turn_step, rule turn_step, rule 3) (simp_all add: event_ok_def in_turn_any del: station_step.simps)
qed

subsection \<open>Properties\<close>

text \<open>C3: While the two queues and the synchronising task take turns, the station only does what the handler does
  with at most one update per metric at a time; and between two turns every subscription task that runs is
  the registered one of its metric, at the rate that is shown, and the only one of the metric.\<close>

theorem station_takes_turns:
  assumes "reach station_starts turn_next s"
  shows "reach starts (run_step one_at_a_time) (st_run s) \<and>
    (let h = hr_handler (st_run s) in st_owned s = [] \<and> live h i \<longrightarrow>
      map_of (metric_subscriptions h) (tk_metric (sub_tasks h ! i)) = Some i \<and>
      (tk_metric (sub_tasks h ! i), tk_bps (sub_tasks h ! i)) \<in> get_metrics h \<and>
      (\<forall>j. live h j \<and> tk_metric (sub_tasks h ! j) = tk_metric (sub_tasks h ! i) \<longrightarrow> j = i))"
proof -
  let ?h = "hr_handler (st_run s)"
  have "map_of (metric_subscriptions ?h) (tk_metric (sub_tasks ?h ! i)) = Some i \<and>
      (tk_metric (sub_tasks ?h ! i), tk_bps (sub_tasks ?h ! i)) \<in> get_metrics ?h \<and>
      (\<forall>j. live ?h j \<and> tk_metric (sub_tasks ?h ! j) = tk_metric (sub_tasks ?h ! i) \<longrightarrow> j = i)"
    if "st_owned s = []" "live ?h i"
  proof -
    note inv = handler_invD [OF settled_handler [OF assms that(1)]]
    have "j = i" if "live ?h j" "tk_metric (sub_tasks ?h ! j) = tk_metric (sub_tasks ?h ! i)" for j
      using inv(5) [OF that(1)] inv(5) [OF \<open>live ?h i\<close>] that(2) by (metis option.inject)
    with inv(5) [OF that(2)] map_of_SomeD [OF inv(6) [OF that(2)]] show ?thesis unfolding get_metrics_def by blast
  qed
  with turns_reach_run [OF assms] show ?thesis unfolding Let_def by blast
qed

theorem station_takes_turns_witness:
  "map_of (metric_subscriptions (hr_handler (st_run (one_metric demo_config (u ''a''))))) (u ''a'') = Some 1"
proof -
  have m: "default_bps_distribution_mode demo_config = u ''fair''" by (simp add: demo_config_def)
  from station_takes_turns [OF one_metric_reach [of demo_config "u ''a''"], of 1]
  show ?thesis unfolding one_metric_eq [OF m] by (simp add: live_def Let_def)
qed

text \<open>C13: Whatever overlaps, as long as no update has raised: the rate the shell shows for a metric is the one of the last
  update that waits for it or, when none does, the rate its registered task was started with.\<close>

theorem shown_rate_is_last:
  assumes "reach station_starts station_next s" "no_error s"
    and "map_of (metric_subscriptions (hr_handler (st_run s))) m = Some i"
  shows "let ws = filter (\<lambda>w. st_metric w = m) (st_owned s) in
    (m, if ws = [] then tk_bps (sub_tasks (hr_handler (st_run s)) ! i) else fst (snd (snd (last ws))))
      \<in> get_metrics (hr_handler (st_run s))"
proof -
  let ?ws = "filter (\<lambda>w. st_metric w = m) (st_owned s)"
  have "hr_waiting (st_run s) = map snd (st_owned s)"
    using stations.reach_inv [OF assms(1)] by (simp add: station_ok_def)
  then have w: "waiting_for m (st_run s) = map snd ?ws" by (simp add: waiting_for_def filter_map comp_def)
  have "fst (snd (last (map snd ?ws))) = fst (snd (snd (last ?ws)))" if "?ws \<noteq> []"
    using that by (simp add: last_map)
  with map_of_SomeD [OF shown_okD [OF station_shown [OF assms(1,2)] assms(3)]] show ?thesis
    unfolding w Let_def get_metrics_def by (cases "?ws = []") simp_all
qed

text \<open>Two updates of the metric that wait for the same task.\<close>

definition two_waiting :: "command_config \<Rightarrow> pystr \<Rightarrow> int \<Rightarrow> int \<Rightarrow> station" where
  "two_waiting cfg m r b = fold station_step
     [Shell (SetBps m r), Shell (SetMaxBps b), TakeRate, TakeMaximum, StartUpdate] (one_metric cfg m)"

lemma two_waiting_eq:
  assumes "default_bps_distribution_mode cfg = u ''fair''" "b \<noteq> default_max_bps cfg"
  shows "two_waiting cfg m r b =
    \<lparr>st_run =
       \<lparr>hr_handler =
          \<lparr>max_bps = b, metrics = [(m, b)], metric_subscriptions = [(m, 1)],
           sub_tasks = [\<lparr>tk_metric = m, tk_bps = 0, tk_end = Some (Inl CancelledError)\<rparr>,
             \<lparr>tk_metric = m, tk_bps = default_max_bps cfg, tk_end = None\<rparr>],
           updated = True, bps_distribution_mode = u ''fair'', closing = \<lambda>_. Inr ()\<rparr>,
        hr_cancelled = {0, 1}, hr_waiting = [(m, r, 1), (m, b, 1)]\<rparr>,
     st_rates = [], st_maxes = [], st_ready = [], st_owned = [(RateLoop, m, r, 1), (MaxLoop, m, b, 1)], st_new = [],
     st_failed = {}, st_sync = None, st_ended = None\<rparr>"
  using assms
  by (simp add: two_waiting_def one_metric_eq st_settings_def idle_def st_take_rate_def st_take_max_def
      st_distribute_def st_update_def update_start_def group_ends_def Let_def insert_commute del: u_simps)

lemma two_waiting_reach: "reach station_starts station_next (two_waiting cfg m r b)"
  unfolding two_waiting_def fold.simps comp_def id_def
  by (intro event_step turns_are_steps [OF one_metric_reach]) (simp_all add: event_ok_def del: station_step.simps)

lemma demo_fair: "default_bps_distribution_mode demo_config = u ''fair''" "(50 :: int) \<noteq> default_max_bps demo_config"
  by (simp_all add: demo_config_def)

theorem shown_rate_is_last_witness:
  "(u ''a'', 50) \<in> get_metrics (hr_handler (st_run (two_waiting demo_config (u ''a'') 7 50)))"
proof -
  have "no_error (two_waiting demo_config (u ''a'') 7 50)"
    "map_of (metric_subscriptions (hr_handler (st_run (two_waiting demo_config (u ''a'') 7 50)))) (u ''a'') = Some 1"
    by (simp_all add: two_waiting_eq [OF demo_fair] no_error_def)
  from shown_rate_is_last [OF two_waiting_reach this] show ?thesis
    by (simp add: two_waiting_eq [OF demo_fair] Let_def)
qed

text \<open>C5: As long as nothing has failed the updates under way can always be completed: the event loop, by starting
  children, ending cancelled tasks and waking updates, gets within a bounded number of steps to a state where no
  update is left, nothing has failed, and each shown rate is that of the registered task.\<close>

theorem updates_settle:
  assumes "reach station_starts station_next s" "no_error s" "healthy (st_run s)"
  shows "\<exists>n t. n \<le> 3 * length (st_ready s) + 2 * length (st_owned s) \<and> (settling ^^ n) s t \<and>
    st_ready t = [] \<and> st_owned t = [] \<and> no_error t \<and>
    (\<forall>(m, b) \<in> get_metrics (hr_handler (st_run t)).
      \<exists>i. map_of (metric_subscriptions (hr_handler (st_run t))) m = Some i \<and>
        tk_bps (sub_tasks (hr_handler (st_run t)) ! i) = b)"
proof -
  from settles [OF assms] obtain n t where t: "n \<le> work_left s" "(settling ^^ n) s t" "reach station_starts station_next t"
    "no_error t" "st_ready t = []" "st_owned t = []"
    by blast
  have sub: "subs_ok (hr_handler (st_run t))" using station_loose [OF t(3)] by (simp add: loose_inv_def)
  have w: "waiting_for m (st_run t) = []" for m
    using stations.reach_inv [OF t(3)] t(6) by (simp add: station_ok_def waiting_for_def)
  have "\<exists>i. map_of (metric_subscriptions (hr_handler (st_run t))) m = Some i \<and>
      tk_bps (sub_tasks (hr_handler (st_run t)) ! i) = b" if "(m, b) \<in> get_metrics (hr_handler (st_run t))" for m b
  proof -
    have "m \<in> fst ` set (metrics (hr_handler (st_run t)))" using that by (force simp: get_metrics_def)
    from subs_ok_registered [OF sub this] obtain i where i: "map_of (metric_subscriptions (hr_handler (st_run t))) m = Some i" .
    have "map_of (metrics (hr_handler (st_run t))) m = Some b"
      using that sub by (simp add: get_metrics_def subs_ok_def dict_ok_def)
    with shown_okD [OF station_shown [OF t(3,4)] i] i show ?thesis by (simp add: w)
  qed
  then show ?thesis using t(1,2,4-6) unfolding work_left_def by blast
qed

theorem updates_settle_witness:
  "\<exists>n t. n \<le> 4 \<and> (settling ^^ n) (two_waiting demo_config (u ''a'') 7 50) t \<and> st_owned t = []"
proof -
  have "no_error (two_waiting demo_config (u ''a'') 7 50)" "healthy (st_run (two_waiting demo_config (u ''a'') 7 50))"
    by (simp_all add: two_waiting_eq [OF demo_fair] no_error_def healthy_def)
  from updates_settle [OF two_waiting_reach this] show ?thesis
    by (simp add: two_waiting_eq [OF demo_fair]) blast
qed

text \<open>C21: A \<open>setbps\<close> and a \<open>setmaxbps\<close> given one after the other may overlap: then two subscription tasks of the metric
  run, at the new maximum and at the other rate on top of it; only one of them is registered and shown, and
  leaving the handler does not stop the other.\<close>

theorem shell_commands_leak:
  assumes "default_bps_distribution_mode cfg = u ''fair''" "b \<noteq> default_max_bps cfg"
  shows "let s = fold station_step [Shell (SetBps m r), Shell (SetMaxBps b), TakeRate, TakeMaximum, StartUpdate,
      Ends 1 (Inl CancelledError), Wake m, Wake m] (one_metric cfg m); h = hr_handler (st_run s) in
    reach station_starts station_next s \<and> no_error s \<and> st_ready s = [] \<and> st_owned s = [] \<and>
    get_metrics h = {(m, b)} \<and> max_bps h = b \<and> map_of (metric_subscriptions h) m = Some 3 \<and>
    {i. live h i} = {2, 3} \<and> 2 \<notin> hr_cancelled (st_run s) \<and> 3 \<notin> hr_cancelled (st_run s) \<and>
    sub_tasks h ! 2 = \<lparr>tk_metric = m, tk_bps = r, tk_end = None\<rparr> \<and>
    sub_tasks h ! 3 = \<lparr>tk_metric = m, tk_bps = b, tk_end = None\<rparr> \<and>
    (\<forall>sync. live (snd (handler_exit sync h)) 2)"
proof -
  let ?s = "fold station_step [Ends 1 (Inl CancelledError), Wake m, Wake m] (two_waiting cfg m r b)"
  have f: "fold station_step [Shell (SetBps m r), Shell (SetMaxBps b), TakeRate, TakeMaximum, StartUpdate,
      Ends 1 (Inl CancelledError), Wake m, Wake m] (one_metric cfg m) = ?s"
    by (simp add: two_waiting_def del: station_step.simps)
  have r: "reach station_starts station_next ?s" unfolding fold.simps comp_def id_def
    by (intro event_step two_waiting_reach) (simp_all add: event_ok_def del: station_step.simps)
  have s: "?s =
    \<lparr>st_run =
       \<lparr>hr_handler =
          \<lparr>max_bps = b, metrics = [(m, b)], metric_subscriptions = [(m, 3)],
           sub_tasks = [\<lparr>tk_metric = m, tk_bps = 0, tk_end = Some (Inl CancelledError)\<rparr>,
             \<lparr>tk_metric = m, tk_bps = default_max_bps cfg, tk_end = Some (Inl CancelledError)\<rparr>,
             \<lparr>tk_metric = m, tk_bps = r, tk_end = None\<rparr>, \<lparr>tk_metric = m, tk_bps = b, tk_end = None\<rparr>],
           updated = True, bps_distribution_mode = u ''fair'', closing = \<lambda>_. Inr ()\<rparr>,
        hr_cancelled = {0, 1}, hr_waiting = []\<rparr>,
     st_rates = [], st_maxes = [], st_ready = [], st_owned = [], st_new = [],
     st_failed = {}, st_sync = None, st_ended = None\<rparr>"
    by (simp add: two_waiting_eq [OF assms] live_def end_task_def st_wake_def update_resume_def create_sub_def
        group_ends_def Let_def del: u_simps)
  have l: "{i. live (hr_handler (st_run ?s)) i} = {2, 3}"
    unfolding s by (auto simp: live_def less_Suc_eq numeral_eq_Suc)
  have "live (snd (handler_exit sync (hr_handler (st_run ?s)))) 2" for sync
    unfolding s by (simp add: handler_exit_def cancel_and_await_def abind_def live_def split: option.split sum.split)
  with r l show ?thesis unfolding f Let_def unfolding s by (simp add: no_error_def get_metrics_def)
qed

theorem shell_commands_leak_witness:
  "{i. live (hr_handler (st_run (fold station_step [Shell (SetBps (u ''a'') 7), Shell (SetMaxBps 50), TakeRate, TakeMaximum,
      StartUpdate, Ends 1 (Inl CancelledError), Wake (u ''a''), Wake (u ''a'')] (one_metric demo_config (u ''a''))))) i} = {2, 3}"
  using shell_commands_leak [OF demo_fair, of "u ''a''" 7] unfolding Let_def by blast

end
