(* ===== verification/CommandApp.thy ===== *)
theory CommandApp
  imports CommandServer
begin

section \<open>Routes, page, viewer and start script of the ground station\<close>

text \<open>
  Which requests reach which code: the application that \<open>TelemetryServer.__init__\<close> builds, with its routes
  in the order of registration, and the test page it serves. Routing is FastAPI's, a parameter
  with its documented behaviour as hypothesis. Then the window of image_drawer.py, \<open>run.py\<close>, and what of the file \<open>.env\<close> reaches the configuration.
\<close>

subsection \<open>The page: telemetry_realtime_interactive.py\<close>

text \<open>The text between the quotes, line by line; 10 ends a line, 39 is an apostrophe.\<close>

definition page_lines :: "int \<Rightarrow> pystr \<Rightarrow> pystr list" where \<open>
  page_lines port ip = [
      u ''<!DOCTYPE html>'',
      u ''<html>'',
      u ''    <head>'',
      u ''        <title>Chat</title>'',
      u ''    </head>'',
      u ''    <body>'',
      u ''        <h1>WebSocket Chat</h1>'',
      u ''        <form action="" onsubmit="sendMessage(event)">'',
      u ''            <label for="ipInput">IP:</label>'',
      u ''            <input type="text" id="ipInput" value="'' @ ip @ u ''" style="width: 120px;" />'',
      u ''            <label for="messageTest">Message text:</label>'',
      u ''            <input type="text" id="messageText" autocomplete="off"/>'',
      u ''            <button>Send</button>'',
      u ''        </form>'',
      u ''        <ul id='messages'>'',
      u ''        </ul>'',
      u ''        <script>'',
      u ''            const ipInput = document.getElementById('ipInput');'',
      u ''            let ws;'',
      u ''            ipInput.addEventListener('change', function() {'',
      u ''                if (ws) {'',
      u ''                    ws.close();'',
      u ''                }'',
      u ''                ws = new WebSocket("ws://" + ipInput.value + ":'' @ str_of_int port @ u ''/realtime");'',
      u ''                ws.onmessage = onMessage;'',
      u ''            });'',
      u ''            function onMessage(event) {'',
      u ''                var messages = document.getElementById('messages')'',
      u ''                var message = document.createElement('li')'',
      u ''                var content = document.createTextNode("RCVD: " + event.data)'',
      u ''                message.appendChild(content)'',
      u ''                messages.appendChild(message)'',
      u ''            }'',
      u ''            function sendMessage(event) {'',
      u ''                if (!ws) {'',
      u ''                    throw new Error("ws not started")'',
      u ''                }'',
      u ''                var input = document.getElementById("messageText")'',
      u ''                ws.send(input.value)'',
      u ''                // Add SENT message to history'',
      u ''                var messages = document.getElementById('messages')'',
      u ''                var message = document.createElement('li')'',
      u ''                var content = document.createTextNode("SENT: " + input.value)'',
      u ''                message.appendChild(content)'',
      u ''                messages.appendChild(message)'',
      u ''                input.value = '' @ [39, 39],
      u ''                event.preventDefault()'',
      u ''            }'',
      u ''        </script>'',
      u ''    </body>'',
      u ''</html>''
      ]\<close>

definition realtime_page :: "int \<Rightarrow> pystr \<Rightarrow> pystr" where
  "realtime_page port ip = concat (map (\<lambda>l. 10 # l) (page_lines port ip)) @ [10]"

lemma concat_map_split: "xs = ys @ l # zs \<Longrightarrow> concat (map f xs) = concat (map f ys) @ f l @ concat (map f zs)"
  by simp

lemma inner_part: "p = a @ l @ z \<Longrightarrow> l = b @ x @ y @ w @ c \<Longrightarrow> \<exists>pre post. p = pre @ x @ y @ w @ post"
  by (rule exI [of _ "a @ b"], rule exI [of _ "c @ z"]) simp

text \<open>The line that opens the websocket.\<close>

lemma page_websocket:
  "\<exists>pre post. realtime_page port ip = pre @ u ''new WebSocket(\"ws://\" + ipInput.value + \":'' @ str_of_int port @ u ''/realtime'' @ post"
proof -
  let ?l = "u ''                ws = new WebSocket(\"ws://\" + ipInput.value + \":'' @ str_of_int port @ u ''/realtime\");''"
  have "page_lines port ip = take 23 (page_lines port ip) @ page_lines port ip ! 23 # drop (Suc 23) (page_lines port ip)"
    by (rule id_take_nth_drop) (simp add: page_lines_def del: u_simps)
  moreover have "page_lines port ip ! 23 = ?l" by (simp add: page_lines_def del: u_simps)
  ultimately have "page_lines port ip = take 23 (page_lines port ip) @ ?l # drop 24 (page_lines port ip)" by simp
  from concat_map_split [OF this, of "\<lambda>l. 10 # l"]
  have "realtime_page port ip = concat (map (\<lambda>l. 10 # l) (take 23 (page_lines port ip))) @ (10 # ?l) @
      concat (map (\<lambda>l. 10 # l) (drop 24 (page_lines port ip))) @ [10]"
    unfolding realtime_page_def by (simp only: append.assoc)
  moreover have "10 # ?l = (10 # u ''                ws = '') @ u ''new WebSocket(\"ws://\" + ipInput.value + \":'' @
      str_of_int port @ u ''/realtime'' @ u ''\");''"
    by simp
  ultimately show ?thesis by (rule inner_part)
qed

subsection \<open>The application: telemetry_server.py\<close>

text \<open>\<open>FrameworkPage\<close> are the pages FastAPI serves by itself.\<close>

datatype endpoint =
    FrameworkPage pystr
  | StaticFiles pystr           \<comment> \<open>its directory\<close>
  | HistoryEndpoint
  | RealtimeEndpoint
  | InteractivePage pystr       \<comment> \<open>the text it answers\<close>
  | TestEndpoint

datatype route =
    MountAt pystr endpoint
  | ApiRoute pystr "pystr list" endpoint      \<comment> \<open>template, methods\<close>
  | WebsocketRoute pystr endpoint

datatype request = Http pystr pystr | Websocket pystr       \<comment> \<open>method and path; path\<close>

record cors =
  allow_origins :: "pystr list"
  allow_credentials :: bool
  allow_methods :: "pystr list"
  allow_headers :: "pystr list"

record telemetry_app =
  app_routes :: "route list"
  app_cors :: cors
  uv_host :: pystr
  uv_port :: int
  uv_log_level :: pystr

text \<open>
  The framework: the routes an application has from the start, how a template matches a path and what
  the parts in braces are then, what a mounted application is given, and the endpoint that is called for a request.
\<close>

type_synonym params = "(pystr \<times> pystr) list"

record web =
  web_own :: "route list"
  web_match :: "pystr \<Rightarrow> pystr \<Rightarrow> params option"
  web_mount :: "pystr \<Rightarrow> pystr \<Rightarrow> pystr option"
  web_dispatch :: "route list \<Rightarrow> request \<Rightarrow> (endpoint \<times> params) option"

text \<open>\<open>TelemetryServer(port)\<close>; \<open>made\<close> is what creating the directory for files gives.\<close>

definition telemetry_server_init :: "web \<Rightarrow> command_config \<Rightarrow> unit res \<Rightarrow> int \<Rightarrow> telemetry_app res" where
  "telemetry_server_init W cfg made port =
     rbind made (\<lambda>_. Inr
       \<lparr>app_routes = web_own W @
          [MountAt (u ''/files'') (StaticFiles (file_store_dir cfg)),
           ApiRoute (u ''/history/samples/{metric_id}'') [u ''GET''] HistoryEndpoint,
           WebsocketRoute (u ''/realtime'') RealtimeEndpoint,
           ApiRoute (u ''/realtime-interactive'') [u ''GET''] (InteractivePage (realtime_page port (u ''localhost''))),
           ApiRoute (u ''/test'') [u ''GET''] TestEndpoint],
        app_cors = \<lparr>allow_origins = [u ''*''], allow_credentials = True, allow_methods = [u ''*''], allow_headers = [u ''*'']\<rparr>,
        uv_host = u ''0.0.0.0'', uv_port = port, uv_log_level = u ''warning''\<rparr>)"

subsection \<open>What the framework documents\<close>

fun route_serves :: "web \<Rightarrow> request \<Rightarrow> route \<Rightarrow> (endpoint \<times> params) option" where
  "route_serves W (Http m p) (ApiRoute t ms e) = (if m \<in> set ms then map_option (Pair e) (web_match W t p) else None)"
| "route_serves W (Websocket p) (WebsocketRoute t e) = map_option (Pair e) (web_match W t p)"
| "route_serves W (Http m p) (MountAt a e) = map_option (\<lambda>rest. (e, [(u ''path'', rest)])) (web_mount W a p)"
| "route_serves W (Websocket p) (MountAt a e) = map_option (\<lambda>rest. (e, [(u ''path'', rest)])) (web_mount W a p)"
| "route_serves W _ _ = None"

text \<open>Path operations are evaluated in order, the first that serves a request is called.\<close>

fun first_serving :: "('r \<Rightarrow> 'a option) \<Rightarrow> 'r list \<Rightarrow> 'a option" where
  "first_serving f [] = None"
| "first_serving f (r # rs) = (case f r of Some x \<Rightarrow> Some x | None \<Rightarrow> first_serving f rs)"

definition framework_paths :: "pystr list" where
  "framework_paths = [u ''/openapi.json'', u ''/docs'', u ''/docs/oauth2-redirect'', u ''/redoc'']"

text \<open>
  A template without braces matches the path that equals it; one that ends in a name in braces matches a path
  with a part in that place that is not empty and has no slash (47); a mounted application gets the paths below its own.
\<close>

definition web_api :: "web \<Rightarrow> bool" where
  "web_api W \<longleftrightarrow>
     (\<forall>rs q. web_dispatch W rs q = first_serving (route_serves W q) rs) \<and>
     (\<forall>r \<in> set (web_own W). \<exists>t ms. r = ApiRoute t ms (FrameworkPage t) \<and> t \<in> set framework_paths) \<and>
     (\<forall>t p. 123 \<notin> set t \<longrightarrow> web_match W t p = (if p = t then Some [] else None)) \<and>
     (\<forall>a n p. 123 \<notin> set a \<and> 125 \<notin> set n \<longrightarrow>
        web_match W (a @ [123] @ n @ [125]) p =
          (if startswith p a \<and> length a < length p \<and> 47 \<notin> set (drop (length a) p)
           then Some [(n, drop (length a) p)] else None)) \<and>
     (\<forall>a p. web_mount W a p = (if startswith p (a @ u ''/'') then Some (drop (Suc (length a)) p) else None))"

lemma first_serving_skip: "\<forall>r \<in> set rs. f r = None \<Longrightarrow> first_serving f (rs @ rs') = first_serving f rs'"
  by (induction rs) auto

lemma web_apiD:
  assumes "web_api W"
  shows "web_dispatch W rs q = first_serving (route_serves W q) rs"
    "r \<in> set (web_own W) \<Longrightarrow> \<exists>t ms. r = ApiRoute t ms (FrameworkPage t) \<and> t \<in> set framework_paths"
    "123 \<notin> set t \<Longrightarrow> web_match W t p = (if p = t then Some [] else None)"
    "123 \<notin> set a \<Longrightarrow> 125 \<notin> set n \<Longrightarrow> web_match W (a @ [123] @ n @ [125]) p =
      (if startswith p a \<and> length a < length p \<and> 47 \<notin> set (drop (length a) p) then Some [(n, drop (length a) p)] else None)"
    "web_mount W a p = (if startswith p (a @ u ''/'') then Some (drop (Suc (length a)) p) else None)"
  using assms unfolding web_api_def by blast+

lemma framework_plain: "t \<in> set framework_paths \<Longrightarrow> 123 \<notin> set t"
  by (auto simp: framework_paths_def)

fun path_of :: "request \<Rightarrow> pystr" where
  "path_of (Http m p) = p"
| "path_of (Websocket p) = p"

lemma dispatch_registered:
  assumes "web_api W" "path_of q \<notin> set framework_paths"
  shows "web_dispatch W (web_own W @ rs) q = first_serving (route_serves W q) rs"
proof -
  have "route_serves W q r = None" if r: "r \<in> set (web_own W)" for r
  proof -
    from web_apiD(2) [OF assms(1) r] obtain t ms where t: "r = ApiRoute t ms (FrameworkPage t)" "t \<in> set framework_paths" by blast
    with assms(2) show ?thesis
      by (cases q) (auto simp: web_apiD(3) [OF assms(1) framework_plain [OF t(2)]])
  qed
  then show ?thesis by (simp add: web_apiD(1) [OF assms(1)] first_serving_skip)
qed

lemma history_template: "u ''/history/samples/{metric_id}'' = u ''/history/samples/'' @ [123] @ u ''metric_id'' @ [125]"
  by simp

lemma history_match:
  assumes "web_api W"
  shows "web_match W (u ''/history/samples/{metric_id}'') p =
    (if startswith p (u ''/history/samples/'') \<and> length (u ''/history/samples/'') < length p \<and>
        47 \<notin> set (drop (length (u ''/history/samples/'')) p)
     then Some [(u ''metric_id'', drop (length (u ''/history/samples/'')) p)] else None)"
proof -
  have "123 \<notin> set (u ''/history/samples/'')" "125 \<notin> set (u ''metric_id'')" by simp_all
  then show ?thesis unfolding history_template by (rule web_apiD(4) [OF assms])
qed

lemma history_match_id:
  assumes "web_api W"
  shows "web_match W (u ''/history/samples/{metric_id}'') (u ''/history/samples/'' @ m) =
    (if m = [] \<or> 47 \<in> set m then None else Some [(u ''metric_id'', m)])"
  by (simp add: history_match [OF assms] startswith_def del: u_simps)

subsection \<open>The viewer: image_drawer.py\<close>

text \<open>
  The window with its label. Tk shows an image only as long as the program holds a reference to it, so the class
  keeps one. \<open>photo\<close> is \<open>ImageTk.PhotoImage\<close>.
\<close>

record 'p image_drawer =
  id_title :: pystr
  id_running :: bool
  label_image :: "'p option"
  current_image :: "'p option"

definition new_image_drawer :: "'p image_drawer" where
  "new_image_drawer = \<lparr>id_title = u ''Live Image Viewer'', id_running = True, label_image = None, current_image = None\<rparr>"

definition update_image :: "('img \<Rightarrow> 'p res) \<Rightarrow> 'img \<Rightarrow> ('p image_drawer, unit) act" where
  "update_image photo img =
     abind (lift_res (photo img)) (\<lambda>tk_image d. (Inr (), d\<lparr>label_image := Some tk_image, current_image := Some tk_image\<rparr>))"

text \<open>The image on the label is always referenced, also after an image that could not be converted.\<close>

interpretation drawers: machine "\<lambda>d. d = new_image_drawer" "\<lambda>d d'. \<exists>img. d' = snd (update_image photo img d)"
    "\<lambda>d. label_image d = current_image d" for photo :: "'img \<Rightarrow> 'p res"
proof
  fix d d' :: "'p image_drawer"
  assume "label_image d = current_image d" "\<exists>img. d' = snd (update_image photo img d)"
  then obtain img where "d' = snd (update_image photo img d)" by blast
  with \<open>label_image d = current_image d\<close> show "label_image d' = current_image d'"
    by (cases "photo img") (simp_all add: update_image_def)
qed (simp add: new_image_drawer_def)

subsection \<open>The start script: run.py\<close>

text \<open>
  The import of \<open>src.server\<close> reads the configuration from the environment. Then \<open>load_dotenv\<close>, a library
  function, adds the variables of the file \<open>.env\<close> to the environment; they are also printed. The server runs with the
  configuration that was read.
\<close>

type_synonym env = "(pystr \<times> pystr) list"

record started =
  run_config :: command_config
  run_environ :: env
  run_printed :: env

definition run_script :: "pydantic \<Rightarrow> pystr \<Rightarrow> (env \<Rightarrow> env \<Rightarrow> env) \<Rightarrow> env \<Rightarrow> env \<Rightarrow> started res" where
  "run_script P files load_dotenv dotenv environ =
     rbind (load_config P files environ) (\<lambda>cfg.
       Inr \<lparr>run_config = cfg, run_environ = load_dotenv dotenv environ, run_printed = dotenv\<rparr>)"

subsection \<open>Properties\<close>

text \<open>C28: On the application the server builds, a query of the history is answered for the metric ids that are not empty and
  have no slash, and for no others; the websocket of the test page, the page, the test and the files each reach their endpoint.\<close>

theorem requests_reach_endpoints:
  assumes "web_api W" "telemetry_server_init W cfg made port = Inr app"
  shows "web_dispatch W (app_routes app) (Http (u ''GET'') (u ''/history/samples/'' @ m)) =
      (if m = [] \<or> 47 \<in> set m then None else Some (HistoryEndpoint, [(u ''metric_id'', m)])) \<and>
    web_dispatch W (app_routes app) (Websocket (u ''/realtime'')) = Some (RealtimeEndpoint, []) \<and>
    web_dispatch W (app_routes app) (Http (u ''GET'') (u ''/realtime-interactive'')) =
      Some (InteractivePage (realtime_page (uv_port app) (u ''localhost'')), []) \<and>
    (\<exists>pre post. realtime_page (uv_port app) (u ''localhost'') =
      pre @ u ''new WebSocket(\"ws://\" + ipInput.value + \":'' @ str_of_int (uv_port app) @ u ''/realtime'' @ post) \<and>
    web_dispatch W (app_routes app) (Http (u ''GET'') (u ''/test'')) = Some (TestEndpoint, []) \<and>
    web_dispatch W (app_routes app) (Http meth (u ''/files/'' @ p)) = Some (StaticFiles (file_store_dir cfg), [(u ''path'', p)])"
proof -
  have app: "app_routes app = web_own W @
          [MountAt (u ''/files'') (StaticFiles (file_store_dir cfg)),
           ApiRoute (u ''/history/samples/{metric_id}'') [u ''GET''] HistoryEndpoint,
           WebsocketRoute (u ''/realtime'') RealtimeEndpoint,
           ApiRoute (u ''/realtime-interactive'') [u ''GET''] (InteractivePage (realtime_page port (u ''localhost''))),
           ApiRoute (u ''/test'') [u ''GET''] TestEndpoint]" "uv_port app = port"
    using assms(2) by (auto simp: telemetry_server_init_def res_simps simp del: u_simps)
  have h: "web_match W (u ''/history/samples/{metric_id}'') (u ''/test'') = None"
    "web_match W (u ''/history/samples/{metric_id}'') (u ''/realtime-interactive'') = None"
    unfolding history_match [OF assms(1)] by (simp_all add: startswith_def)
  note routes = web_apiD(3,5) [OF assms(1)] h [simplified]
  have none: "web_match W (u ''/realtime-interactive'') (u ''/history/samples/'' @ m) = None"
    "web_match W (u ''/test'') (u ''/history/samples/'' @ m) = None"
    "web_mount W (u ''/files'') (u ''/history/samples/'' @ m) = None"
    by (simp_all add: routes(1,2) startswith_def)
  have "web_dispatch W (app_routes app) (Http (u ''GET'') (u ''/history/samples/'' @ m)) =
      (if m = [] \<or> 47 \<in> set m then None else Some (HistoryEndpoint, [(u ''metric_id'', m)]))"
  proof -
    have "path_of (Http (u ''GET'') (u ''/history/samples/'' @ m)) \<notin> set framework_paths"
      by (simp add: framework_paths_def)
    from dispatch_registered [OF assms(1) this] show ?thesis
      unfolding app by (simp add: history_match_id [OF assms(1)] none del: u_simps)
  qed
  moreover have "web_dispatch W (app_routes app) (Websocket (u ''/realtime'')) = Some (RealtimeEndpoint, [])"
    unfolding app by (subst dispatch_registered [OF assms(1)]) (simp_all add: framework_paths_def routes(1,2) startswith_def)
  moreover have "web_dispatch W (app_routes app) (Http (u ''GET'') (u ''/test'')) = Some (TestEndpoint, [])"
    unfolding app by (subst dispatch_registered [OF assms(1)]) (simp_all add: framework_paths_def routes startswith_def)
  moreover have "web_dispatch W (app_routes app) (Http (u ''GET'') (u ''/realtime-interactive'')) =
      Some (InteractivePage (realtime_page (uv_port app) (u ''localhost'')), [])"
    unfolding app by (subst dispatch_registered [OF assms(1)]) (simp_all add: framework_paths_def routes startswith_def)
  moreover have "web_dispatch W (app_routes app) (Http meth (u ''/files/'' @ p)) = Some (StaticFiles (file_store_dir cfg), [(u ''path'', p)])"
    unfolding app by (subst dispatch_registered [OF assms(1)]) (simp_all add: framework_paths_def routes(2) startswith_def)
  ultimately show ?thesis using page_websocket [of "uv_port app" "u ''localhost''"] by blast
qed

text \<open>A framework that keeps the documented behaviour.\<close>

definition simple_match :: "pystr \<Rightarrow> pystr \<Rightarrow> params option" where
  "simple_match t p =
     (if 123 \<notin> set t then (if p = t then Some [] else None)
      else (let a = takeWhile (\<lambda>c. c \<noteq> 123) t; n = butlast (drop (Suc (length a)) t) in
        if startswith p a \<and> length a < length p \<and> 47 \<notin> set (drop (length a) p)
        then Some [(n, drop (length a) p)] else None))"

definition simple_web :: web where
  "simple_web = \<lparr>web_own = map (\<lambda>t. ApiRoute t [u ''GET'', u ''HEAD''] (FrameworkPage t)) framework_paths,
     web_match = simple_match,
     web_mount = (\<lambda>a p. if startswith p (a @ u ''/'') then Some (drop (Suc (length a)) p) else None),
     web_dispatch = (\<lambda>rs q. first_serving
       (\<lambda>r. case (q, r) of
          (Http m p, ApiRoute t ms e) \<Rightarrow> if m \<in> set ms then map_option (Pair e) (simple_match t p) else None
        | (Websocket p, WebsocketRoute t e) \<Rightarrow> map_option (Pair e) (simple_match t p)
        | (_, MountAt a e) \<Rightarrow> map_option (\<lambda>rest. (e, [(u ''path'', rest)]))
            (if startswith (path_of q) (a @ u ''/'') then Some (drop (Suc (length a)) (path_of q)) else None)
        | _ \<Rightarrow> None) rs)\<rparr>"

lemma simple_web_api: "web_api simple_web"
  unfolding web_api_def
proof (intro conjI allI impI ballI)
  fix rs q
  have "route_serves simple_web q = (\<lambda>r. case (q, r) of
          (Http m p, ApiRoute t ms e) \<Rightarrow> if m \<in> set ms then map_option (Pair e) (simple_match t p) else None
        | (Websocket p, WebsocketRoute t e) \<Rightarrow> map_option (Pair e) (simple_match t p)
        | (_, MountAt a e) \<Rightarrow> map_option (\<lambda>rest. (e, [(u ''path'', rest)]))
            (if startswith (path_of q) (a @ u ''/'') then Some (drop (Suc (length a)) (path_of q)) else None)
        | _ \<Rightarrow> None)"
    by (rule ext, rename_tac r, case_tac q; case_tac r) (simp_all add: simple_web_def del: u_simps)
  then show "web_dispatch simple_web rs q = first_serving (route_serves simple_web q) rs"
    by (simp add: simple_web_def del: u_simps)
next
  fix a n p :: pystr
  assume "123 \<notin> set a \<and> 125 \<notin> set n"
  then have "takeWhile (\<lambda>c. c \<noteq> 123) (a @ [123] @ n @ [125]) = a" by (subst takeWhile_append2) auto
  then show "web_match simple_web (a @ [123] @ n @ [125]) p =
          (if startswith p a \<and> length a < length p \<and> 47 \<notin> set (drop (length a) p)
           then Some [(n, drop (length a) p)] else None)"
    by (simp add: simple_web_def simple_match_def Let_def butlast_append)
qed (auto simp: simple_web_def simple_match_def simp del: u_simps)

definition demo_app :: telemetry_app where
  "demo_app = (case telemetry_server_init simple_web demo_config (Inr ()) 8000 of Inr app \<Rightarrow> app)"

theorem requests_reach_endpoints_witness:
  "web_dispatch simple_web (app_routes demo_app) (Http (u ''GET'') (u ''/history/samples/cpu'')) =
     Some (HistoryEndpoint, [(u ''metric_id'', u ''cpu'')]) \<and>
   web_dispatch simple_web (app_routes demo_app) (Http (u ''GET'') (u ''/history/samples/cpu/0'')) = None"
proof -
  have a: "telemetry_server_init simple_web demo_config (Inr ()) 8000 = Inr demo_app"
    by (simp add: demo_app_def telemetry_server_init_def del: u_simps)
  from requests_reach_endpoints [OF simple_web_api a, of "u ''cpu''"] requests_reach_endpoints [OF simple_web_api a, of "u ''cpu/0''"]
  show ?thesis by simp
qed

end
