(* ===== verification/OnboardServer.thy ===== *)
theory OnboardServer
  imports OnboardCommands
begin

section \<open>Connections: onboard-server-py/src/onboard_server/server.py\<close>

text \<open>
  The handler of one client connection, with the task that runs a command beside it, as a
  machine driven by events, and the life cycle of the server object around the handlers.
\<close>

subsection \<open>Decoding what was read\<close>

text \<open>Undecodable bytes raise outside the \<open>try\<close>; an invalid command is logged and dropped.\<close>

definition decode_telecommand :: "pydantic \<Rightarrow> byte list \<Rightarrow> telecommand option res" where
  "decode_telecommand P bs =
     (if bs = [] then Inr None
      else rbind (utf8_decode bs) (\<lambda>message.
        (case telecommand_validate_json P message of
           Inr tc \<Rightarrow> Inr (Some tc)
         | Inl ValidationError \<Rightarrow> Inr None
         | Inl e \<Rightarrow> Inl e)))"

text \<open>
  The objects that \<open>isinstance\<close> is asked about: the envelope and the commands are objects of
  different classes.
\<close>

datatype tc_object = Envelope telecommand | Command command

definition isinstance_Cancel :: "tc_object \<Rightarrow> bool" where
  "isinstance_Cancel x = (case x of Command Cancel \<Rightarrow> True | _ \<Rightarrow> False)"

definition isinstance_End :: "tc_object \<Rightarrow> bool" where
  "isinstance_End x = (case x of Command End \<Rightarrow> True | _ \<Rightarrow> False)"

subsection \<open>The connection\<close>

datatype task = Pending command | Ended command "unit res"

datatype phase = Serving | Closed "unit res"

record connection =
  current_task :: "task option"
  command_queue :: "telecommand list"
  conn_phase :: phase
  writer_closed :: bool

definition new_connection :: connection where
  "new_connection = \<lparr>current_task = None, command_queue = [], conn_phase = Serving, writer_closed = False\<rparr>"

text \<open>
  \<open>cancel_current_task\<close>: a task that is not done is cancelled, then awaited; of what it
  raised only a cancellation and a lost connection are swallowed.
\<close>

definition cancel_current_task :: "(connection, unit) act" where
  "cancel_current_task = (\<lambda>c.
     (case current_task c of
        None \<Rightarrow> (Inr (), c)
      | Some (Pending cmd) \<Rightarrow> (Inr (), c\<lparr>current_task := Some (Ended cmd (Inl CancelledError))\<rparr>)
      | Some (Ended cmd (Inr _)) \<Rightarrow> (Inr (), c)
      | Some (Ended cmd (Inl e)) \<Rightarrow> (if e = CancelledError \<or> e = ConnectionError then Inr () else Inl e, c)))"

text \<open>The body of the loop for a command: go on, or leave the handler (\<open>False\<close>).\<close>

definition handle_telecommand :: "telecommand \<Rightarrow> (connection, bool) act" where
  "handle_telecommand tc =
     (if isinstance_Cancel (Envelope tc) then
        abind cancel_current_task (\<lambda>_ c. (Inr True, c\<lparr>command_queue := []\<rparr>))
      else if isinstance_End (Envelope tc) then lift_res (Inr False)
      else (\<lambda>c. (Inr True,
        (case current_task c of
           None \<Rightarrow> c\<lparr>current_task := Some (Pending (tc_data tc))\<rparr>
         | Some _ \<Rightarrow> c\<lparr>command_queue := command_queue c @ [tc]\<rparr>))))"

text \<open>
  One pass of the loop: \<open>stop\<close> is the server's stop event, \<open>rd\<close> what \<open>read(4096)\<close> gave. A lost
  connection leaves the handler.
\<close>

definition conn_pass :: "pydantic \<Rightarrow> bool \<Rightarrow> byte list res \<Rightarrow> (connection, bool) act" where
  "conn_pass P stop rd =
     (if stop then lift_res (Inl CancelledError)
      else (case rd of
        Inl ConnectionError \<Rightarrow> lift_res (Inr False)
      | Inl e \<Rightarrow> lift_res (Inl e)
      | Inr bs \<Rightarrow> abind (lift_res (decode_telecommand P bs)) (\<lambda>t.
          (case t of None \<Rightarrow> lift_res (Inr True) | Some tc \<Rightarrow> handle_telecommand tc))))"

text \<open>
  The \<open>finally\<close> block, entered with the outcome \<open>r\<close> of the loop; \<open>wc\<close> is the result of
  \<open>wait_closed\<close>. An exception of its own replaces the outcome.
\<close>

definition close_connection :: "unit res \<Rightarrow> unit res \<Rightarrow> connection \<Rightarrow> connection" where
  "close_connection wc r c =
     (case cancel_current_task c of
        (Inl e, c') \<Rightarrow> c'\<lparr>conn_phase := Closed (Inl e)\<rparr>
      | (Inr _, c') \<Rightarrow>
        if writer_closed c' then c'\<lparr>conn_phase := Closed r\<rparr>
        else c'\<lparr>writer_closed := True, conn_phase := Closed (case wc of Inl e \<Rightarrow> Inl e | Inr _ \<Rightarrow> r)\<rparr>)"

datatype conn_event =
    Pass bool "byte list res" "unit res"     \<comment> \<open>the next pass of the loop\<close>
  | Cancelled "unit res"                     \<comment> \<open>the handler is cancelled while it waits\<close>
  | TaskDone "unit res"                      \<comment> \<open>the command's task ends by itself\<close>

fun conn_step :: "pydantic \<Rightarrow> conn_event \<Rightarrow> connection \<Rightarrow> connection" where
  "conn_step P (Pass stop rd wc) c =
     (if conn_phase c = Serving then
        (case conn_pass P stop rd c of
           (Inr True, c') \<Rightarrow> c'
         | (Inr False, c') \<Rightarrow> close_connection wc (Inr ()) c'
         | (Inl e, c') \<Rightarrow> close_connection wc (Inl e) c')
      else c)"
| "conn_step P (Cancelled wc) c =
     (if conn_phase c = Serving then close_connection wc (Inl CancelledError) c else c)"
| "conn_step P (TaskDone r) c =
     (case current_task c of
        Some (Pending cmd) \<Rightarrow> c\<lparr>current_task := Some (Ended cmd r)\<rparr>
      | _ \<Rightarrow> c)"

definition conn_run :: "pydantic \<Rightarrow> conn_event list \<Rightarrow> connection \<Rightarrow> connection" where
  "conn_run P es c = foldl (\<lambda>c e. conn_step P e c) c es"

subsection \<open>The server\<close>

record onboard_server =
  stop_set :: bool
  listening :: bool

definition new_server :: onboard_server where
  "new_server = \<lparr>stop_set = False, listening = False\<rparr>"

text \<open>\<open>Config\<close>: the port from the environment, or the default.\<close>

definition onboard_port :: "pydantic \<Rightarrow> (pystr \<times> pystr) list \<Rightarrow> int res" where
  "onboard_port P environ =
     (case map_of environ (u ''ONBOARD_SERVER_PORT'') of
        None \<Rightarrow> Inr 8888
      | Some v \<Rightarrow> (case pd_int P (PStr v) of None \<Rightarrow> Inl ValidationError | Some i \<Rightarrow> Inr i))"

definition server_enter :: "unit res \<Rightarrow> (onboard_server, unit) act" where
  "server_enter started = (\<lambda>s. case started of Inl e \<Rightarrow> (Inl e, s) | Inr _ \<Rightarrow> (Inr (), s\<lparr>listening := True\<rparr>))"

definition server_exit :: "unit res \<Rightarrow> (onboard_server, unit) act" where
  "server_exit waited = (\<lambda>s.
     if listening s then
       (case waited of Inl e \<Rightarrow> (Inl e, s\<lparr>stop_set := True\<rparr>)
        | Inr _ \<Rightarrow> (Inr (), s\<lparr>stop_set := True, listening := False\<rparr>))
     else (Inr (), s))"

definition serve_forever :: "unit res \<Rightarrow> (onboard_server, unit) act" where
  "serve_forever served = (\<lambda>s. if listening s then (served, s) else (Inl AssertionError, s))"

text \<open>\<open>run\<close>: \<open>async with\<close> leaves the server however \<open>serve_forever\<close> ended.\<close>

definition run_server :: "unit res \<Rightarrow> unit res \<Rightarrow> unit res \<Rightarrow> unit res \<times> onboard_server" where
  "run_server started served waited =
     abind (server_enter started) (\<lambda>_ s.
       (case serve_forever served s of (r, s1) \<Rightarrow>
          (case server_exit waited s1 of
             (Inl e, s2) \<Rightarrow> (Inl e, s2)
           | (Inr _, s2) \<Rightarrow> (r, s2)))) new_server"

subsection \<open>Lemmas\<close>

lemma handle_envelope: "handle_telecommand tc c = (Inr True,
    (case current_task c of
       None \<Rightarrow> c\<lparr>current_task := Some (Pending (tc_data tc))\<rparr>
     | Some _ \<Rightarrow> c\<lparr>command_queue := command_queue c @ [tc]\<rparr>))"
  by (simp add: handle_telecommand_def isinstance_Cancel_def isinstance_End_def)

text \<open>
  The invariant: the queue is used only behind a task, and a connection that ended has no
  task running; its writer is closed unless the task had failed with an error of its own.
\<close>

definition failed_task :: "connection \<Rightarrow> pyexc \<Rightarrow> bool" where
  "failed_task c e \<longleftrightarrow> (\<exists>cmd. current_task c = Some (Ended cmd (Inl e))) \<and> e \<noteq> CancelledError \<and> e \<noteq> ConnectionError"

definition conn_inv :: "connection \<Rightarrow> bool" where
  "conn_inv c \<longleftrightarrow> (command_queue c \<noteq> [] \<longrightarrow> current_task c \<noteq> None) \<and>
     (\<forall>r. conn_phase c = Closed r \<longrightarrow>
        (\<forall>cmd. current_task c \<noteq> Some (Pending cmd)) \<and>
        (writer_closed c \<or> (\<exists>e. r = Inl e \<and> failed_task c e))) \<and>
     (conn_phase c = Serving \<longrightarrow> \<not> writer_closed c)"

lemma close_connection_inv: "conn_inv c \<Longrightarrow> conn_phase c = Serving \<Longrightarrow> conn_inv (close_connection wc r c)"
  by (auto simp: close_connection_def cancel_current_task_def conn_inv_def failed_task_def
      split: option.splits task.splits sum.splits)

lemma conn_pass_inv: "conn_inv c \<Longrightarrow> conn_phase c = Serving \<Longrightarrow> conn_pass P stop rd c = (r, c') \<Longrightarrow>
    conn_inv c' \<and> conn_phase c' = Serving"
  by (auto simp: conn_pass_def abind_def handle_envelope conn_inv_def
      split: if_splits sum.splits pyexc.splits option.splits)

lemma conn_step_inv: "conn_inv c \<Longrightarrow> conn_inv (conn_step P e c)"
proof (cases e)
  case (Pass stop rd wc)
  obtain r c' where 1: "conn_pass P stop rd c = (r, c')" by fastforce
  assume "conn_inv c"
  with Pass 1 conn_pass_inv [OF _ _ 1] close_connection_inv show ?thesis by (auto split: sum.splits bool.splits)
next
  case (TaskDone r)
  assume "conn_inv c"
  then show ?thesis using TaskDone by (auto simp: conn_inv_def failed_task_def split: option.splits task.splits)
qed (simp add: close_connection_inv)

interpretation connections: machine "\<lambda>c. c = new_connection" "\<lambda>c c'. \<exists>e. c' = conn_step P e c" conn_inv for P
  by unfold_locales (simp add: conn_inv_def new_connection_def, auto intro: conn_step_inv)

lemma conn_run_reach: "reach start (\<lambda>c c'. \<exists>e. c' = conn_step P e c) c \<Longrightarrow>
    reach start (\<lambda>c c'. \<exists>e. c' = conn_step P e c) (conn_run P es c)"
  unfolding conn_run_def by (induction es arbitrary: c) (simp, simp, blast intro: reach_step)

lemma conn_run_simps [simp]: "conn_run P [] c = c" "conn_run P (e # es) c = conn_run P es (conn_step P e c)"
  by (simp_all add: conn_run_def)

text \<open>
  Events that leave the handler in its loop: decodable input and the end of the task; and
  the commands that arrived with them.
\<close>

fun calm :: "pydantic \<Rightarrow> conn_event \<Rightarrow> bool" where
  "calm P (Pass stop rd wc) =
     (\<not> stop \<and> (case rd of Inl _ \<Rightarrow> False | Inr bs \<Rightarrow> is_ok (decode_telecommand P bs)))"
| "calm P (Cancelled wc) = False"
| "calm P (TaskDone r) = True"

fun received :: "pydantic \<Rightarrow> conn_event list \<Rightarrow> telecommand list" where
  "received P [] = []"
| "received P (Pass stop (Inr bs) wc # es) =
     (case decode_telecommand P bs of Inr (Some tc) \<Rightarrow> tc # received P es | _ \<Rightarrow> received P es)"
| "received P (_ # es) = received P es"

fun task_command :: "task \<Rightarrow> command" where
  "task_command (Pending c) = c"
| "task_command (Ended c _) = c"

text \<open>What the connection holds after the commands \<open>tcs\<close>.\<close>

definition holds :: "telecommand list \<Rightarrow> connection \<Rightarrow> bool" where
  "holds tcs c \<longleftrightarrow> conn_phase c = Serving \<and>
     (case tcs of
        [] \<Rightarrow> current_task c = None \<and> command_queue c = []
      | tc # rest \<Rightarrow> (\<exists>t. current_task c = Some t \<and> task_command t = tc_data tc) \<and> command_queue c = rest)"

lemma calm_step: "calm P e \<Longrightarrow> holds tcs c \<Longrightarrow> holds (tcs @ received P [e]) (conn_step P e c)"
proof (cases e)
  case (Pass stop rd wc)
  assume a: "calm P e" "holds tcs c"
  with Pass obtain bs t where bs: "\<not> stop" "rd = Inr bs" "decode_telecommand P bs = Inr t"
    by (auto simp: is_ok_def split: sum.splits)
  show ?thesis
  proof (cases t)
    case None
    with a Pass bs show ?thesis by (simp add: conn_pass_def holds_def)
  next
    case (Some tc)
    with a Pass bs show ?thesis
      by (cases tcs) (auto simp: conn_pass_def holds_def handle_envelope)
  qed
next
  case (TaskDone r)
  assume "holds tcs c"
  with TaskDone show ?thesis
    by (auto simp: holds_def split: list.splits option.splits task.splits)
qed simp

lemma received_append: "received P (es @ fs) = received P es @ received P fs"
  by (induction P es rule: received.induct) (auto split: sum.splits option.splits)

lemma calm_run: "list_all (calm P) es \<Longrightarrow> holds tcs c \<Longrightarrow> holds (tcs @ received P es) (conn_run P es c)"
proof (induction es arbitrary: tcs c)
  case (Cons e es)
  then have "holds ((tcs @ received P [e]) @ received P es) (conn_run P es (conn_step P e c))"
    using calm_step [of P e tcs c] by (intro Cons.IH) auto
  then show ?case using received_append [of P "[e]" es] by simp
qed simp

lemma closed_stays:
  assumes "conn_phase c \<noteq> Serving" "\<forall>cmd. current_task c \<noteq> Some (Pending cmd)"
  shows "conn_run P es c = c"
proof (induction es)
  case (Cons e es)
  have "conn_step P e c = c"
    using assms by (cases e) (auto split: option.splits task.splits)
  with Cons show ?case by simp
qed simp

subsection \<open>Properties\<close>

text \<open>C22: Of all commands a client sends over a connection only the first one is ever run: however its task
  goes, each later command, \<open>Cancel\<close> and \<open>End\<close> included, is only appended to the queue.\<close>

theorem only_first_command_runs:
  assumes "list_all (calm P) es"
  shows "case received P es of
      [] \<Rightarrow> current_task (conn_run P es new_connection) = None
    | tc # rest \<Rightarrow>
        (\<exists>t. current_task (conn_run P es new_connection) = Some t \<and> task_command t = tc_data tc) \<and>
        command_queue (conn_run P es new_connection) = rest"
proof -
  have "holds [] new_connection" by (simp add: holds_def new_connection_def)
  from calm_run [OF assms this] show ?thesis by (auto simp: holds_def split: list.splits)
qed

lemma demo_cancel_bytes:
  "\<exists>bs. decode_telecommand strict_pydantic bs = Inr (Some \<lparr>which_command = W_CANCEL, tc_data = Cancel\<rparr>)"
proof -
  let ?t = "\<lparr>which_command = W_CANCEL, tc_data = Cancel\<rparr>"
  have s: "tc_sendable json_ok ?t" by (simp add: tc_sendable_def tc_ok_def telecommand_py_def scalar_def dict_ok_def)
  obtain j where j: "json_dumps (telecommand_py ?t) = Inr j" "json_ok (telecommand_py ?t)"
    using s json_dumps_ok by (auto simp: tc_sendable_def)
  then have e: "utf8_encode j = Inr (bytes_of_ints j)"
    using json_dumps_plain utf8_encode_ascii plain_ascii by blast
  have "j \<noteq> []" using py.write_head j by blast
  moreover have "telecommand_validate_json strict_pydantic j = Inr ?t"
    using strict.telecommand_round [OF s] j by (simp add: telecommand_dump_json_def strict_pydantic_def)
  moreover have "bytes_of_ints j \<noteq> []" using \<open>j \<noteq> []\<close> by (simp add: bytes_of_ints_def)
  ultimately show ?thesis using utf8_decode_encode [OF e]
    by (intro exI [of _ "bytes_of_ints j"]) (simp add: decode_telecommand_def)
qed

theorem only_first_command_runs_witness:
  "\<exists>bs. let c = conn_run strict_pydantic [Pass False (Inr bs) (Inr ()), TaskDone (Inr ()), Pass False (Inr bs) (Inr ())] new_connection in
    command_queue c = [\<lparr>which_command = W_CANCEL, tc_data = Cancel\<rparr>] \<and> conn_phase c = Serving"
proof -
  obtain bs where bs: "decode_telecommand strict_pydantic bs = Inr (Some \<lparr>which_command = W_CANCEL, tc_data = Cancel\<rparr>)"
    using demo_cancel_bytes by blast
  let ?es = "[Pass False (Inr bs) (Inr ()), TaskDone (Inr ()), Pass False (Inr bs) (Inr ())]"
  have c: "list_all (calm strict_pydantic) ?es" by (simp add: bs is_ok_def)
  from only_first_command_runs [OF c]
  have "command_queue (conn_run strict_pydantic ?es new_connection) = [\<lparr>which_command = W_CANCEL, tc_data = Cancel\<rparr>]"
    by (simp add: bs del: conn_run_simps)
  moreover have "holds ([] @ received strict_pydantic ?es) (conn_run strict_pydantic ?es new_connection)"
    by (rule calm_run [OF c]) (simp add: holds_def new_connection_def)
  ultimately show ?thesis unfolding Let_def by (auto simp: holds_def simp del: conn_run_simps)
qed

text \<open>C15: No command outlives its connection: in every reachable state in which the handler has ended, its
  task is not running, and the writer is closed unless the task had raised an error of its own.\<close>

theorem connection_cleanup:
  assumes "reach (\<lambda>c. c = new_connection) (\<lambda>c c'. \<exists>e. c' = conn_step P e c) c" "conn_phase c = Closed r"
  shows "(\<forall>cmd. current_task c \<noteq> Some (Pending cmd)) \<and>
    (writer_closed c \<or> (\<exists>cmd e. current_task c = Some (Ended cmd (Inl e)) \<and> r = Inl e \<and>
      e \<noteq> CancelledError \<and> e \<noteq> ConnectionError))"
  using connections.reach_inv [OF assms(1)] assms(2) by (auto simp: conn_inv_def failed_task_def)

theorem connection_cleanup_witness:
  "let c = conn_step strict_pydantic (Cancelled (Inr ())) new_connection in
    conn_phase c = Closed (Inl CancelledError) \<and> writer_closed c"
proof -
  let ?c = "conn_step strict_pydantic (Cancelled (Inr ())) new_connection"
  have r: "reach (\<lambda>c. c = new_connection) (\<lambda>c c'. \<exists>e. c' = conn_step strict_pydantic e c) ?c"
    by (rule reach_step [OF reach_start]) (rule refl, rule exI, rule refl)
  have p: "conn_phase ?c = Closed (Inl CancelledError)" "current_task ?c = None"
    by (simp_all add: new_connection_def close_connection_def cancel_current_task_def)
  from connection_cleanup [OF r p(1)] p show ?thesis by (simp add: Let_def)
qed



text \<open>While the handler serves, an empty read (the peer has closed its side) and a document that is no valid
  command change nothing, so the loop goes on; bytes that are no UTF-8 end the connection with an error.\<close>

theorem connection_input:
  assumes "conn_phase c = Serving" "\<not> writer_closed c" "current_task c = None"
  shows "conn_step P (Pass False (Inr []) wc) c = c \<and>
    (\<forall>bs s. utf8_decode bs = Inr s \<and> telecommand_validate_json P s = Inl ValidationError \<longrightarrow>
       conn_step P (Pass False (Inr bs) wc) c = c) \<and>
    (\<forall>bs e. bs \<noteq> [] \<and> utf8_decode bs = Inl e \<longrightarrow>
       conn_step P (Pass False (Inr bs) (Inr ())) c =
         c\<lparr>writer_closed := True, conn_phase := Closed (Inl UnicodeDecodeError)\<rparr>)"
  using assms by (auto simp: conn_pass_def decode_telecommand_def close_connection_def cancel_current_task_def
      dest: utf8_decode_error)

theorem connection_input_witness:
  "conn_step strict_pydantic (Pass False (Inr []) (Inr ())) new_connection = new_connection"
  using connection_input [of new_connection strict_pydantic "Inr ()"] by (simp add: new_connection_def)

text \<open>\<open>run\<close> returns what serving returned, after the stop event was set and the server closed, and every
  handler whose next pass follows the stop event ends with a cancellation.\<close>

theorem run_server_stops:
  "(case run_server (Inr ()) served (Inr ()) of (r, s) \<Rightarrow> r = served \<and> stop_set s \<and> \<not> listening s) \<and>
   fst (serve_forever served new_server) = Inl AssertionError \<and>
   (\<exists>r. conn_step P (Pass True rd (Inr ())) new_connection =
      new_connection\<lparr>writer_closed := True, conn_phase := Closed (Inl r)\<rparr> \<and> r = CancelledError)"
  by (simp add: run_server_def server_enter_def serve_forever_def server_exit_def new_server_def abind_def
      conn_pass_def close_connection_def cancel_current_task_def new_connection_def)

end
