(* ===== verification/OnboardService.thy ===== *)
theory OnboardService
  imports OnboardServer
begin

section \<open>The server with its connections: onboard-server-py/src/onboard_server/server.py\<close>

text \<open>
  The server accepts connections, each with a handler of its own; they share the stop event. Leaving the server sets
  the event, stops listening and waits until the transport of every connection is closed.
\<close>

subsection \<open>State and steps\<close>

text \<open>
  A handler looks at the stop event at the top of its loop, then waits in \<open>read\<close>, then deals with what it read and
  sleeps. \<open>hd_waiting\<close> tells that it has passed the test and waits in \<open>read\<close>, \<open>hd_gone\<close> that the transport of the
  connection is closed. When that happens is up to the network: some time after the handler has closed its writer, when the
  client has reset the connection, or after the handler has raised and asyncio closes it.
\<close>

record conn_handler =
  hd_conn :: connection
  hd_waiting :: bool
  hd_gone :: bool

record service =
  sv_server :: onboard_server
  sv_conns :: "(nat \<times> conn_handler) list"

definition new_service :: service where
  "new_service = \<lparr>sv_server = new_server, sv_conns = []\<rparr>"

definition handler_check :: "pydantic \<Rightarrow> bool \<Rightarrow> unit res \<Rightarrow> conn_handler \<Rightarrow> conn_handler" where
  "handler_check P stop wc k =
     (if conn_phase (hd_conn k) = Serving \<and> \<not> hd_waiting k then
        (if stop then k\<lparr>hd_conn := close_connection wc (Inl CancelledError) (hd_conn k)\<rparr> else k\<lparr>hd_waiting := True\<rparr>)
      else k)"

definition handler_read :: "pydantic \<Rightarrow> byte list res \<Rightarrow> unit res \<Rightarrow> conn_handler \<Rightarrow> conn_handler" where
  "handler_read P rd wc k =
     (if hd_waiting k then k\<lparr>hd_conn := conn_step P (Pass False rd wc) (hd_conn k), hd_waiting := False\<rparr> else k)"

text \<open>
  \<open>Leave\<close> is \<open>__aexit__\<close> up to \<open>wait_closed\<close>, \<open>Left\<close> the rest, once all transports are closed; \<open>Gone i\<close> tells that
  the transport of the connection \<open>i\<close> was closed.
\<close>

datatype service_event =
    Enter "unit res"
  | Accept nat
  | Check nat "unit res"
  | Read nat "byte list res" "unit res"
  | Interrupt nat "unit res"
  | CommandDone nat "unit res"
  | Gone nat
  | Leave
  | Left

definition on_handler :: "nat \<Rightarrow> (conn_handler \<Rightarrow> conn_handler) \<Rightarrow> service \<Rightarrow> service" where
  "on_handler i f s =
     (case map_of (sv_conns s) i of
        None \<Rightarrow> s
      | Some k \<Rightarrow> s\<lparr>sv_conns := dict_set i (f k) (sv_conns s)\<rparr>)"

definition all_closed :: "service \<Rightarrow> bool" where
  "all_closed s \<longleftrightarrow> list_all (\<lambda>(i, k). hd_gone k) (sv_conns s)"

fun service_step :: "pydantic \<Rightarrow> service_event \<Rightarrow> service \<Rightarrow> service" where
  "service_step P (Enter started) s = s\<lparr>sv_server := snd (server_enter started (sv_server s))\<rparr>"
| "service_step P (Accept i) s =
     (if listening (sv_server s) \<and> \<not> stop_set (sv_server s) \<and> i \<notin> fst ` set (sv_conns s)
      then s\<lparr>sv_conns := dict_set i \<lparr>hd_conn = new_connection, hd_waiting = False, hd_gone = False\<rparr> (sv_conns s)\<rparr> else s)"
| "service_step P (Check i wc) s = on_handler i (handler_check P (stop_set (sv_server s)) wc) s"
| "service_step P (Read i rd wc) s = on_handler i (handler_read P rd wc) s"
| "service_step P (Interrupt i wc) s = on_handler i (\<lambda>k. k\<lparr>hd_conn := conn_step P (Cancelled wc) (hd_conn k)\<rparr>) s"
| "service_step P (CommandDone i r) s = on_handler i (\<lambda>k. k\<lparr>hd_conn := conn_step P (TaskDone r) (hd_conn k)\<rparr>) s"
| "service_step P (Gone i) s = on_handler i (\<lambda>k. k\<lparr>hd_gone := True\<rparr>) s"
| "service_step P Leave s =
     (if listening (sv_server s) then s\<lparr>sv_server := (sv_server s)\<lparr>stop_set := True\<rparr>\<rparr> else s)"
| "service_step P Left s =
     (if stop_set (sv_server s) \<and> all_closed s then s\<lparr>sv_server := snd (server_exit (Inr ()) (sv_server s))\<rparr> else s)"

subsection \<open>Lemmas\<close>

definition handler_of :: "service \<Rightarrow> nat \<Rightarrow> conn_handler option" where
  "handler_of s i = map_of (sv_conns s) i"

lemma in_conns: "i \<in> fst ` set d \<longleftrightarrow> (\<exists>k. map_of d i = Some k)"
  by (metis dom_map_of_conv_image_fst domIff not_None_eq)

lemma on_handler_of [simp]: "handler_of (on_handler j f s) i = (if j = i then map_option f (handler_of s i) else handler_of s i)"
  by (auto simp: handler_of_def on_handler_def dict_simps split: option.split)

lemma on_handler_server [simp]: "sv_server (on_handler j f s) = sv_server s"
  by (simp add: on_handler_def split: option.split)

text \<open>The events that end a \<open>read\<close>: a transport that is closed ends it with an error or with the end of the stream.\<close>

fun wakes :: "nat \<Rightarrow> service_event \<Rightarrow> bool" where
  "wakes i (Read j rd wc) \<longleftrightarrow> j = i"
| "wakes i (Interrupt j wc) \<longleftrightarrow> j = i"
| "wakes i (Gone j) \<longleftrightarrow> j = i"
| "wakes i _ \<longleftrightarrow> False"

definition reading :: "service \<Rightarrow> nat \<Rightarrow> bool" where
  "reading s i \<longleftrightarrow> (\<exists>k. handler_of s i = Some k \<and> hd_waiting k \<and> \<not> hd_gone k \<and> conn_phase (hd_conn k) = Serving)"

lemma reading_open: "reading s i \<Longrightarrow> \<not> all_closed s"
  by (auto simp: reading_def all_closed_def handler_of_def list_all_iff dest!: map_of_SomeD)

lemma close_connection_closed: "conn_phase (close_connection wc r c) \<noteq> Serving"
  by (auto simp: close_connection_def cancel_current_task_def split: option.split task.split sum.split)

lemma task_done_phase: "conn_phase (conn_step P (TaskDone r) c) = conn_phase c"
  by (simp split: option.split task.split)

lemma reading_step:
  assumes "reading s i" "\<not> wakes i e"
  shows "reading (service_step P e s) i"
proof -
  obtain k where k: "handler_of s i = Some k" "hd_waiting k" "\<not> hd_gone k" "conn_phase (hd_conn k) = Serving"
    using assms(1) by (auto simp: reading_def)
  show ?thesis
  proof (cases e)
    case (Accept j)
    with k show ?thesis by (auto simp: reading_def handler_of_def dict_simps in_conns)
  qed (use assms(2) k task_done_phase in \<open>auto simp: reading_def handler_check_def handler_of_def [of "_\<lparr>sv_server := _\<rparr>"] handler_of_def [symmetric]\<close>)
qed

lemma reading_run: "reading s i \<Longrightarrow> reading (fold (service_step P) (filter (\<lambda>e. \<not> wakes i e) es) s) i"
  by (induction es arbitrary: s) (auto intro: reading_step)

lemma leaving_step:
  "stop_set (sv_server s) \<Longrightarrow> listening (sv_server s) \<Longrightarrow> \<not> all_closed s \<Longrightarrow>
    stop_set (sv_server (service_step P e s)) \<and> listening (sv_server (service_step P e s))"
  by (cases e) (auto simp: server_enter_def split: sum.split)

lemma leaving_run:
  "stop_set (sv_server s) \<Longrightarrow> listening (sv_server s) \<Longrightarrow> reading s i \<Longrightarrow>
    listening (sv_server (fold (service_step P) (filter (\<lambda>e. \<not> wakes i e) es) s))"
proof (induction es arbitrary: s)
  case (Cons e es)
  show ?case
  proof (cases "wakes i e")
    case False
    with Cons.IH [of "service_step P e s"] leaving_step [OF Cons.prems(1,2) reading_open [OF Cons.prems(3)]]
      reading_step [OF Cons.prems(3) False] show ?thesis by simp
  qed (use Cons in simp)
qed simp

subsection \<open>Properties\<close>

text \<open>C25: When the server is left while a client's handler waits in \<open>read\<close> on an open connection, that handler goes on serving, and leaving does not
  finish, for as long as nothing ends the read, whatever else happens; the next input and the test of the stop event
  after it close the connection.\<close>

theorem leaving_waits_for_input:
  assumes "stop_set (sv_server s)" "listening (sv_server s)" "handler_of s i = Some k" "hd_waiting k" "\<not> hd_gone k"
    and "conn_phase (hd_conn k) = Serving"
  shows "(let t = fold (service_step P) (filter (\<lambda>e. \<not> wakes i e) es) s in
      listening (sv_server t) \<and> (\<exists>k'. handler_of t i = Some k' \<and> conn_phase (hd_conn k') = Serving)) \<and>
    (\<exists>k'. handler_of (fold (service_step P) [Read i rd wc, Check i wc'] s) i = Some k' \<and> conn_phase (hd_conn k') \<noteq> Serving)"
proof -
  have r: "reading s i" using assms(3-6) by (auto simp: reading_def)
  from reading_run [OF r, of P es] have "\<exists>k'. handler_of (fold (service_step P) (filter (\<lambda>e. \<not> wakes i e) es) s) i = Some k' \<and>
      conn_phase (hd_conn k') = Serving"
    by (auto simp: reading_def)
  moreover have "conn_phase (hd_conn (handler_check P True wc' (handler_read P rd wc k))) \<noteq> Serving"
    using assms(4) by (auto simp: handler_check_def handler_read_def close_connection_closed simp del: conn_step.simps)
  ultimately show ?thesis using leaving_run [OF assms(1,2) r, of P es] assms(1,3) by (simp add: Let_def)
qed

definition demo_service :: service where
  "demo_service = fold (service_step strict_pydantic) [Enter (Inr ()), Accept 0, Check 0 (Inr ()), Leave] new_service"

lemma demo_service_eq: "demo_service =
    \<lparr>sv_server = \<lparr>stop_set = True, listening = True\<rparr>, sv_conns = [(0, \<lparr>hd_conn = new_connection, hd_waiting = True, hd_gone = False\<rparr>)]\<rparr>"
  by (simp add: demo_service_def new_service_def new_server_def server_enter_def on_handler_def handler_check_def new_connection_def)

theorem leaving_waits_for_input_witness:
  "listening (sv_server (service_step strict_pydantic Left demo_service)) \<and>
   (\<exists>k'. handler_of (fold (service_step strict_pydantic) [Read 0 (Inr []) (Inr ()), Check 0 (Inr ())] demo_service) 0 = Some k' \<and>
      conn_phase (hd_conn k') \<noteq> Serving)"
proof -
  have h: "stop_set (sv_server demo_service)" "listening (sv_server demo_service)"
    "handler_of demo_service 0 = Some \<lparr>hd_conn = new_connection, hd_waiting = True, hd_gone = False\<rparr>"
    by (simp_all add: demo_service_eq handler_of_def)
  have "hd_waiting \<lparr>hd_conn = new_connection, hd_waiting = True, hd_gone = False\<rparr>"
    "\<not> hd_gone \<lparr>hd_conn = new_connection, hd_waiting = True, hd_gone = False\<rparr>"
    "conn_phase (hd_conn \<lparr>hd_conn = new_connection, hd_waiting = True, hd_gone = False\<rparr>) = Serving"
    by (simp_all add: new_connection_def)
  from leaving_waits_for_input [OF h this, of strict_pydantic "[Left]"] show ?thesis
    by (simp add: Let_def del: service_step.simps)
qed

end
