(* ===== verification/PackageExports.thy ===== *)
theory PackageExports
  imports Prelude
begin

section \<open>What the packages export: the files __init__.py\<close>

text \<open>
  The initialisation of the packages \<open>bvex_codec\<close>, \<open>bcp_redis_client\<close> and \<open>onboard_server\<close>: they import names from
  their modules and bind dictionaries of them. The theory runs these statements on the name space
  of the package and states which imports of the other components succeed, and what they get.
\<close>

subsection \<open>Name spaces\<close>

text \<open>\<open>Symbol m n\<close> is what the module \<open>m\<close> of the package calls \<open>n\<close>.\<close>

datatype pyobj =
    Symbol string string
  | Module string
  | Exports "(string \<times> pyobj) list"
  | Names "string list"
  | Str string

type_synonym namespace = "(string \<times> pyobj) list"

datatype init_error = ImportError string | NameError string

datatype init_stmt =
    FromImport string "(string \<times> string) list"      \<comment> \<open>\<open>from .m import n as a\<close>\<close>
  | AssignDict string "(string \<times> string) list"      \<comment> \<open>\<open>x = \{key: name\}\<close>\<close>
  | AssignNames string "string list"
  | AssignStr string string

text \<open>Importing from a module of the package also binds the module in the package.\<close>

fun import_names :: "string \<Rightarrow> string list \<Rightarrow> (string \<times> string) list \<Rightarrow> namespace \<Rightarrow> init_error + namespace" where
  "import_names m defined [] ns = Inr ns"
| "import_names m defined ((n, a) # nas) ns =
     (if n \<in> set defined then import_names m defined nas (dict_set a (Symbol m n) ns) else Inl (ImportError n))"

fun eval_dict :: "namespace \<Rightarrow> (string \<times> string) list \<Rightarrow> init_error + (string \<times> pyobj) list" where
  "eval_dict ns [] = Inr []"
| "eval_dict ns ((k, n) # kns) =
     (case map_of ns n of
        None \<Rightarrow> Inl (NameError n)
      | Some v \<Rightarrow> (case eval_dict ns kns of Inl e \<Rightarrow> Inl e | Inr d \<Rightarrow> Inr ((k, v) # d)))"

fun run_init :: "(string \<Rightarrow> string list) \<Rightarrow> init_stmt list \<Rightarrow> namespace \<Rightarrow> init_error + namespace" where
  "run_init mods [] ns = Inr ns"
| "run_init mods (FromImport m nas # ss) ns =
     (case import_names m (mods m) nas (dict_set m (Module m) ns) of
        Inl e \<Rightarrow> Inl e | Inr ns' \<Rightarrow> run_init mods ss ns')"
| "run_init mods (AssignDict x kns # ss) ns =
     (case eval_dict ns kns of Inl e \<Rightarrow> Inl e | Inr d \<Rightarrow> run_init mods ss (dict_set x (Exports d) ns))"
| "run_init mods (AssignNames x xs # ss) ns = run_init mods ss (dict_set x (Names xs) ns)"
| "run_init mods (AssignStr x t # ss) ns = run_init mods ss (dict_set x (Str t) ns)"

abbreviation plain :: "string list \<Rightarrow> (string \<times> string) list" where
  "plain ns \<equiv> map (\<lambda>n. (n, n)) ns"

text \<open>What \<open>from package import n\<close> binds.\<close>

definition import_from :: "init_error + namespace \<Rightarrow> string \<Rightarrow> init_error + pyobj" where
  "import_from pkg n =
     (case pkg of
        Inl e \<Rightarrow> Inl e
      | Inr ns \<Rightarrow> (case map_of ns n of None \<Rightarrow> Inl (ImportError n) | Some v \<Rightarrow> Inr v))"

subsection \<open>The packages\<close>

text \<open>The names at the top level of each module, those it imports first.\<close>

fun codec_modules :: "string \<Rightarrow> string list" where
  "codec_modules m =
     (if m = ''sample'' then
        [''BaseModel'', ''field_validator'', ''ValidationInfo'', ''field_serializer'', ''Union'', ''Any'', ''Enum'', ''os'',
         ''base64'', ''PrimitiveType'', ''WhichPrimitive'', ''PrimitiveData'', ''FileData'', ''WhichDataType'',
         ''SampleMetadata'', ''Sample'', ''FileSample'', ''PrimitiveSample'']
      else if m = ''telemetry'' then
        [''BaseModel'', ''BeforeValidator'', ''ValidationInfo'', ''Enum'', ''Any'', ''Annotated'', ''List'', ''Sample'',
         ''MetricIds'', ''TMMessage'', ''WhichTMMessageType'', ''is_data_valid'', ''Telemetry'']
      else if m = ''telecommand'' then
        [''BaseModel'', ''BeforeValidator'', ''ValidationInfo'', ''Enum'', ''Any'', ''Annotated'', ''Subscribe'',
         ''GetMetricIds'', ''Cancel'', ''End'', ''CommandTypes'', ''WhichCommandType'', ''is_data_valid'', ''Telecommand'']
      else [])"

definition codec_init :: "init_stmt list" where
  "codec_init =
     [FromImport ''sample'' (plain
        [''PrimitiveType'', ''WhichPrimitive'', ''PrimitiveData'', ''FileData'', ''WhichDataType'', ''SampleMetadata'',
         ''Sample'', ''FileSample'', ''PrimitiveSample'']),
      FromImport ''telemetry'' (plain [''MetricIds'', ''Telemetry'', ''WhichTMMessageType'', ''TMMessage'']),
      FromImport ''telecommand'' (plain
        [''Subscribe'', ''GetMetricIds'', ''CommandTypes'', ''WhichCommandType'', ''Telecommand'', ''Cancel'', ''End'']),
      AssignDict ''sample'' (plain
        [''PrimitiveType'', ''WhichPrimitive'', ''PrimitiveData'', ''FileData'', ''WhichDataType'', ''SampleMetadata'', ''Sample'']),
      AssignDict ''telecommand'' (plain
        [''Subscribe'', ''GetMetricIds'', ''Cancel'', ''End'', ''CommandTypes'', ''WhichCommandType'', ''Telecommand'']),
      AssignDict ''telemetry'' (plain [''MetricIds'', ''WhichTMMessageType'', ''TMMessage'', ''Telemetry'']),
      AssignNames ''__all__'' [''sample'', ''telecommand'', ''telemetry'']]"

fun client_modules :: "string \<Rightarrow> string list" where
  "client_modules m =
     (if m = ''sample'' then
        [''redis'', ''Sample'', ''SampleMetadata'', ''WhichDataType'', ''PrimitiveData'', ''FileData'', ''PrimitiveType'',
         ''time'', ''Thread'', ''Lock'', ''Condition'', ''set_sample'', ''set_sample_primitive'', ''set_sample_file'',
         ''set_sample_file_from_bytes'', ''get_sample'', ''SampleSubscriber'']
      else if m = ''asyncio'' then [''redis'', ''Set'', ''Sample'', ''get_all_metric_ids'', ''get_sample'']
      else [])"

definition client_init :: "init_stmt list" where
  "client_init =
     [FromImport ''sample'' (plain
        [''set_sample'', ''set_sample_primitive'', ''set_sample_file'', ''set_sample_file_from_bytes'', ''get_sample'',
         ''SampleSubscriber'']),
      FromImport ''asyncio'' [(''get_all_metric_ids'', ''get_all_metric_ids''), (''get_sample'', ''get_sample_async'')],
      AssignDict ''sample'' (plain
        [''set_sample'', ''set_sample_primitive'', ''set_sample_file'', ''set_sample_file_from_bytes'', ''get_sample'',
         ''SampleSubscriber'']),
      AssignDict ''asyncio'' [(''get_all_metric_ids'', ''get_all_metric_ids''), (''get_sample'', ''get_sample_async'')],
      AssignNames ''__all__'' [''sample'', ''asyncio''],
      AssignStr ''__version__'' ''0.1.0'']"

fun onboard_modules :: "string \<Rightarrow> string list" where
  "onboard_modules m =
     (if m = ''server'' then
        [''asyncio'', ''socket'', ''logging'', ''Telecommand'', ''Cancel'', ''End'', ''CommandTypes'', ''Telemetry'',
         ''WhichTMMessageType'', ''ValidationError'', ''queue'', ''run_command'', ''config'', ''asynccontextmanager'',
         ''Optional'', ''logger'', ''OnboardServer'', ''run'']
      else if m = ''config'' then [''BaseModel'', ''os'', ''Config'', ''config'']
      else [])"

definition onboard_init :: "init_stmt list" where
  "onboard_init =
     [FromImport ''server'' (plain [''run'', ''OnboardServer'']),
      FromImport ''config'' (plain [''config'']),
      AssignNames ''__all__'' [''run'', ''OnboardServer'', ''config'']]"

definition codec_package :: "init_error + namespace" where
  "codec_package = run_init codec_modules codec_init []"

definition client_package :: "init_error + namespace" where
  "client_package = run_init client_modules client_init []"

definition onboard_package :: "init_error + namespace" where
  "onboard_package = run_init onboard_modules onboard_init []"

subsection \<open>Properties\<close>

text \<open>The packages initialise without an error, and the imports the other components make get the classes and functions
  of the modules they mean: the synchronous reader of samples and, under its other name, the asynchronous one.\<close>

theorem package_imports_resolve:
  "import_from codec_package ''Sample'' = Inr (Symbol ''sample'' ''Sample'') \<and>
   import_from codec_package ''FileData'' = Inr (Symbol ''sample'' ''FileData'') \<and>
   import_from client_package ''SampleSubscriber'' = Inr (Symbol ''sample'' ''SampleSubscriber'') \<and>
   import_from client_package ''get_all_metric_ids'' = Inr (Symbol ''asyncio'' ''get_all_metric_ids'') \<and>
   import_from client_package ''get_sample'' = Inr (Symbol ''sample'' ''get_sample'') \<and>
   import_from client_package ''get_sample_async'' = Inr (Symbol ''asyncio'' ''get_sample'') \<and>
   import_from onboard_package ''run'' = Inr (Symbol ''server'' ''run'') \<and>
   import_from onboard_package ''config'' = Inr (Symbol ''config'' ''config'') \<and>
   import_from onboard_package ''handle_connection'' = Inl (ImportError ''handle_connection'')"
  by code_simp

end
