(* ===== verification/DataPath.thy ===== *)
theory DataPath
  imports OnboardServer CommandMetrics
begin

section \<open>The paths of a sample and of the metric ids\<close>

text \<open>
  The lemmas that join the components a sample passes: the producers that store it in Redis,
  the downlink loop that polls the store, the bytes on the wire and the coroutine of the ground
  station that reads them; and those that join the scan of the store, the command that answers with the ids
  and the coroutine of the ground station that asks for them.
\<close>

subsection \<open>From the producers to the downlink loop\<close>

text \<open>
  The calls the store sees, in their order: producers that set samples, and the downlink loop of
  the metric \<open>m\<close> that polls it. A producer that fails ends the run.
\<close>

datatype store_call = Produce pystr sample | Poll

fun store_run :: "'s redis \<Rightarrow> pydantic \<Rightarrow> pystr \<Rightarrow> store_call list \<Rightarrow> ('s, sample option res list) act" where
  "store_run R P m [] = lift_res (Inr [])"
| "store_run R P m (Produce m' x # cs) = abind (set_sample R P m' x) (\<lambda>_. store_run R P m cs)"
| "store_run R P m (Poll # cs) = (\<lambda>s. abind (store_run R P m cs) (\<lambda>gs. lift_res (Inr (get_sample_async R P m s # gs))) s)"

text \<open>What the polls should see: the last sample set for the metric.\<close>

fun polled :: "pystr \<Rightarrow> sample \<Rightarrow> store_call list \<Rightarrow> sample list" where
  "polled m x [] = []"
| "polled m x (Produce m' y # cs) =
     polled m (if metric_id (metadata y) = m then y\<lparr>sample_class := Sample\<rparr> else x) cs"
| "polled m x (Poll # cs) = x # polled m x cs"

context sample_store
begin

lemma set_get_async_other:
  "set_sample R P m x s = (Inr r, s') \<Longrightarrow> m' \<noteq> metric_id (metadata x) \<Longrightarrow>
    get_sample_async R P m' s' = get_sample_async R P m' s"
  using get_set_other get_publish by (fastforce simp: set_sample_Inr get_sample_async_def)

lemma store_run_polled:
  assumes "store_run R P m cs s = (Inr gs, s')" "get_sample_async R P m s = Inr (Some x)"
    and "\<And>m' y. Produce m' y \<in> set cs \<Longrightarrow> sample_sendable ok y"
  shows "gs = map (\<lambda>y. Inr (Some y)) (polled m x cs)"
  using assms
proof (induction cs arbitrary: s x gs)
  case (Cons c cs)
  have k: "sample_sendable ok y" if "Produce m' y \<in> set cs" for m' y
    by (rule Cons.prems(3) [of m']) (use that in simp)
  show ?case
  proof (cases c)
    case (Produce m' y)
    then obtain r s1 where 1: "set_sample R P m' y s = (Inr r, s1)" "store_run R P m cs s1 = (Inr gs, s')"
      using Cons.prems(1) by (auto simp: res_simps)
    have "sample_sendable ok y" using Cons.prems(3) Produce by auto
    then have g: "get_sample_async R P m s1 =
        Inr (Some (if metric_id (metadata y) = m then y\<lparr>sample_class := Sample\<rparr> else x))"
      using set_get(2) [OF _ 1(1)] set_get_async_other [OF 1(1), of m] Cons.prems(2) by auto
    show ?thesis using Cons.IH [OF 1(2) g k] Produce by simp
  next
    case Poll
    then obtain gs' where 1: "store_run R P m cs s = (Inr gs', s')" "gs = get_sample_async R P m s # gs'"
      using Cons.prems(1) by (auto simp: res_simps)
    show ?thesis using Cons.IH [OF 1(1) Cons.prems(2) k] Cons.prems(2) 1(2) Poll by simp
  qed
qed (simp add: res_simps)

end

subsection \<open>From the downlink loop to the ground station\<close>

lemma read_messages:
  "traverse (client_decode P) bss = Inr ts \<Longrightarrow> [] \<notin> set bss \<Longrightarrow>
    traverse (read_message P) bss = Inr (map (\<lambda>t. [tm_data t]) ts)"
  by (induction bss arbitrary: ts) (auto simp: res_simps read_message_def)

lemma samples_of_samples: "samples_of (map tm_data (map sample_telemetry ss)) = ss"
  by (induction ss) simp_all

text \<open>What the server makes of the request of a client.\<close>

context pydantic_api
begin

lemma telecommand_decodes:
  assumes "tc_sendable ok tc" "rbind (telecommand_dump_json P tc) utf8_encode = Inr req" "req \<noteq> []"
  shows "decode_telecommand P req = Inr (Some tc)"
proof -
  from assms(2) obtain j where j: "telecommand_dump_json P tc = Inr j" "utf8_encode j = Inr req" by (auto simp: res_simps)
  have "telecommand_validate_json P j = Inr tc" using telecommand_round [OF assms(1)] j(1) by simp
  with utf8_decode_encode [OF j(2)] assms(3) show ?thesis by (simp add: decode_telecommand_def)
qed

lemma request_decodes:
  assumes "tc_sendable ok \<lparr>which_command = W_SUBSCRIBE, tc_data = Subscribe m bps\<rparr>"
    and "subscribe_request P m bps = Inr req" "req \<noteq> []"
  shows "decode_telecommand P req = Inr (Some \<lparr>which_command = W_SUBSCRIBE, tc_data = Subscribe m bps\<rparr>)"
  using telecommand_decodes [OF assms(1) _ assms(3)] assms(2) by (simp add: subscribe_request_eq)

lemma client_handles:
  assumes "traverse (client_decode P) bss = Inr (map sample_telemetry ss)" "[] \<notin> set bss" "fst (stream_reads 4096 arrs []) = map Inr bss"
    and "subscribe_request P m bps = Inr req"
  shows "\<exists>s. subscribe P m bps (Inr ()) (Inr ()) wc (\<lambda>_. Inr ()) arrs = (None, s) \<and>
    sent s = [req] \<and> handled s = ss"
proof -
  let ?s = "new_subscription\<lparr>sent := [req]\<rparr>"
  obtain s where "subscribe_passes P (\<lambda>_. Inr ()) arrs ?s = (Inr (), s)" "sent s = [req]" "handled s = ss"
    using subscribe_passes_reads [of "\<lambda>_. Inr ()", OF refl _ read_messages [OF assms(1,2)], of arrs ?s "[]"] assms(3)
    by (auto simp: samples_of_samples new_subscription_def simp del: map_map list.map_comp)
  with assms(4) show ?thesis by (simp add: subscribe_def subscribe_start_def abind_def Let_def new_subscription_def)
qed

end

lemma traverse_got: "map got es = map (\<lambda>y. Inr (Some y)) ys \<Longrightarrow> traverse got es = Inr (map Some ys)"
  by (induction es arbitrary: ys) auto

text \<open>The whole path, for a run of the loop that polled the samples \<open>vs\<close>.\<close>

context pydantic_api
begin

lemma downlink_handled:
  assumes "subscribe_request P m bps = Inr req" "downlink_loop P (Some b) bps es = (Inr (), as)"
    and "traverse got es = Inr vs" "\<And>s. Some s \<in> set vs \<Longrightarrow> tm_sendable ok (sample_telemetry s)" "[] \<notin> set (writes as)"
    and "fst (stream_reads 4096 arrs []) = map Inr (writes as)"
  shows "\<exists>s. subscribe P m bps (Inr ()) (Inr ()) wc (\<lambda>_. Inr ()) arrs = (None, s) \<and>
    sent s = [req] \<and> handled s = fresh None vs"
  by (rule client_handles [OF downlink_decodes [OF assms(2-4)] assms(5,6,1)])

end

lemma demo_request_sendable:
  "tc_sendable json_ok \<lparr>which_command = W_SUBSCRIBE, tc_data = Subscribe (u ''cpu'') bps\<rparr>"
  by (simp add: tc_sendable_def tc_ok_def telecommand_py_def scalar_def dict_ok_def)

lemma demo_request: "\<exists>req. subscribe_request strict_pydantic (u ''cpu'') bps = Inr req \<and> req \<noteq> []"
  using strict_telecommand_bytes [OF demo_request_sendable [of bps]] by (simp only: strict.subscribe_request_eq)

subsection \<open>From the store to the metrics of the ground station\<close>

context pydantic_api
begin

lemma sync_request_eq:
  "sync_request P = rbind (telecommand_dump_json P \<lparr>which_command = W_GET_METRIC_IDS, tc_data = GetMetricIds\<rparr>) utf8_encode"
  by (simp add: sync_request_def from_command_eq)

text \<open>The reads of the answer, with time-outs and ends of the stream between them.\<close>

lemma answer_reads:
  assumes "tm_sendable ok \<lparr>which_type = T_METRIC_IDS, tm_data = MetricIdsMsg ids\<rparr>"
    and "rbind (telemetry_dump_json P \<lparr>which_type = T_METRIC_IDS, tm_data = MetricIdsMsg ids\<rparr>) utf8_encode = Inr bs" "bs \<noteq> []"
    and "set rds \<subseteq> {Inl TimeoutError, Inr [], Inr bs}"
  shows "list_all (read_ok P) rds" "\<Union>(ids_read P ` set rds) = (if Inr bs \<in> set rds then set ids else {})"
proof -
  have d: "client_decode P bs = Inr \<lparr>which_type = T_METRIC_IDS, tm_data = MetricIdsMsg ids\<rparr>"
    by (rule telemetry_bytes_decode [OF assms(1,2)])
  have r: "read_ok P rd" "ids_read P rd = (if rd = Inr bs then set ids else {})" if "rd \<in> set rds" for rd
    using that assms(3,4) d by (auto simp: read_ok_def ids_read_def is_ok_def)
  then show "list_all (read_ok P) rds" by (simp add: list_all_iff)
  show "\<Union>(ids_read P ` set rds) = (if Inr bs \<in> set rds then set ids else {})" using r(2) by auto
qed

end

end
