(* ===== verification/JsonFraming.thy ===== *)
theory JsonFraming
  imports JsonCodec
begin

section \<open>Documents that are cut\<close>

text \<open>
  A reader of a stream may see the beginning of a document. The theory
  shows that a proper prefix of the text of a list or a dictionary is not read, whatever writer of JSON it comes from.
\<close>

subsection \<open>Proper prefixes\<close>

text \<open>What follows a value that is cut closes nothing and separates nothing.\<close>

definition stuck :: "pystr \<Rightarrow> bool" where
  "stuck r \<longleftrightarrow> (case skip_ws r of [] \<Rightarrow> True | c # _ \<Rightarrow> c \<noteq> 44 \<and> c \<noteq> 93 \<and> c \<noteq> 125)"

definition cut :: "(pyval \<Rightarrow> pystr res) \<Rightarrow> pyval \<Rightarrow> bool" where
  "cut w v \<longleftrightarrow> (\<forall>s p q n. w v = Inr s \<longrightarrow> s = p @ q \<longrightarrow> q \<noteq> [] \<longrightarrow> 2 * length p + 1 \<le> n \<longrightarrow>
     (case parse_val n p of Inl _ \<Rightarrow> True | Inr (_, r) \<Rightarrow> stuck r))"

subsection \<open>Strings\<close>

lemma hex4_short: "length s < 4 \<Longrightarrow> hex4 s = None"
  by (cases s rule: hex4.cases) auto

lemma scan_str_cut_escape:
  assumes "u_escape c = p @ q" "q \<noteq> []"
  shows "scan_str p = None"
proof -
  from assms have "p \<in> {[], [92]} \<or> (\<exists>r. p = 92 # 117 # r \<and> length r < 4)"
    by (auto simp: u_escape_def Cons_eq_append_conv)
  then show ?thesis by (auto simp: str_step_def hex4_short)
qed

lemma low_half_cut: "u_escape c = p @ q \<Longrightarrow> q \<noteq> [] \<Longrightarrow> low_half h p = None"
  by (auto simp: u_escape_def Cons_eq_append_conv low_half_def hex4_short)

lemma scan_str_cut_form:
  assumes "scalar c" "char_form c (p @ q)" "q \<noteq> []"
  shows "scan_str p = None"
  using assms(2)
proof (cases rule: char_form_cases)
  case plain
  with assms(3) show ?thesis by (auto simp: append_eq_Cons_conv)
next
  case (letter e)
  with assms(3) show ?thesis by (auto simp: append_eq_Cons_conv str_step_def)
next
  case number
  with assms(3) show ?thesis by (metis scan_str_cut_escape)
next
  case pair
  let ?a = "0xD800 + (c - 0x10000) div 1024" and ?b = "0xDC00 + (c - 0x10000) mod 1024"
  from pair(1) have "p @ q = u_escape ?a @ u_escape ?b" by (simp add: pair_escape_def)
  then show ?thesis using assms(3)
  proof (cases rule: prefix_cases)
    case (left q')
    then show ?thesis by (rule scan_str_cut_escape)
  next
    case (right p')
    then have r: "u_escape ?b = p' @ q" by simp
    have "0 \<le> ?a" "?a < 0x10000" using pair_range [OF assms(1) pair(2)] by auto
    then have "hex4 (drop 2 (u_escape ?a) @ p') = Some (?a, p')" by (rule hex4_u_escape)
    moreover have "low_half ?a p' = None" by (rule low_half_cut [OF r assms(3)])
    moreover have "scan_str p' = None" by (rule scan_str_cut_escape [OF r assms(3)])
    moreover have "p = 92 # 117 # drop 2 (u_escape ?a) @ p'" using right(1) u_escape_shape [of ?a] by simp
    ultimately show ?thesis by (simp add: str_step_def)
  qed
qed

context json_writer
begin

lemma scan_str_cut: "scalar_str s \<Longrightarrow> p @ q = concat (map esc s) @ [34] \<Longrightarrow> q \<noteq> [] \<Longrightarrow> scan_str p = None"
proof (induction s arbitrary: p)
  case Nil
  then show ?case by (cases p) auto
next
  case (Cons c s)
  have c: "scalar c" "char_form c (esc c)" using Cons.prems(1) esc_form by auto
  from Cons.prems(2) have "p @ q = esc c @ (concat (map esc s) @ [34])" by simp
  then show ?case using Cons.prems(3)
  proof (cases rule: prefix_cases)
    case (left q')
    then show ?thesis using scan_str_cut_form c by metis
  next
    case (right p')
    then show ?thesis using Cons.IH [of p'] Cons.prems c by (simp add: scan_str_form)
  qed
qed

lemma quote_cut:
  "scalar_str s \<Longrightarrow> quote_with esc s = p @ q \<Longrightarrow> q \<noteq> [] \<Longrightarrow> p = [] \<or> (\<exists>cs. p = 34 # cs \<and> scan_str cs = None)"
  by (cases p) (auto simp: quote_with_def intro: scan_str_cut)

lemma cut_str: "scalar_str s \<Longrightarrow> cut wr (PStr s)"
proof -
  assume s: "scalar_str s"
  show ?thesis unfolding cut_def
  proof (intro allI impI)
    fix t p q n
    assume "wr (PStr s) = Inr t" "t = p @ q" "q \<noteq> []"
    then have "p = [] \<or> (\<exists>cs. p = 34 # cs \<and> scan_str cs = None)" using quote_cut [OF s] by auto
    then show "case parse_val n p of Inl _ \<Rightarrow> True | Inr (_, r) \<Rightarrow> stuck r" by (cases n) auto
  qed
qed

end

subsection \<open>Numbers and words\<close>

definition num_char :: "int \<Rightarrow> bool" where
  "num_char c \<longleftrightarrow> is_digit c \<or> c \<in> {46, 101, 69, 43, 45}"

lemma num_char_simps [simp]:
  "num_char 46" "num_char 101" "num_char 69" "num_char 43" "num_char 45" "num_char 48"
  "is_digit c \<Longrightarrow> num_char c" "list_all num_char (takeWhile is_digit s)"
  by (auto simp: num_char_def is_digit_def list_all_iff dest: set_takeWhileD)

lemma scan_int_split: "scan_int s = Some (t, r) \<Longrightarrow> s = t @ r \<and> list_all num_char t"
  by (auto simp: scan_int_def split: list.splits if_splits)

lemma scan_frac_split: "scan_frac s = (t, r) \<Longrightarrow> s = t @ r \<and> list_all num_char t"
  by (auto simp: scan_frac_def split: list.splits if_splits)

lemma scan_exp_split: "scan_exp s = (t, r) \<Longrightarrow> s = t @ r \<and> list_all num_char t"
  by (auto simp: scan_exp_def Let_def split: list.splits if_splits)

lemma scan_num_split:
  assumes "scan_num s = Some (v, r)"
  shows "\<exists>c. s = c @ r \<and> list_all num_char c"
proof -
  obtain c0 s1 neg where s: "s = c0 @ s1" "list_all num_char c0"
      "(case s of c # r \<Rightarrow> if c = 45 then (True, r) else (False, s) | [] \<Rightarrow> (False, s)) = (neg, s1)"
  proof (cases "\<exists>r. s = 45 # r")
    case True
    then show ?thesis using that [of "[45]"] by auto
  next
    case False
    then show ?thesis using that [of "[]" s False] by (auto split: list.splits)
  qed
  obtain t1 r1 where 1: "scan_int s1 = Some (t1, r1)"
    using assms s(3) by (cases "scan_int s1") (auto simp: scan_num_def)
  obtain t2 r2 where 2: "scan_frac r1 = (t2, r2)" by fastforce
  obtain t3 r3 where 3: "scan_exp r2 = (t3, r3)" by fastforce
  have "r = r3" using assms unfolding scan_num_def s(3) by (auto simp: 1 2 3 split: if_splits sum.splits)
  with s(1,2) scan_int_split [OF 1] scan_frac_split [OF 2] scan_exp_split [OF 3] show ?thesis
    by (intro exI [of _ "c0 @ t1 @ t2 @ t3"]) simp
qed

lemma num_char_str_of_int: "list_all num_char (str_of_int i)"
  using scan_num_split [OF scan_num_int [of "[]" i, simplified]] by auto

lemma stuck_num: "list_all num_char r \<Longrightarrow> stuck r"
  by (cases r) (auto simp: stuck_def num_char_def is_digit_def skip_ws_def json_ws_def)

lemma scan_word_num:
  assumes "list_all num_char p" "scan_word p = Some (v, r)"
  shows "stuck r"
proof -
  have w: "\<not> startswith p s" if "\<exists>c \<in> set s. \<not> num_char c" for s
    using that assms(1) unfolding startswith_def list_all_iff by (metis in_set_takeD)
  have "scan_num p = Some (v, r)"
    using assms(2) w [of "u ''null''"] w [of "u ''true''"] w [of "u ''false''"] w [of "u ''NaN''"]
      w [of "u ''Infinity''"] w [of "u ''-Infinity''"]
    by (auto simp: scan_word_def num_char_def is_digit_def split: option.splits)
  with scan_num_split [OF this] assms(1) show ?thesis by (auto intro: stuck_num)
qed

lemma parse_num_cut:
  assumes "list_all num_char p"
  shows "case parse_val n p of Inl _ \<Rightarrow> True | Inr (_, r) \<Rightarrow> stuck r"
proof (cases n)
  case (Suc m)
  show ?thesis
  proof (cases p)
    case (Cons c cs)
    then have "c \<noteq> 34 \<and> c \<noteq> 123 \<and> c \<noteq> 91" using assms by (auto simp: num_char_def is_digit_def)
    then show ?thesis using Cons Suc scan_word_num [OF assms] by (auto split: option.split)
  qed (use Suc in simp)
qed simp

lemma word_cuts:
  "\<forall>k < length (u ''null''). scan_word (take k (u ''null'')) = None" "\<forall>k < length (u ''true''). scan_word (take k (u ''true'')) = None"
  "\<forall>k < length (u ''false''). scan_word (take k (u ''false'')) = None" "\<forall>k < length (u ''NaN''). scan_word (take k (u ''NaN'')) = None"
  "\<forall>k < length (u ''Infinity''). scan_word (take k (u ''Infinity'')) = None" "\<forall>k < length (u ''-Infinity''). scan_word (take k (u ''-Infinity'')) = None"
  by (simp_all add: numeral_eq_Suc All_less_Suc scan_word_def startswith_def scan_num_def scan_int_def is_digit_def)

lemma parse_word_cut:
  assumes "p @ q = w" "w \<in> {u ''null'', u ''true'', u ''false'', u ''NaN'', u ''Infinity'', u ''-Infinity''}" "q \<noteq> []"
  shows "case parse_val n p of Inl _ \<Rightarrow> True | Inr (_, r) \<Rightarrow> stuck r"
proof -
  have p: "p = take (length p) w" "length p < length w" using assms(1,3) by auto
  moreover have "\<forall>k < length w. scan_word (take k w) = None"
    using assms(2) word_cuts by (elim insertE emptyE) (simp_all only:)
  ultimately have "scan_word p = None" by metis
  moreover have "p = [] \<or> hd p \<notin> {34, 123, 91}" using assms(1,2) by (cases p) auto
  ultimately show ?thesis by (cases n; cases p) auto
qed

context json_writer
begin

lemma cut_int: "cut wr (PInt i)"
  unfolding cut_def using num_char_str_of_int [of i] by (auto intro!: parse_num_cut)

lemma cut_words: "cut wr PNone" "cut wr (PBool b)"
  unfolding cut_def by (auto intro!: parse_word_cut [OF sym] simp del: u_simps split: if_splits)

lemma cut_float: "fok f \<Longrightarrow> cut wr (PFloat f)"
proof -
  assume f: "fok f"
  show ?thesis
  proof (cases "scan_num (ftext f) = Some (PFloat f, [])")
    case False
    then have "ftext f \<in> {u ''NaN'', u ''Infinity'', u ''-Infinity''}" using fl_form [OF f] unfolding float_form_def by blast
    then show ?thesis unfolding cut_def by (auto intro!: parse_word_cut [OF sym] simp del: u_simps)
  next
    case True
    then have "list_all num_char (ftext f)" using scan_num_split by fastforce
    then show ?thesis unfolding cut_def by (auto intro!: parse_num_cut)
  qed
qed

end

subsection \<open>Lists and dictionaries\<close>

lemma not_ok: "\<not> is_ok r \<longleftrightarrow> (\<exists>e. r = Inl e)"
  by (cases r) (simp_all add: is_ok_def)

lemma parse_nil: "\<not> is_ok (parse_val n [])" "\<not> is_ok (parse_elems n [])" "\<not> is_ok (parse_members n [])"
proof -
  show v: "\<not> is_ok (parse_val n [])" for n by (cases n) (simp_all add: is_ok_def)
  show "\<not> is_ok (parse_elems n [])"
    using v [of "n - 1"] by (cases n) (auto simp: is_ok_def simp del: parse_val.simps split: sum.splits)
  show "\<not> is_ok (parse_members n [])" by (cases n) (simp_all add: is_ok_def)
qed

lemma skip_prefix: "p @ q = c # cs \<Longrightarrow> \<not> json_ws c \<Longrightarrow> skip_ws p = p"
  by (cases p) (auto simp: skip_ws_id, simp add: skip_ws_def)

text \<open>
  The tail of a container: \<open>cl\<close> closes it, \<open>rest\<close> is the text of its other parts. After a value
  that was read completely, a cut tail gives an error when cut tails of the other parts do.
\<close>

lemma cut_tail:
  assumes "p @ q = (if more then 44 # gap @ rest else [cl])" "q \<noteq> []" "cl \<noteq> 44" "list_all json_ws gap"
    and "more \<Longrightarrow> \<exists>c cs. rest = c # cs \<and> \<not> json_ws c" "\<not> is_ok (parse [])"
    and "\<And>p'. more \<Longrightarrow> p' @ q = rest \<Longrightarrow> p = 44 # gap @ p' \<Longrightarrow> \<not> is_ok (parse p')"
  shows "skip_ws p = [] \<or> (\<exists>r. skip_ws p = 44 # r \<and> \<not> is_ok (parse (skip_ws r)))"
proof (cases p)
  case Nil
  then show ?thesis by (simp add: skip_ws_def)
next
  case (Cons c p1)
  with assms(1,2) have m: "more" "c = 44" "p1 @ q = gap @ rest" by (auto split: if_splits)
  from m(3) assms(2) show ?thesis
  proof (cases rule: prefix_cases)
    case (left q')
    then have "skip_ws p1 = []" using assms(4) by (simp add: skip_ws_def dropWhile_eq_Nil_conv list_all_iff)
    then show ?thesis using Cons m(2) assms(6) by simp
  next
    case (right p2)
    with Cons m have p: "p = 44 # gap @ p2" "p2 @ q = rest" by auto
    with assms(5) m(1) have "skip_ws p2 = p2" using skip_prefix by blast
    with p assms(7) [OF m(1) p(2,1)] show ?thesis by (simp add: skip_ws_gap [OF assms(4)])
  qed
qed

context json_writer
begin

lemma elems_cut:
  assumes "\<forall>v \<in> set vs. fits v \<and> cut wr v" "traverse wr vs = Inr ss" "vs \<noteq> []"
    and "p @ q = join (44 # iw) ss @ [93]" "q \<noteq> []" "2 * length p + 2 \<le> n"
  shows "\<not> is_ok (parse_elems n p)"
  using assms
proof (induction vs arbitrary: ss p n)
  case (Cons v vs)
  then obtain s ss' where s: "wr v = Inr s" "traverse wr vs = Inr ss'" "ss = s # ss'"
    by (auto simp: res_simps)
  obtain m where m: "n = Suc m" using Cons.prems(6) by (cases n) auto
  have v: "fits v" "cut wr v" using Cons.prems(1) by auto
  let ?tl = "join (44 # iw) ss' @ [93]"
  have more: "ss' \<noteq> [] \<longleftrightarrow> vs \<noteq> []" using traverse_length [OF s(2)] by auto
  have "p @ q = s @ (if ss' \<noteq> [] then 44 # iw @ ?tl else [93])"
    using Cons.prems(4) s(3) by (simp add: join_Cons)
  then show ?case using Cons.prems(5)
  proof (cases rule: prefix_cases)
    case (left q')
    then have "case parse_val m p of Inl _ \<Rightarrow> True | Inr (_, r) \<Rightarrow> stuck r"
      using v(2) s(1) Cons.prems(6) m unfolding cut_def by auto
    then show ?thesis using m by (auto simp: is_ok_def stuck_def simp del: parse_val.simps split: sum.splits list.splits)
  next
    case (right p')
    have "delim p'" using right(2) by (cases p') (auto simp: delim_def is_digit_def split: if_splits)
    moreover obtain m' where "m = Suc m'" "2 * length s \<le> m'"
      using Cons.prems(6) m right(1) by (cases m) auto
    ultimately have 1: "parse_val m p = Inr (v, p')"
      using parses_ok [OF v(1)] s(1) right(1) unfolding parses_def by blast
    have "skip_ws p' = [] \<or> (\<exists>r. skip_ws p' = 44 # r \<and> \<not> is_ok (parse_elems m (skip_ws r)))"
    proof (rule cut_tail [OF right(2) Cons.prems(5) _ gaps(1)])
      show "\<exists>c cs. ?tl = c # cs \<and> \<not> json_ws c" if ne: "ss' \<noteq> []"
      proof -
        obtain v' vs' s' ss'' where "vs = v' # vs'" "wr v' = Inr s'" "ss' = s' # ss''"
          using ne more s(2) by (cases vs) (auto simp: res_simps)
        then show ?thesis using write_head [of v' s'] Cons.prems(1) by (cases ss'') auto
      qed
      show "\<not> is_ok (parse_elems m p2)" if "ss' \<noteq> []" "p2 @ q = ?tl" "p' = 44 # iw @ p2" for p2
        by (rule Cons.IH [OF _ s(2)]) (use that more Cons.prems m right(1) in auto)
    qed (use parse_nil in auto)
    then show ?thesis using m 1 unfolding not_ok by (auto simp del: parse_val.simps)
  qed
qed simp

lemma members_step:
  "scalar_str k \<Longrightarrow> parse_members (Suc n) (quote_with esc k @ 58 # r1) =
    rbind (parse_val n (skip_ws r1)) (\<lambda>(v, r).
      case skip_ws r of [] \<Rightarrow> Inl JSONDecodeError
      | c # r' \<Rightarrow> if c = 125 then Inr ([(k, v)], r')
          else if c = 44 then rbind (parse_members n (skip_ws r')) (\<lambda>(kvs, r''). Inr ((k, v) # kvs, r''))
          else Inl JSONDecodeError)"
  by (simp add: quote_with_def scan_str_quote)

text \<open>A member that is cut before its value.\<close>

lemma member_cut_early:
  assumes "scalar_str k" "p @ q = quote_with esc k @ 58 # kw @ t" "q \<noteq> []" "\<And>p'. p \<noteq> quote_with esc k @ 58 # kw @ p'"
  shows "\<not> is_ok (parse_members n p)"
proof (cases n)
  case 0
  then show ?thesis by (simp add: is_ok_def)
next
  case (Suc m)
  from assms(2,3) show ?thesis
  proof (cases rule: prefix_cases)
    case (left q')
    then have "p = [] \<or> (\<exists>cs. p = 34 # cs \<and> scan_str cs = None)" using quote_cut [OF assms(1)] by auto
    then show ?thesis using Suc by (auto simp: is_ok_def)
  next
    case (right p')
    show ?thesis
    proof (cases p')
      case Nil
      have "skip_ws [] = []" by (simp add: skip_ws_def)
      with Nil right(1) Suc assms(1) show ?thesis
        using scan_str_quote [OF assms(1), of "[]"] by (simp add: is_ok_def quote_with_def)
    next
      case (Cons c p1)
      with right(2) have p1: "p' = 58 # p1" "p1 @ q = kw @ t" by auto
      from p1(2) assms(3) have "skip_ws p1 = []"
      proof (cases rule: prefix_cases)
        case (left q')
        then show ?thesis using gaps(2) by (simp add: skip_ws_def dropWhile_eq_Nil_conv list_all_iff)
      next
        case (right p2)
        with p1 assms(4) [of p2] \<open>p = quote_with esc k @ p'\<close> show ?thesis by simp
      qed
      with right(1) p1(1) Suc members_step [OF assms(1), of m p1] parse_nil(1) [of m] show ?thesis
        unfolding not_ok by (auto simp del: parse_members.simps parse_val.simps)
    qed
  qed
qed

lemma members_cut:
  assumes "\<forall>(k, v) \<in> set d. fits v \<and> cut wr v \<and> scalar_str k" "traverse member d = Inr ss" "d \<noteq> []"
    and "p @ q = join (44 # iw) ss @ [125]" "q \<noteq> []" "2 * length p + 2 \<le> n"
  shows "\<not> is_ok (parse_members n p)"
  using assms
proof (induction d arbitrary: ss p n)
  case (Cons kv d)
  obtain k v where kv: "kv = (k, v)" by (cases kv)
  with Cons.prems obtain s ss' where s: "wr v = Inr s" "traverse member d = Inr ss'"
      "ss = (quote_with esc k @ 58 # kw @ s) # ss'"
    by (auto simp: res_simps member_text_def)
  obtain m where m: "n = Suc m" using Cons.prems(6) by (cases n) auto
  have v: "fits v" "cut wr v" "scalar_str k" using Cons.prems(1) kv by auto
  let ?tl = "join (44 # iw) ss' @ [125]"
  have more: "ss' \<noteq> [] \<longleftrightarrow> d \<noteq> []" using traverse_length [OF s(2)] by auto
  have pq: "p @ q = quote_with esc k @ 58 # kw @ s @ (if ss' \<noteq> [] then 44 # iw @ ?tl else [125])"
    using Cons.prems(4) s(3) by (simp add: join_Cons)
  show ?case
  proof (cases "\<exists>p0. p = quote_with esc k @ 58 # kw @ p0")
    case False
    with member_cut_early [OF v(3) pq Cons.prems(5)] show ?thesis by blast
  next
    case True
    then obtain p0 where p: "p = quote_with esc k @ 58 # kw @ p0" by blast
    with pq have p0: "p0 @ q = s @ (if ss' \<noteq> [] then 44 # iw @ ?tl else [125])" by simp
    obtain c cs where "s = c # cs" "\<not> json_ws c" using write_head [OF s(1) v(1)] by blast
    with p0 have ws: "skip_ws (kw @ p0) = p0" by (simp add: skip_ws_gap [OF gaps(2)] skip_prefix)
    have step: "parse_members n p = rbind (parse_val m p0) (\<lambda>(v, r).
      case skip_ws r of [] \<Rightarrow> Inl JSONDecodeError
      | c # r' \<Rightarrow> if c = 125 then Inr ([(k, v)], r')
          else if c = 44 then rbind (parse_members m (skip_ws r')) (\<lambda>(kvs, r''). Inr ((k, v) # kvs, r''))
          else Inl JSONDecodeError)"
      unfolding p m using members_step [OF v(3), of m "kw @ p0"] ws by simp
    from p0 Cons.prems(5) show ?thesis
    proof (cases rule: prefix_cases)
      case (left q')
      then have "case parse_val m p0 of Inl _ \<Rightarrow> True | Inr (_, r) \<Rightarrow> stuck r"
        using v(2) s(1) Cons.prems(6) m p unfolding cut_def by auto
      then show ?thesis unfolding step
        by (auto simp: is_ok_def stuck_def simp del: parse_val.simps split: sum.splits list.splits)
    next
      case (right p')
      have "delim p'" using right(2) by (cases p') (auto simp: delim_def is_digit_def split: if_splits)
      moreover obtain m' where "m = Suc m'" "2 * length s \<le> m'"
        using Cons.prems(6) m right(1) p by (cases m) auto
      ultimately have 1: "parse_val m p0 = Inr (v, p')"
        using parses_ok [OF v(1)] s(1) right(1) unfolding parses_def by blast
      have "skip_ws p' = [] \<or> (\<exists>r. skip_ws p' = 44 # r \<and> \<not> is_ok (parse_members m (skip_ws r)))"
      proof (rule cut_tail [OF right(2) Cons.prems(5) _ gaps(1)])
        show "\<exists>c cs. ?tl = c # cs \<and> \<not> json_ws c" if ne: "ss' \<noteq> []"
        proof -
          obtain k' v' d' where "d = (k', v') # d'" using ne more by (cases d) auto
          with s(2) obtain t ss'' where "ss' = (quote_with esc k' @ t) # ss''" by (auto simp: res_simps member_text_def)
          then show ?thesis by (cases ss'') (simp_all add: quote_with_def json_ws_def)
        qed
        show "\<not> is_ok (parse_members m p2)" if "ss' \<noteq> []" "p2 @ q = ?tl" "p' = 44 # iw @ p2" for p2
          by (rule Cons.IH [OF _ s(2)]) (use that more Cons.prems m right(1) p in auto)
      qed (use parse_nil in auto)
      then show ?thesis unfolding step using 1 unfolding not_ok by (auto simp del: parse_val.simps)
    qed
  qed
qed simp

text \<open>A container that is cut is not read, whatever part of it was left.\<close>

lemma list_cut:
  assumes "\<forall>v \<in> set vs. cut wr v" "fits (PList vs)" "wr (PList vs) = Inr (p @ q)" "q \<noteq> []" "2 * length p + 1 \<le> n"
  shows "\<not> is_ok (parse_val n p)"
proof -
  obtain m where m: "n = Suc m" using assms(5) by (cases n) auto
  from assms(3) obtain ss where ss: "traverse wr vs = Inr ss" "p @ q = 91 # join (44 # iw) ss @ [93]"
    by (auto simp: res_simps)
  show ?thesis
  proof (cases p)
    case Nil
    then show ?thesis using parse_nil(1) by simp
  next
    case (Cons c p1)
    then have p: "p = 91 # p1" "p1 @ q = join (44 # iw) ss @ [93]" using ss(2) by auto
    show ?thesis
    proof (cases vs)
      case Nil
      with ss p assms(4) have "p1 = []" by (cases p1) auto
      then show ?thesis using p m by (simp add: is_ok_def skip_ws_def)
    next
      case (Cons v vs')
      with ss obtain t ss' where t: "wr v = Inr t" "ss = t # ss'" by (auto simp: res_simps)
      obtain c cs where c: "join (44 # iw) ss = c # cs" "\<not> json_ws c" "c \<noteq> 93"
        using write_head [OF t(1)] assms(2) Cons t(2) by (cases ss') auto
      then have "skip_ws p1 = p1" using p(2) skip_prefix by fastforce
      moreover have "p1 = [] \<or> (\<exists>r. p1 = c # r)" using p(2) c(1) by (cases p1) auto
      moreover have "\<not> is_ok (parse_elems m p1)"
        by (rule elems_cut [OF _ ss(1) _ p(2) assms(4)]) (use assms(1,2,5) Cons p(1) m in \<open>auto simp: list_all_iff\<close>)
      ultimately show ?thesis using p(1) m c(3) unfolding not_ok by (auto simp del: parse_elems.simps)
    qed
  qed
qed

lemma dict_cut:
  assumes "\<forall>(k, v) \<in> set d. cut wr v" "fits (PDict d)" "wr (PDict d) = Inr (p @ q)" "q \<noteq> []" "2 * length p + 1 \<le> n"
  shows "\<not> is_ok (parse_val n p)"
proof -
  obtain m where m: "n = Suc m" using assms(5) by (cases n) auto
  from assms(3) obtain ss where ss: "traverse member d = Inr ss" "p @ q = 123 # join (44 # iw) ss @ [125]"
    by (auto simp: res_simps member_text_def)
  show ?thesis
  proof (cases p)
    case Nil
    then show ?thesis using parse_nil(1) by simp
  next
    case (Cons c p1)
    then have p: "p = 123 # p1" "p1 @ q = join (44 # iw) ss @ [125]" using ss(2) by auto
    show ?thesis
    proof (cases d)
      case Nil
      with ss p assms(4) have "p1 = []" by (cases p1) auto
      then show ?thesis using p m by (simp add: is_ok_def skip_ws_def)
    next
      case (Cons kv d')
      then obtain k v where "d = (k, v) # d'" by (cases kv) auto
      with ss obtain t ss' where "ss = (quote_with esc k @ t) # ss'" by (auto simp: res_simps member_text_def)
      then obtain cs where c: "join (44 # iw) ss = 34 # cs" by (cases ss') (auto simp: quote_with_def)
      then have "skip_ws p1 = p1" using p(2) skip_prefix [of p1 q 34] by (auto simp: json_ws_def)
      moreover have "p1 = [] \<or> (\<exists>r. p1 = 34 # r)" using p(2) c(1) by (cases p1) auto
      moreover have "\<not> is_ok (parse_members m p1)"
        by (rule members_cut [OF _ ss(1) _ p(2) assms(4)]) (use assms(1,2,5) Cons p(1) m in \<open>auto simp: list_all_iff\<close>)
      ultimately show ?thesis using p(1) m unfolding not_ok by (auto simp del: parse_members.simps)
    qed
  qed
qed

lemma not_ok_stuck: "\<not> is_ok r \<Longrightarrow> case r of Inl _ \<Rightarrow> True | Inr (_, r') \<Rightarrow> stuck r'"
  by (auto simp: not_ok)

lemma cutI:
  assumes "\<And>p q n. wr v = Inr (p @ q) \<Longrightarrow> q \<noteq> [] \<Longrightarrow> 2 * length p + 1 \<le> n \<Longrightarrow> \<not> is_ok (parse_val n p)"
  shows "cut wr v"
  unfolding cut_def using assms by (auto intro: not_ok_stuck)

lemma cut_ok: "fits v \<Longrightarrow> cut wr v"
proof (induction v)
  case (PList vs)
  then have "\<forall>v \<in> set vs. cut wr v" by (auto simp: list_all_iff)
  then show ?case by (intro cutI list_cut [OF _ PList.prems])
next
  case (PDict d)
  have "\<forall>(k, v) \<in> set d. cut wr v" using PDict by (fastforce simp: list_all_iff)
  then show ?case by (intro cutI dict_cut [OF _ PDict.prems])
qed (simp_all add: cut_int cut_words cut_float cut_str)

end

end
