(* ===== verification/JsonStream.thy ===== *)
theory JsonStream
  imports JsonFraming
begin

section \<open>Parts of a stream of documents\<close>

text \<open>
  A reader of a stream of documents that are dictionaries, without knowing where one ends, reads any part
  of the stream. The theory shows which parts are documents of their own: the documents of the stream, the
  dictionaries inside them, and what can be read inside their strings; the last kind
  has keys of punctuation only. It does so for every writer of JSON.
\<close>

subsection \<open>Inside and outside of strings\<close>

datatype text_mode = Outside | Inside | Escaped

text \<open>
  The mode in which a text leaves a reader that only follows the quotes. Outside of strings there is no
  backslash and no \<open>w\<close>, and a brace is never escaped.
\<close>

fun text_step :: "text_mode \<Rightarrow> int \<Rightarrow> text_mode option" where
  "text_step Outside c = (if c = 34 then Some Inside else if c = 92 \<or> c = 119 then None else Some Outside)"
| "text_step Inside c = Some (if c = 34 then Outside else if c = 92 then Escaped else Inside)"
| "text_step Escaped c = (if c = 123 then None else Some Inside)"

fun text_run :: "text_mode \<Rightarrow> pystr \<Rightarrow> text_mode option" where
  "text_run m [] = Some m"
| "text_run m (c # cs) = (case text_step m c of None \<Rightarrow> None | Some m' \<Rightarrow> text_run m' cs)"

lemma text_run_append: "text_run m (p @ q) = (case text_run m p of None \<Rightarrow> None | Some m' \<Rightarrow> text_run m' q)"
  by (induction p arbitrary: m) (auto split: option.split)

lemma text_run_part: "text_run m (p @ q) \<noteq> None \<Longrightarrow> \<exists>m'. text_run m p = Some m' \<and> text_run m' q \<noteq> None"
  by (auto simp: text_run_append split: option.splits)

lemma outside_run: "list_all (\<lambda>c. c \<noteq> 34 \<and> c \<noteq> 92 \<and> c \<noteq> 119) s \<Longrightarrow> text_run Outside s = Some Outside"
  by (induction s) auto

lemma inside_run: "list_all (\<lambda>c. c \<noteq> 34 \<and> c \<noteq> 92) p \<Longrightarrow> text_run Inside (p @ r) = text_run Inside r"
  by (induction p) auto

text \<open>A string literal is left only at its end.\<close>

lemma hex_digit_range: "0 \<le> n \<Longrightarrow> n < 16 \<Longrightarrow> hex_digit n \<in> {48..102} - {92}"
  by (auto simp: hex_digit_def)

lemma u_escape_inside:
  assumes "0 \<le> c" "c < 0x10000" "u_escape c = p @ q"
  shows "text_run Inside p \<in> {Some Inside, Some Escaped} \<and> (q = [] \<longrightarrow> text_run Inside p = Some Inside)"
proof -
  obtain a b d e where h: "u_escape c = [92, 117, a, b, d, e]" "{a, b, d, e} \<subseteq> {48..102} - {92}"
  proof -
    have "{hex_digit (c div 4096), hex_digit (c div 256 mod 16), hex_digit (c div 16 mod 16), hex_digit (c mod 16)} \<subseteq> {48..102} - {92}"
      using assms(1,2) hex_digit_range by (auto simp del: Diff_iff)
    with that show thesis unfolding u_escape_def by blast
  qed
  from h(1) assms(3) have "p \<in> {[], [92], [92, 117], [92, 117, a], [92, 117, a, b], [92, 117, a, b, d], [92, 117, a, b, d, e]}"
    "q = [] \<longrightarrow> p = [92, 117, a, b, d, e]"
    by (auto simp: Cons_eq_append_conv append_eq_Cons_conv)
  with h(2) show ?thesis by auto
qed

lemma char_form_inside:
  assumes "scalar c" "char_form c (p @ q)"
  shows "text_run Inside p \<in> {Some Inside, Some Escaped} \<and> (q = [] \<longrightarrow> text_run Inside p = Some Inside)"
  using assms(2)
proof (cases rule: char_form_cases)
  case plain
  then show ?thesis by (auto simp: append_eq_Cons_conv)
next
  case (letter e)
  then show ?thesis by (auto simp: append_eq_Cons_conv)
next
  case number
  moreover have "0 \<le> c" using assms(1) by (auto simp: scalar_def)
  ultimately show ?thesis using u_escape_inside [of c p q] by simp
next
  case pair
  let ?a = "0xD800 + (c - 0x10000) div 1024" and ?b = "0xDC00 + (c - 0x10000) mod 1024"
  note r = pair_range [OF assms(1) pair(2)]
  have range: "0 \<le> ?a" "?a < 0x10000" "0 \<le> ?b" "?b < 0x10000" using r by linarith+
  note a = u_escape_inside [OF range(1,2)] and b = u_escape_inside [OF range(3,4)]
  have e: "p @ q = u_escape ?a @ u_escape ?b" using pair(1) by (simp add: pair_escape_def)
  show ?thesis
  proof (cases "q = []")
    case True
    then show ?thesis using e a [of _ "[]"] b [of _ "[]"] by (auto simp: text_run_append)
  next
    case False
    from e False show ?thesis
    proof (cases rule: prefix_cases)
      case (left q')
      then show ?thesis using a False by blast
    next
      case (right p')
      then show ?thesis using a [of _ "[]"] b [of p' q] False by (auto simp: text_run_append)
    qed
  qed
qed

context json_writer
begin

lemma esc_inside:
  "scalar c \<Longrightarrow> esc c = p @ q \<Longrightarrow>
    text_run Inside p \<in> {Some Inside, Some Escaped} \<and> (q = [] \<longrightarrow> text_run Inside p = Some Inside)"
  using char_form_inside [of c p q] esc_form [of c] by simp

lemma string_inside:
  "scalar_str s \<Longrightarrow> concat (map esc s) = p @ q \<Longrightarrow>
    text_run Inside p \<in> {Some Inside, Some Escaped} \<and> (q = [] \<longrightarrow> text_run Inside p = Some Inside)"
proof (induction s arbitrary: p)
  case (Cons c s)
  then have e: "p @ q = esc c @ concat (map esc s)" "scalar c" "scalar_str s" by auto
  have c: "text_run Inside (esc c) = Some Inside" using esc_inside [OF e(2), of _ "[]"] by simp
  show ?case
  proof (cases "q = []")
    case True
    then show ?thesis using Cons.IH [OF e(3), of "concat (map esc s)"] e(1) c
      by (auto simp: text_run_append)
  next
    case False
    from e(1) False show ?thesis
    proof (cases rule: prefix_cases)
      case (left q')
      then show ?thesis using esc_inside [OF e(2)] False by blast
    next
      case (right p')
      then show ?thesis using Cons.IH [OF e(3), of p'] c False by (auto simp: text_run_append)
    qed
  qed
qed simp

lemma quote_run: "scalar_str s \<Longrightarrow> text_run Outside (quote_with esc s) = Some Outside"
  using string_inside [of s _ "[]"] by (auto simp: quote_with_def text_run_append)

lemma quote_part:
  assumes "scalar_str s" "quote_with esc s = p @ c # q" "text_run Outside p = Some Outside"
  shows "p = [] \<and> c = 34"
proof (cases p)
  case Nil
  then show ?thesis using assms(2) by (simp add: quote_with_def)
next
  case (Cons d p')
  then have d: "d = 34" "p' @ c # q = concat (map esc s) @ [34]" using assms(2) by (auto simp: quote_with_def)
  from d(2) have "\<exists>q'. concat (map esc s) = p' @ q'"
    by (cases rule: prefix_cases) (auto simp: Cons_eq_append_conv append_eq_Cons_conv)
  with string_inside [OF assms(1)] assms(3) Cons d(1) show ?thesis by fastforce
qed

end

subsection \<open>The dictionaries inside a document\<close>

text \<open>All values strictly inside a value.\<close>

fun parts :: "pyval \<Rightarrow> pyval list" where
  "parts (PList vs) = concat (map (\<lambda>v. v # parts v) vs)"
| "parts (PDict d) = concat (map (\<lambda>(k, v). v # parts v) d)"
| "parts _ = []"

lemma parts_ok: "json_fits fok v \<Longrightarrow> w \<in> set (parts v) \<Longrightarrow> json_fits fok w"
proof (induction v)
  case (PList vs)
  then show ?case by (auto simp: list_all_iff)
next
  case (PDict d)
  then show ?case by (fastforce simp: list_all_iff)
qed simp_all

text \<open>The text \<open>x\<close> starts with the text of one of the values \<open>W\<close>.\<close>

definition starts_part :: "(pyval \<Rightarrow> pystr res) \<Rightarrow> pyval set \<Rightarrow> pystr \<Rightarrow> bool" where
  "starts_part wrt W x \<longleftrightarrow> (\<exists>w \<in> W. \<exists>t r. wrt w = Inr t \<and> x = t @ r \<and> delim r)"

lemma starts_part_append: "starts_part wrt W x \<Longrightarrow> delim y \<Longrightarrow> starts_part wrt W (x @ y)"
  unfolding starts_part_def
proof (elim bexE exE conjE)
  fix w t r assume a: "delim y" "w \<in> W" "wrt w = Inr t" "x = t @ r" "delim r"
  have "delim (r @ y)" using a(1,5) by (cases r) (auto simp: delim_def)
  with a show "\<exists>w \<in> W. \<exists>t r. wrt w = Inr t \<and> x @ y = t @ r \<and> delim r" by auto
qed

lemma starts_part_mono: "starts_part wrt W x \<Longrightarrow> W \<subseteq> V \<Longrightarrow> starts_part wrt V x"
  by (auto simp: starts_part_def)

text \<open>
  In the text \<open>s\<close> every brace outside of strings starts the text of a value of \<open>W\<close>, but for one at the start of
  \<open>s\<close> if \<open>first\<close>.
\<close>

definition braced :: "(pyval \<Rightarrow> pystr res) \<Rightarrow> bool \<Rightarrow> pyval set \<Rightarrow> pystr \<Rightarrow> bool" where
  "braced wrt first W s \<longleftrightarrow> text_run Outside s = Some Outside \<and>
     (\<forall>p q. s = p @ 123 # q \<longrightarrow> text_run Outside p = Some Outside \<longrightarrow> (first \<longrightarrow> p \<noteq> []) \<longrightarrow> starts_part wrt W (123 # q))"

lemma braced_atom:
  assumes "list_all (\<lambda>c. c \<noteq> 34 \<and> c \<noteq> 92 \<and> c \<noteq> 119) s" "123 \<notin> set s"
  shows "braced wrt first W s"
proof -
  have "s \<noteq> p @ 123 # q" for p q using assms(2) by auto
  then show ?thesis unfolding braced_def using outside_run [OF assms(1)] by blast
qed

lemma braced_append:
  assumes "braced wrt first W s" "braced wrt first' W t" "first' \<longrightarrow> (\<forall>x. t \<noteq> 123 # x)" "delim t \<or> 123 \<notin> set s \<or> first \<and> 123 \<notin> set (tl s)"
  shows "braced wrt first W (s @ t)"
  unfolding braced_def
proof (intro conjI allI impI)
  show "text_run Outside (s @ t) = Some Outside" using assms(1,2) by (simp add: braced_def text_run_append)
next
  fix p q assume a: "s @ t = p @ 123 # q" "text_run Outside p = Some Outside" "first \<longrightarrow> p \<noteq> []"
  have "p @ 123 # q = s @ t" "123 # q \<noteq> []" using a(1) by simp_all
  then show "starts_part wrt W (123 # q)"
  proof (cases rule: prefix_cases)
    case (left q')
    then obtain q1 where q1: "q' = 123 # q1" "123 # q = q' @ t" using a(1) by (cases q') auto
    then have "123 \<in> set s" "p \<noteq> [] \<longrightarrow> 123 \<in> set (tl s)" using left(1) by (simp, cases p) auto
    moreover have "starts_part wrt W (123 # q1)" using assms(1) left(1) a(2,3) q1(1) unfolding braced_def by blast
    ultimately show ?thesis using starts_part_append [of wrt W "123 # q1" t] assms(4) a(3) q1 by auto
  next
    case (right p')
    then have "text_run Outside p' = Some Outside" using a(2) assms(1) by (simp add: braced_def text_run_append)
    moreover have "first' \<longrightarrow> p' \<noteq> []" using right(2) assms(3) by (cases p') auto
    ultimately show ?thesis using assms(2) right(2) unfolding braced_def by metis
  qed
qed

text \<open>A separator and the white space after it.\<close>

lemma gap_braced: "c \<in> {44, 58} \<Longrightarrow> list_all json_ws g \<Longrightarrow> braced wrt first W (c # g) \<and> 123 \<notin> set (c # g)"
  by (intro conjI braced_atom) (auto simp: list_all_iff json_ws_def)

lemma braced_self:
  assumes "braced wrt True W s" "wrt v = Inr s" "insert v W \<subseteq> V"
  shows "braced wrt False V s"
  unfolding braced_def
proof (intro conjI allI impI)
  show "text_run Outside s = Some Outside" using assms(1) by (simp add: braced_def)
next
  fix p q assume a: "s = p @ 123 # q" "text_run Outside p = Some Outside"
  show "starts_part wrt V (123 # q)"
  proof (cases "p = []")
    case True
    then have "starts_part wrt {v} (123 # q)" using a(1) assms(2) by (auto simp: starts_part_def)
    then show ?thesis by (rule starts_part_mono) (use assms(3) in simp)
  next
    case False
    then have "starts_part wrt W (123 # q)" using a assms(1) by (auto simp: braced_def)
    then show ?thesis by (rule starts_part_mono) (use assms(3) in blast)
  qed
qed

lemma num_braced: "list_all num_char s \<Longrightarrow> braced wrt first W s"
  by (rule braced_atom) (auto simp: list_all_iff num_char_def is_digit_def)

lemma word_braced:
  "s \<in> {u ''null'', u ''true'', u ''false'', u ''NaN'', u ''Infinity'', u ''-Infinity''} \<Longrightarrow> braced wrt first W s"
  by (rule braced_atom) auto

context json_writer
begin

lemma braced_quote:
  assumes "scalar_str s"
  shows "braced wr first W (quote_with esc s)"
proof -
  have "\<not> (quote_with esc s = p @ 123 # q \<and> text_run Outside p = Some Outside)" for p q
    using quote_part [OF assms, of p 123 q] by auto
  then show ?thesis unfolding braced_def using quote_run [OF assms] by blast
qed

lemma braced_join:
  "\<forall>s \<in> set ss. braced wr False W s \<Longrightarrow> braced wr False W (join (44 # iw) ss)"
proof (induction ss)
  case Nil
  show ?case using braced_atom [of "[]"] by simp
next
  case (Cons s ss)
  show ?case
  proof (cases "ss = []")
    case False
    have "braced wr False W ((44 # iw) @ join (44 # iw) ss)"
      by (rule braced_append [where first' = False]) (use Cons gap_braced [OF _ gaps(1)] in auto)
    then have "braced wr False W (s @ (44 # iw) @ join (44 # iw) ss)"
      by (rule braced_append [where first' = False, rotated]) (use Cons in auto)
    then show ?thesis using False by (simp add: join_Cons)
  qed (use Cons in simp)
qed

text \<open>A container: an opening character, the parts and a closing character.\<close>

lemma braced_container:
  assumes "\<forall>s \<in> set ss. braced wr False W s" "c = 91 \<or> c = 123 \<and> first" "cl = 93 \<or> cl = 125"
  shows "braced wr first W (c # join (44 # iw) ss @ [cl])"
proof -
  have c: "braced wr first W [c]"
    using assms(2) unfolding braced_def by (auto simp: Cons_eq_append_conv)
  have "braced wr False W (join (44 # iw) ss @ [cl])"
    by (rule braced_append [where first' = False])
      (use assms(3) braced_join [OF assms(1)] in \<open>auto intro: braced_atom\<close>)
  then have "braced wr first W ([c] @ join (44 # iw) ss @ [cl])"
    by (rule braced_append [OF c]) (use assms(2) in auto)
  then show ?thesis by simp
qed

lemma float_braced: "fok f \<Longrightarrow> braced wr first W (ftext f)"
proof (cases "scan_num (ftext f) = Some (PFloat f, [])")
  case True
  then show ?thesis using scan_num_split num_braced by fastforce
next
  case False
  moreover assume "fok f"
  ultimately have "ftext f \<in> {u ''NaN'', u ''Infinity'', u ''-Infinity''}" using fl_form unfolding float_form_def by blast
  then show ?thesis by (intro word_braced) auto
qed

lemma member_braced:
  assumes "scalar_str k" "braced wr False W s"
  shows "braced wr False W (quote_with esc k @ 58 # kw @ s)"
proof -
  have "braced wr False W ((58 # kw) @ s)"
    by (rule braced_append [OF _ assms(2)]) (use gap_braced [OF _ gaps(2)] in auto)
  then show ?thesis by (intro braced_append [OF braced_quote [OF assms(1)]]) (auto simp: delim_def is_digit_def)
qed

lemma braced_write: "fits v \<Longrightarrow> wr v = Inr s \<Longrightarrow> braced wr True (set (parts v)) s"
proof (induction v arbitrary: s)
  case (PBool b)
  then show ?case by (cases b) (auto intro: word_braced simp del: u_simps)
next
  case (PList vs)
  then obtain ss where ss: "traverse wr vs = Inr ss" "s = 91 # join (44 # iw) ss @ [93]" by (auto simp: res_simps)
  have "braced wr False (set (parts (PList vs))) t" if t: "t \<in> set ss" for t
  proof -
    obtain v where v: "v \<in> set vs" "wr v = Inr t" using traverse_set [OF ss(1) t] by blast
    then have "braced wr True (set (parts v)) t" using PList by (auto simp: list_all_iff)
    then show ?thesis by (rule braced_self [where wrt = wr, OF _ v(2)]) (use v(1) in auto)
  qed
  then show ?case unfolding ss(2) by (intro braced_container) simp_all
next
  case (PDict d)
  then obtain ss where ss: "traverse member d = Inr ss" "s = 123 # join (44 # iw) ss @ [125]"
    by (auto simp: res_simps member_text_def)
  have "braced wr False (set (parts (PDict d))) t" if t: "t \<in> set ss" for t
  proof -
    obtain k v t' where v: "(k, v) \<in> set d" "wr v = Inr t'" "t = quote_with esc k @ 58 # kw @ t'"
      using traverse_set [OF ss(1) t] by (auto simp: member_text_def res_simps)
    then have "braced wr True (set (parts v)) t'" "scalar_str k" using PDict by (fastforce simp: list_all_iff)+
    from braced_self [where wrt = wr, OF this(1) v(2), of "set (parts (PDict d))"] member_braced [OF this(2)] v(1,3)
    show ?thesis by fastforce
  qed
  then show ?case unfolding ss(2) by (intro braced_container) simp_all
qed (auto intro: word_braced num_braced num_char_str_of_int float_braced braced_quote)

text \<open>A text that starts with a brace is that of a dictionary.\<close>

lemma write_brace: "fits v \<Longrightarrow> wr v = Inr (123 # s) \<Longrightarrow> \<exists>d. v = PDict d"
proof (cases v)
  case (PInt i)
  moreover assume "wr v = Inr (123 # s)"
  ultimately show ?thesis using str_of_int_head [of i] by (auto simp: is_digit_def)
next
  case (PFloat f)
  moreover assume "fits v" "wr v = Inr (123 # s)"
  ultimately show ?thesis using float_head [of f] by (auto simp: is_digit_def)
qed (auto simp: quote_with_def res_simps split: if_splits)

end

subsection \<open>What a reader finds inside a string\<close>

lemma scan_str_inside:
  "scan_str s = Some (k, r) \<Longrightarrow> text_run Outside s \<noteq> None \<Longrightarrow> text_run Inside r \<noteq> None \<and> 119 \<notin> set k"
proof (induction s arbitrary: k rule: scan_str.induct)
  case (2 c cs)
  then have c: "c \<noteq> 92" "c \<noteq> 119" by (auto split: if_splits)
  show ?case
  proof (cases "c = 34")
    case True
    with "2.prems" show ?thesis by auto
  next
    case False
    with c have "str_step c cs = Some (c, cs) \<or> str_step c cs = None" by (simp add: str_step_def)
    with "2.prems" False c obtain k' where "scan_str cs = Some (k', r)" "k = c # k'" "str_step c cs = Some (c, cs)"
      by (auto split: option.splits)
    with "2.IH" [OF False] "2.prems"(2) False c show ?thesis by auto
  qed
qed simp

lemma skip_ws_inside: "text_run Inside (skip_ws s) = text_run Inside s"
  by (induction s) (auto simp: skip_ws_def json_ws_def)

definition inside :: "pystr \<Rightarrow> bool" where
  "inside s \<longleftrightarrow> text_run Inside s \<noteq> None"

lemma inside_Cons: "inside (c # s) \<Longrightarrow> c \<noteq> 34 \<Longrightarrow> c \<noteq> 92 \<Longrightarrow> inside s"
  by (simp add: inside_def)

lemma inside_ws: "inside s \<Longrightarrow> inside (skip_ws s)" "inside s \<Longrightarrow> skip_ws s = r \<Longrightarrow> inside r"
  using skip_ws_inside by (auto simp: inside_def)

lemma inside_append: "inside (p @ r) \<Longrightarrow> list_all (\<lambda>c. c \<noteq> 34 \<and> c \<noteq> 92) p \<Longrightarrow> inside r"
  by (simp add: inside_def inside_run)

lemma startswith_inside:
  "startswith s w \<Longrightarrow> n = length w \<Longrightarrow> list_all (\<lambda>c. c \<noteq> 34 \<and> c \<noteq> 92) w \<Longrightarrow> inside s \<Longrightarrow> inside (drop n s)"
  unfolding startswith_def by (metis append_take_drop_id inside_append)

lemma scan_word_inside:
  assumes "scan_word s = Some (v, r)" "inside s"
  shows "inside r \<and> (\<forall>d. v \<noteq> PDict d)"
proof -
  have w: "startswith s (u ''null'') \<Longrightarrow> inside (drop 4 s)" "startswith s (u ''true'') \<Longrightarrow> inside (drop 4 s)"
    "startswith s (u ''false'') \<Longrightarrow> inside (drop 5 s)" "startswith s (u ''NaN'') \<Longrightarrow> inside (drop 3 s)"
    "startswith s (u ''Infinity'') \<Longrightarrow> inside (drop 8 s)" "startswith s (u ''-Infinity'') \<Longrightarrow> inside (drop 9 s)"
    using startswith_inside [of s "u ''null''" 4] startswith_inside [of s "u ''true''" 4]
      startswith_inside [of s "u ''false''" 5] startswith_inside [of s "u ''NaN''" 3]
      startswith_inside [of s "u ''Infinity''" 8] startswith_inside [of s "u ''-Infinity''" 9] assms(2)
    by simp_all
  have num: "inside r" if n: "scan_num s = Some (v, r)"
  proof -
    obtain p where "s = p @ r" "list_all num_char p" using scan_num_split [OF n] by blast
    with assms(2) show ?thesis
      by (intro inside_append [of p r]) (auto simp: list_all_iff num_char_def is_digit_def)
  qed
  have "inside r"
    using assms(1) w num unfolding scan_word_def by (simp del: u_simps split: if_splits option.splits)
  moreover have "v \<noteq> PDict d" for d
    using assms(1) by (auto simp: scan_word_def scan_num_def Let_def split: if_splits option.splits prod.splits sum.splits)
  ultimately show ?thesis by blast
qed

lemma scan_quoted_inside: "inside (34 # s) \<Longrightarrow> scan_str s = Some (k, r) \<Longrightarrow> inside r \<and> 119 \<notin> set k"
  using scan_str_inside [of s k r] by (simp add: inside_def)

text \<open>
  A reader that starts inside a string takes the strings for what is between them, and the other way round: it stays
  in that state, and every key it reads is a text from outside of strings.
\<close>

fun dict_keys :: "pyval \<Rightarrow> pystr set" where
  "dict_keys (PDict d) = fst ` set d"
| "dict_keys _ = {}"

lemma dict_of_keys: "fst ` set (dict_of kvs) \<subseteq> fst ` set kvs"
proof -
  have "fst ` set (foldl (\<lambda>d (k, v). dict_set k v d) d kvs) \<subseteq> fst ` set d \<union> fst ` set kvs" for d :: "(pystr \<times> pyval) list"
  proof (induction kvs arbitrary: d)
    case (Cons kv kvs)
    from Cons.IH [of "dict_set (fst kv) (snd kv) d"] show ?case by (cases kv) (auto simp: keys_dict_set)
  qed simp
  from this [of "[]"] show ?thesis by (simp add: dict_of_def)
qed

lemma parse_inside:
  "(\<forall>s v r. parse_val n s = Inr (v, r) \<longrightarrow> inside s \<longrightarrow> inside r \<and> (\<forall>k \<in> dict_keys v. 119 \<notin> set k)) \<and>
   (\<forall>s vs r. parse_elems n s = Inr (vs, r) \<longrightarrow> inside s \<longrightarrow> inside r) \<and>
   (\<forall>s kvs r. parse_members n s = Inr (kvs, r) \<longrightarrow> inside s \<longrightarrow> inside r \<and> (\<forall>k \<in> fst ` set kvs. 119 \<notin> set k))"
proof (induction n)
  case 0
  then show ?case by simp
next
  case (Suc n)
  then have v: "\<And>s v r. parse_val n s = Inr (v, r) \<Longrightarrow> inside s \<Longrightarrow> inside r"
    and e: "\<And>s vs r. parse_elems n s = Inr (vs, r) \<Longrightarrow> inside s \<Longrightarrow> inside r"
    and m: "\<And>s kvs r. parse_members n s = Inr (kvs, r) \<Longrightarrow> inside s \<Longrightarrow> inside r \<and> (\<forall>k \<in> fst ` set kvs. 119 \<notin> set k)"
    by blast+
  have c: "inside r" if "inside s" "skip_ws s = c # r" "c \<noteq> 34" "c \<noteq> 92" for s c r
    using inside_Cons inside_ws(2) that by blast
  have "inside r \<and> (\<forall>k \<in> dict_keys w. 119 \<notin> set k)" if p: "parse_val (Suc n) s = Inr (w, r)" "inside s" for s w r
  proof (cases s)
    case (Cons c cs)
    consider "c = 34" | "c = 123" | "c = 91" | "c \<notin> {34, 123, 91}" by blast
    then show ?thesis
    proof cases
      case 1
      with p Cons show ?thesis using scan_quoted_inside by (auto split: option.splits)
    next
      case 2
      then have i: "inside (skip_ws cs)" using p(2) Cons inside_Cons inside_ws(1) by simp
      show ?thesis
      proof (cases "skip_ws cs")
        case (Cons d ds)
        show ?thesis
        proof (cases "d = 125")
          case True
          with p(1) \<open>s = c # cs\<close> 2 i Cons show ?thesis using inside_Cons [of d ds] by auto
        next
          case False
          with p(1) \<open>s = c # cs\<close> 2 Cons obtain kvs where k: "parse_members n (d # ds) = Inr (kvs, r)" "w = PDict (dict_of kvs)"
            by (auto simp: res_simps simp del: parse_members.simps)
          have "inside r" "\<forall>k \<in> fst ` set kvs. 119 \<notin> set k" using m [OF k(1)] i Cons by simp_all
          moreover have "dict_keys w \<subseteq> fst ` set kvs" using dict_of_keys k(2) by simp
          ultimately show ?thesis by blast
        qed
      qed (use p(1) \<open>s = c # cs\<close> 2 in simp)
    next
      case 3
      then have i: "inside (skip_ws cs)" using p(2) Cons inside_Cons inside_ws(1) by simp
      show ?thesis
      proof (cases "skip_ws cs")
        case (Cons d ds)
        with p(1) \<open>s = c # cs\<close> 3 i show ?thesis using inside_Cons [of d ds] e [of "d # ds"]
          by (auto simp: res_simps simp del: parse_elems.simps split: if_splits)
      qed (use p(1) \<open>s = c # cs\<close> 3 in simp)
    next
      case 4
      with p(1) Cons have "scan_word s = Some (w, r)" by (auto split: option.splits)
      from scan_word_inside [OF this p(2)] show ?thesis by (cases w) auto
    qed
  qed (use p(1) in simp)
  moreover have "inside r" if "parse_elems (Suc n) s = Inr (w, r)" "inside s" for s w r
    using that by (auto simp: res_simps split: if_splits dest!: e v dest: c intro: inside_ws(1))
  moreover have "inside r \<and> (\<forall>k \<in> fst ` set w. 119 \<notin> set k)" if p: "parse_members (Suc n) s = Inr (w, r)" "inside s" for s w r
  proof (cases s)
    case (Cons q cs)
    then obtain k r0 where k: "q = 34" "scan_str cs = Some (k, r0)" using p(1) by (auto split: if_splits option.splits)
    then have r0: "inside r0" "119 \<notin> set k" using scan_quoted_inside p(2) Cons by auto
    obtain r1 where r1: "skip_ws r0 = 58 # r1" using p(1) Cons k by (auto split: if_splits list.splits)
    have i1: "inside (skip_ws r1)" using c [OF r0(1) r1] inside_ws(1) by simp
    obtain v' r2 d r3 where r2: "parse_val n (skip_ws r1) = Inr (v', r2)" "skip_ws r2 = d # r3"
        "d = 125 \<and> w = [(k, v')] \<and> r = r3 \<or> d = 44 \<and> (\<exists>kvs. parse_members n (skip_ws r3) = Inr (kvs, r) \<and> w = (k, v') # kvs)"
      using p(1) Cons k r1 by (auto simp: res_simps split: if_splits list.splits)
    have i3: "inside r3" using c [OF v [OF r2(1) i1] r2(2)] r2(3) by auto
    from r2(3) show ?thesis
    proof (elim disjE conjE exE)
      assume "w = [(k, v')]" "r = r3"
      with i3 r0(2) show ?thesis by simp
    next
      fix kvs assume a: "parse_members n (skip_ws r3) = Inr (kvs, r)" "w = (k, v') # kvs"
      from m [OF a(1) inside_ws(1) [OF i3]] a(2) r0(2) show ?thesis by simp
    qed
  qed (use p(1) in simp)
  ultimately show ?case by blast
qed

lemma parse_inside_keys:
  "parse_val n s = Inr (v, r) \<Longrightarrow> inside s \<Longrightarrow> k \<in> dict_keys v \<Longrightarrow> 119 \<notin> set k"
  using parse_inside by blast

subsection \<open>Which parts of a stream are documents\<close>

lemma parse_dict_head: "parse_val n s = Inr (PDict d, r) \<Longrightarrow> \<exists>cs. s = 123 # cs"
proof (cases n; cases s)
  fix m c cs assume a: "parse_val n s = Inr (PDict d, r)" "n = Suc m" "s = c # cs"
  have "\<And>r. scan_word s \<noteq> Some (PDict d, r)"
    by (auto simp: scan_word_def scan_num_def Let_def split: if_splits option.splits prod.splits sum.splits)
  with a show ?thesis by (auto simp: res_simps split: if_splits option.splits list.splits)
qed simp_all

text \<open>Where a brace of a stream stands.\<close>

lemma stream_position:
  "concat ss = a @ c # b \<Longrightarrow> \<exists>i < length ss. \<exists>p q. a = concat (take i ss) @ p \<and> ss ! i = p @ c # q \<and> b = q @ concat (drop (Suc i) ss)"
proof (induction ss arbitrary: a)
  case (Cons s ss)
  then have e: "a @ c # b = s @ concat ss" "c # b \<noteq> []" by simp_all
  from e show ?case
  proof (cases rule: prefix_cases)
    case (left q')
    then obtain q where "q' = c # q" "b = q @ concat ss" using e(1) by (cases q') auto
    with left show ?thesis by (intro exI [of _ 0]) simp
  next
    case (right p')
    from Cons.IH [OF right(2) [symmetric]] obtain i p q where
      "i < length ss" "p' = concat (take i ss) @ p" "ss ! i = p @ c # q" "b = q @ concat (drop (Suc i) ss)"
      by blast
    with right(1) show ?thesis by (intro exI [of _ "Suc i"]) simp
  qed
qed simp

text \<open>
  A stream of dictionaries: \<open>key\<close> is a key with a \<open>w\<close> that no dictionary inside of them has. A part of the stream
  that is read as a dictionary with this key is one of the documents.
\<close>

definition doc_text :: "(pyval \<Rightarrow> pystr res) \<Rightarrow> (pyval \<Rightarrow> bool) \<Rightarrow> pystr \<Rightarrow> pystr \<Rightarrow> bool" where
  "doc_text w ok key s \<longleftrightarrow> (\<exists>d. ok (PDict d) \<and> w (PDict d) = Inr s \<and> (\<forall>w \<in> set (parts (PDict d)). key \<notin> dict_keys w))"

context json_writer
begin

lemma doc_textD:
  assumes "doc_text wr fits key s"
  shows "text_run Outside s = Some Outside" "\<exists>cs. s = 123 # cs @ [125]"
proof -
  obtain d where d: "fits (PDict d)" "wr (PDict d) = Inr s" using assms by (auto simp: doc_text_def)
  show "text_run Outside s = Some Outside" using braced_write [OF d] by (simp add: braced_def)
  show "\<exists>cs. s = 123 # cs @ [125]" using d(2) by (auto simp: res_simps)
qed

lemma stream_run: "\<forall>s \<in> set ss. doc_text wr fits key s \<Longrightarrow> text_run Outside (concat ss) = Some Outside"
  by (induction ss) (auto simp: text_run_append doc_textD(1))

text \<open>A read that starts with a brace outside of strings.\<close>

lemma read_in_doc:
  assumes "doc_text wr fits key s" "s = p @ 123 # q" "text_run Outside p = Some Outside" "p \<noteq> []"
    and "rd @ rest = 123 # q @ more" "delim more" "parse_val (2 * length rd + n) rd = Inr (v, r)" "2 \<le> n"
  shows "key \<notin> dict_keys v"
proof -
  obtain d where d: "fits (PDict d)" "wr (PDict d) = Inr s" "\<forall>w \<in> set (parts (PDict d)). key \<notin> dict_keys w"
    using assms(1) by (auto simp: doc_text_def)
  have "starts_part wr (set (parts (PDict d))) (123 # q)"
    using braced_write [OF d(1,2)] assms(2-4) by (auto simp: braced_def)
  from starts_part_append [OF this assms(6)] obtain w t r' where
    w: "w \<in> set (parts (PDict d))" "wr w = Inr t" "rd @ rest = t @ r'" "delim r'"
    unfolding starts_part_def using assms(5) by (metis append_Cons)
  have ok: "fits w" using parts_ok [OF d(1) w(1)] .
  have "length t \<le> length rd"
  proof (rule ccontr)
    assume "\<not> length t \<le> length rd"
    then obtain q' where q': "t = rd @ q'" "q' \<noteq> []" using w(3) by (auto simp: append_eq_append_conv2)
    then have "\<exists>t'. t = 123 # t'" using parse_val_consumes [OF assms(7)] assms(5) by (cases rd) auto
    then obtain dw where "w = PDict dw" using write_brace ok w(2) by blast
    moreover from this have "\<forall>(k, v) \<in> set dw. cut wr v" using ok cut_ok by (auto simp: list_all_iff)
    ultimately have "\<not> is_ok (parse_val (2 * length rd + n) rd)"
      using dict_cut [of dw rd q'] ok w(2) q' assms(8) by simp
    with assms(7) show False by (simp add: is_ok_def)
  qed
  then obtain t' where t': "rd = t @ t'" "t' @ rest = r'" using w(3) by (auto simp: append_eq_append_conv2)
  then have "delim t'" using w(4) by (cases t') (auto simp: delim_def)
  obtain m where m: "2 * length rd + n = Suc m" "2 * length t \<le> m" using assms(8) t'(1) by (cases "2 * length rd + n") auto
  have "parse_val (Suc m) rd = Inr (w, t')"
    using parses_ok [OF ok] \<open>delim t'\<close> m(2) w(2) unfolding parses_def t'(1) by blast
  then have "v = w" using assms(7) m(1) by simp
  with d(3) w(1) show ?thesis by blast
qed

text \<open>A read that starts where a document starts.\<close>

lemma read_of_doc:
  assumes "doc_text wr fits key s" "rd @ rest = s @ concat ss" "\<forall>t \<in> set ss. doc_text wr fits key t"
    and "parse_val (2 * length rd + n) rd = Inr (v, r)" "skip_ws r = []" "2 \<le> n"
  shows "rd = s"
proof -
  obtain d where d: "fits (PDict d)" "wr (PDict d) = Inr s" using assms(1) by (auto simp: doc_text_def)
  have "length s \<le> length rd"
  proof (rule ccontr)
    assume "\<not> length s \<le> length rd"
    then obtain q' where q': "s = rd @ q'" "q' \<noteq> []" using assms(2) by (auto simp: append_eq_append_conv2)
    have "\<forall>(k, v) \<in> set d. cut wr v" using d(1) cut_ok by (auto simp: list_all_iff)
    from dict_cut [OF this d(1), of rd q' "2 * length rd + n"] d(2) q' assms(4,6) show False by (simp add: is_ok_def)
  qed
  then obtain t where t: "rd = s @ t" "t @ rest = concat ss" using assms(2) by (auto simp: append_eq_append_conv2)
  have "t = []"
  proof (rule ccontr)
    assume "t \<noteq> []"
    then obtain cs where "t = 123 # cs"
      using t(2) assms(3) doc_textD(2) by (cases ss; cases t) fastforce+
    moreover from this have "delim t" by (simp add: delim_def is_digit_def)
    moreover obtain m where m: "2 * length rd + n = Suc m" "2 * length s \<le> m" using assms(6) t(1) by (cases "2 * length rd + n") auto
    ultimately have "parse_val (2 * length rd + n) rd = Inr (PDict d, 123 # cs)"
      using parses_ok [OF d(1)] d(2) unfolding parses_def t(1) by metis
    then have "r = 123 # cs" using assms(4) by simp
    with assms(5) show False by (simp add: skip_ws_id json_ws_def)
  qed
  with t(1) show ?thesis by simp
qed

lemma read_is_document:
  assumes "\<forall>s \<in> set ss. doc_text wr fits key s" "119 \<in> set key" "a @ rd @ rest = concat ss"
    and "json_loads rd = Inr v" "key \<in> dict_keys v"
  shows "\<exists>i < length ss. a = concat (take i ss) \<and> rd = ss ! i"
proof -
  let ?ws = "takeWhile json_ws rd" and ?rd = "skip_ws rd"
  have rd: "rd = ?ws @ ?rd" by (simp add: skip_ws_def)
  obtain d where v: "v = PDict d" using assms(5) by (cases v) auto
  obtain r where r: "parse_val (2 * length rd + 2) ?rd = Inr (PDict d, r)" "skip_ws r = []"
    using assms(4) v unfolding json_loads_def by (auto simp: res_simps simp del: parse_val.simps split: if_splits)
  obtain y where y: "?rd = 123 # y" using parse_dict_head [OF r(1)] by blast
  have c: "concat ss = (a @ ?ws) @ 123 # y @ rest" using assms(3) rd y by (metis append.assoc append_Cons)
  then obtain i p q where i: "i < length ss" "a @ ?ws = concat (take i ss) @ p" "ss ! i = p @ 123 # q"
      "y @ rest = q @ concat (drop (Suc i) ss)"
    using stream_position [OF c] by blast
  have run: "text_run Outside (a @ ?ws @ ?rd @ rest) = Some Outside"
    using stream_run [OF assms(1)] c y by simp
  then obtain m where m: "text_run Outside (a @ ?ws) = Some m" "text_run m (?rd @ rest) \<noteq> None"
    using text_run_part [of Outside "a @ ?ws" "?rd @ rest"] by auto
  have di: "doc_text wr fits key (ss ! i)" "\<forall>t \<in> set (drop (Suc i) ss). doc_text wr fits key t"
    using assms(1) i(1) by (auto dest: in_set_dropD)
  have n: "2 * length rd + 2 = 2 * length ?rd + (2 * length ?ws + 2)" using rd by (metis add.assoc distrib_left length_append add.commute)
  have "m \<noteq> Inside"
  proof
    assume "m = Inside"
    then have "inside ?rd" using text_run_part m(2) unfolding inside_def by fastforce
    with parse_inside_keys [OF r(1)] assms(2,5) v show False by blast
  qed
  moreover have "m \<noteq> Escaped" using m(2) y by auto
  ultimately have "m = Outside" by (cases m) auto
  have "text_run Outside (concat (take i ss)) = Some Outside"
    by (rule stream_run [of _ key]) (use assms(1) in_set_takeD in fast)
  with m(1) \<open>m = Outside\<close> have p: "text_run Outside p = Some Outside" unfolding i(2) by (simp add: text_run_append)
  have more: "delim (concat (drop (Suc i) ss))"
    using di(2) doc_textD(2) by (cases "drop (Suc i) ss") (fastforce simp: delim_def is_digit_def)+
  have "p = []"
  proof (rule ccontr)
    assume "p \<noteq> []"
    from read_in_doc [OF di(1) i(3) p this _ more r(1) [unfolded n]] y i(4) have "key \<notin> dict_keys (PDict d)" by auto
    with assms(5) v show False by simp
  qed
  then have "?rd = ss ! i"
    using read_of_doc [OF di(1) _ di(2) r(1) [unfolded n] r(2), of rest] y i(3,4) by simp
  moreover have "?ws = []"
  proof (rule ccontr)
    assume ws: "?ws \<noteq> []"
    then have l: "last (concat (take i ss)) = last ?ws" "concat (take i ss) \<noteq> []" using i(2) \<open>p = []\<close> by (metis append.right_neutral last_appendR, metis append.right_neutral append_is_Nil_conv)
    have "last (concat ts) = 125" if "\<forall>s \<in> set ts. doc_text wr fits key s" "concat ts \<noteq> []" for ts
      using that by (induction ts) (auto simp: last_append dest: doc_textD(2))
    then have "last ?ws = 125" using l assms(1) by (metis in_set_takeD)
    moreover have "json_ws (last ?ws)" using ws by (metis last_in_set set_takeWhileD)
    ultimately show False by (simp add: json_ws_def)
  qed
  ultimately show ?thesis using i(1,2) rd \<open>p = []\<close> by auto
qed

end

end
