(* ===== verification/CompactJson.thy ===== *)
theory CompactJson
  imports Pydantic JsonStream
begin

section \<open>The writer behind the models\<close>

text \<open>
  \<open>model_dump_json\<close> writes JSON without white space and leaves every character that JSON lets stand for itself as
  it is, so that its text, encoded in UTF-8, is not ASCII when a string of the message is not. The theory names what the
  code's messages then look like on the wire.
\<close>

text \<open>A character of a string: escapes only where JSON demands them.\<close>

definition raw_char :: "int \<Rightarrow> pystr" where
  "raw_char c =
     (if c = 34 then [92, 34] else if c = 92 then [92, 92]
      else if c = 10 then [92, 110] else if c = 13 then [92, 114] else if c = 9 then [92, 116]
      else if c = 8 then [92, 98] else if c = 12 then [92, 102]
      else if c < 32 then u_escape c else [c])"

abbreviation compact_write :: "(pyfloat \<Rightarrow> pystr) \<Rightarrow> pyval \<Rightarrow> pystr res" where
  "compact_write ftext \<equiv> json_write raw_char ftext [44] [58]"

lemma raw_char_form: "char_form c (raw_char c)"
  by (auto simp: char_form_def raw_char_def simple_escape_def)

text \<open>
  The documented behaviour of the writer, beside that of the library: the text it writes for a value that JSON has, \<open>ftext\<close> the
  text of a float; \<open>fok\<close> are the finite floats. Whatever its reader accepts is JSON, with the keys it was read with.
\<close>

locale compact_api = pydantic_api P ok for P :: pydantic and ok :: "pyval \<Rightarrow> bool" +
  fixes ftext :: "pyfloat \<Rightarrow> pystr" and fok :: "pyfloat \<Rightarrow> bool"
  assumes written_fits: "ok v \<Longrightarrow> json_fits fok v"
    and written_text: "json_fits fok v \<Longrightarrow> pd_write P v = compact_write ftext v"
    and float_back: "fok f \<Longrightarrow> scan_num (ftext f) = Some (PFloat f, [])"
    and read_keys: "pd_parse P s = Inr v \<Longrightarrow> \<exists>v'. json_loads s = Inr v' \<and> dict_keys v \<subseteq> dict_keys v'"

sublocale compact_api \<subseteq> texts: json_writer raw_char ftext fok "[]" "[]"
  by unfold_locales (simp_all add: raw_char_form float_form_def float_back)

text \<open>An instance: strict validation over the compact writer, with Python's text for floats and its reader.\<close>

definition finite_float :: "pyfloat \<Rightarrow> bool" where
  "finite_float f \<longleftrightarrow> json_float f \<and> f \<notin> {NaN, PInf, NInf}"

definition compact_pydantic :: pydantic where
  "compact_pydantic = strict_pydantic\<lparr>pd_write := compact_write float_json\<rparr>"

lemma compact_pydantic_simps [simp]:
  "pd_write compact_pydantic = compact_write float_json" "pd_parse compact_pydantic = json_loads"
  by (simp_all add: compact_pydantic_def strict_pydantic_def)

lemma finite_float_back: "finite_float f \<Longrightarrow> scan_num (float_json f) = Some (PFloat f, [])"
  by (cases f) (auto simp: finite_float_def json_float_def)

interpretation compact_text: json_writer raw_char float_json finite_float "[]" "[]"
  by unfold_locales (simp_all add: raw_char_form float_form_def finite_float_back)

interpretation compact: compact_api compact_pydantic "json_fits finite_float" float_json finite_float
proof
  show "rbind (pd_write compact_pydantic v) (pd_parse compact_pydantic) = Inr v" if "json_fits finite_float v" for v
    using compact_text.write_codec that unfolding codec_def by simp
  show "pd_num compact_pydantic (num_py n) = Some n" for n
    using strict.num_exact [of n] by (simp add: compact_pydantic_def)
  show "pd_prim compact_pydantic (prim_py v) = Some v" for v
    using strict.prim_exact [of v] by (simp add: compact_pydantic_def)
  show "\<exists>v'. json_loads s = Inr v' \<and> dict_keys v \<subseteq> dict_keys v'" if "pd_parse compact_pydantic s = Inr v" for s v
    using that by simp
qed (simp_all add: compact_pydantic_def strict_pydantic_def finite_float_back)

end
