(* ===== verification/MessageStream.thy ===== *)
theory MessageStream
  imports DataPath CompactJson
begin

section \<open>Messages in a stream that is read in any parts\<close>

text \<open>
  The sockets carry messages without any framing, and the code takes what one \<open>read\<close> returns for one message. The theory
  follows a stream of telemetry messages as it arrives, in any parts, and states what each side makes of it. The messages
  are the JSON text of the library's compact writer in UTF-8, so that a read may also end inside a character.
\<close>

subsection \<open>A stream of messages in any reads\<close>

text \<open>Where each of the pieces stands in their concatenation: its start and its end.\<close>

fun spans :: "nat \<Rightarrow> 'a list list \<Rightarrow> (nat \<times> nat) list" where
  "spans n [] = []"
| "spans n (s # ss) = (n, n + length s) # spans (n + length s) ss"

text \<open>The messages that are a read of their own: \<open>ms\<close> are the messages, \<open>ss\<close> their bytes.\<close>

definition whole_messages :: "'m list \<Rightarrow> 'a list list \<Rightarrow> 'a list list \<Rightarrow> 'm list" where
  "whole_messages ms ss rds = List.map_filter (map_of (zip (spans 0 ss) ms)) (spans 0 rds)"

lemma length_spans [simp]: "length (spans n ss) = length ss"
  by (induction ss arbitrary: n) simp_all

lemma nth_spans: "i < length ss \<Longrightarrow>
    spans n ss ! i = (n + length (concat (take i ss)), n + length (concat (take i ss)) + length (ss ! i))"
  by (induction ss arbitrary: n i) (auto simp: nth_Cons split: nat.split)

lemma spans_start: "sp \<in> set (spans n ss) \<Longrightarrow> n \<le> fst sp"
  by (induction ss arbitrary: n) force+

lemma distinct_spans: "[] \<notin> set ss \<Longrightarrow> distinct (spans n ss)"
  by (induction ss arbitrary: n) (auto dest!: spans_start)

lemma concat_take_nth: "i < length ss \<Longrightarrow> concat ss = concat (take i ss) @ ss ! i @ concat (drop (Suc i) ss)"
  by (metis append_take_drop_id concat.simps(2) concat_append Cons_nth_drop_Suc)

text \<open>A read has the span of a piece exactly when it is that piece, read where it stands.\<close>

lemma span_whole:
  assumes "concat rds @ rest = concat ss" "i < length rds" "j < length ss"
  shows "spans 0 rds ! i = spans 0 ss ! j \<longleftrightarrow> concat (take i rds) = concat (take j ss) \<and> rds ! i = ss ! j"
proof -
  have e: "concat (take i rds) @ rds ! i @ concat (drop (Suc i) rds) @ rest = concat (take j ss) @ ss ! j @ concat (drop (Suc j) ss)"
    using assms(1) concat_take_nth [OF assms(2)] concat_take_nth [OF assms(3)] by (metis append.assoc)
  show ?thesis
  proof
    assume "spans 0 rds ! i = spans 0 ss ! j"
    then have "length (concat (take i rds)) = length (concat (take j ss))" "length (rds ! i) = length (ss ! j)"
      using assms(2,3) by (auto simp: nth_spans)
    with e show "concat (take i rds) = concat (take j ss) \<and> rds ! i = ss ! j"
      by (metis append_eq_append_conv)
  qed (use assms(2,3) in \<open>simp add: nth_spans\<close>)
qed

lemma whole_at:
  assumes "concat rds @ rest = concat ss" "[] \<notin> set ss" "length ms = length ss" "i < length rds"
  shows "map_of (zip (spans 0 ss) ms) (spans 0 rds ! i) = Some m \<longleftrightarrow>
    (\<exists>j < length ss. concat (take i rds) = concat (take j ss) \<and> rds ! i = ss ! j \<and> m = ms ! j)"
proof -
  have "map_of (zip (spans 0 ss) ms) (spans 0 rds ! i) = Some m \<longleftrightarrow> (spans 0 rds ! i, m) \<in> set (zip (spans 0 ss) ms)"
    using distinct_spans [OF assms(2), of 0] assms(3) by (intro map_of_eq_Some_iff) simp
  also have "\<dots> \<longleftrightarrow> (\<exists>j < length ss. spans 0 rds ! i = spans 0 ss ! j \<and> m = ms ! j)"
    using assms(3) by (auto simp: set_zip)
  finally show ?thesis using span_whole [OF assms(1,4)] by auto
qed

text \<open>Telemetry messages are documents whose key \<open>which_type\<close> is at their top only.\<close>

lemma scalar_parts [simp]:
  "parts (prim_py p) = []" "dict_keys (prim_py p) = {}" "parts (num_py n) = []" "dict_keys (num_py n) = {}"
  by (cases p; simp; fail | cases n; simp; fail)+

lemma telemetry_inner_keys:
  assumes "telemetry_py t = Inr v"
  shows "\<exists>d. v = PDict d \<and> (\<forall>w \<in> set (parts v). u ''which_type'' \<notin> dict_keys w)"
proof -
  obtain x where x: "tm_py (tm_data t) = Inr x" "v = PDict [(u ''which_type'', PStr (which_tm_str (which_type t))), (u ''data'', x)]"
    using assms by (auto simp: telemetry_py_def res_simps simp del: u_simps)
  have "\<forall>w \<in> set (x # parts x). u ''which_type'' \<notin> dict_keys w"
  proof (cases "tm_data t")
    case (MetricIdsMsg ids)
    with x(1) show ?thesis by auto
  next
    case (SampleMsg s)
    then obtain y where y: "data_py (sample_data s) = Inr y" "x = PDict [(u ''metadata'', metadata_py (metadata s)), (u ''data'', y)]"
      using x(1) by (auto simp: sample_py_def res_simps simp del: u_simps)
    have "\<forall>w \<in> set (y # parts y). u ''which_type'' \<notin> dict_keys w"
      using y(1) by (cases "sample_data s") (auto simp: primitive_py_def file_py_def res_simps)
    then show ?thesis using y(2) by (auto simp: metadata_py_def)
  qed
  then show ?thesis using x(2) by (simp del: u_simps)
qed

lemma traverse_nth: "traverse f xs = Inr ys \<Longrightarrow> i < length xs \<Longrightarrow> f (xs ! i) = Inr (ys ! i)"
  by (induction xs arbitrary: ys i) (auto simp: res_simps nth_Cons split: nat.split)

lemma telemetry_validate_key: "telemetry_validate P v = Inr t \<Longrightarrow> u ''which_type'' \<in> dict_keys v"
  by (cases v) (auto simp: telemetry_validate_def model_dict_def field_def simp del: u_simps split: option.splits dest!: map_of_SomeD intro: rev_image_eqI)

lemma utf8_encode_append:
  "utf8_encode s = Inr a \<Longrightarrow> utf8_encode t = Inr b \<Longrightarrow> utf8_encode (s @ t) = Inr (a @ b)"
  by (auto simp: utf8_encode_def traverse_append res_simps bytes_of_ints_def)

lemma utf8_encode_concat: "traverse utf8_encode js = Inr ss \<Longrightarrow> utf8_encode (concat js) = Inr (concat ss)"
  by (induction js arbitrary: ss) (auto simp: res_simps utf8_encode_append, simp add: utf8_encode_def bytes_of_ints_def)

lemma traverse_take: "traverse f xs = Inr ys \<Longrightarrow> traverse f (take n xs) = Inr (take n ys)"
  by (induction xs arbitrary: ys n) (auto simp: res_simps take_Cons split: nat.split)

text \<open>What is sent: the JSON text of the messages and its bytes.\<close>

definition message_bytes :: "pydantic \<Rightarrow> telemetry \<Rightarrow> byte list res" where
  "message_bytes P t = rbind (telemetry_dump_json P t) utf8_encode"

context compact_api
begin

lemma message_doc:
  assumes "tm_sendable ok t" "telemetry_dump_json P t = Inr j"
  shows "doc_text texts.wr texts.fits (u ''which_type'') j"
proof -
  obtain v where v: "telemetry_py t = Inr v" "ok v" "pd_write P v = Inr j"
    using assms by (cases "telemetry_py t") (auto simp: tm_sendable_def telemetry_dump_json_def)
  with telemetry_inner_keys [OF v(1)] written_fits [OF v(2)] written_text show ?thesis unfolding doc_text_def by metis
qed

lemma message_texts:
  assumes "list_all (tm_sendable ok) ts" "traverse (message_bytes P) ts = Inr ss"
  obtains js where "length js = length ts" "traverse utf8_encode js = Inr ss"
    "\<forall>j \<in> set js. doc_text texts.wr texts.fits (u ''which_type'') j"
  using assms
proof (induction ts arbitrary: ss thesis)
  case (Cons t ts)
  obtain b bs where b: "message_bytes P t = Inr b" "traverse (message_bytes P) ts = Inr bs" "ss = b # bs"
    using Cons.prems(3) by (auto simp: res_simps)
  then obtain j where j: "telemetry_dump_json P t = Inr j" "utf8_encode j = Inr b" by (auto simp: message_bytes_def res_simps)
  obtain js where "length js = length ts" "traverse utf8_encode js = Inr bs"
      "\<forall>j \<in> set js. doc_text texts.wr texts.fits (u ''which_type'') j"
    using Cons.IH [OF _ _ b(2)] Cons.prems(2) by auto
  with message_doc [OF _ j(1)] j(2) b(3) Cons.prems(2) show thesis by (intro Cons.prems(1) [of "j # js"]) auto
qed simp

lemma message_nonempty: "tm_sendable ok t \<Longrightarrow> message_bytes P t = Inr bs \<Longrightarrow> bs \<noteq> []"
proof
  assume a: "tm_sendable ok t" "message_bytes P t = Inr bs" "bs = []"
  then obtain j where j: "telemetry_dump_json P t = Inr j" "utf8_encode j = Inr []" by (auto simp: message_bytes_def res_simps)
  then have "j = []" using utf8_dec_of_encode [of j "[]" False] by (simp add: ints_of_bytes_def)
  with texts.doc_textD(2) [OF message_doc [OF a(1) j(1)]] show False by simp
qed

text \<open>What both clients make of one read that decodes.\<close>

lemma read_of_stream:
  assumes "list_all (tm_sendable ok) ts" "traverse (message_bytes P) ts = Inr ss" "concat rds @ rest = concat ss"
    and "i < length rds" "rds ! i \<noteq> []" "is_ok (utf8_decode (rds ! i))"
  shows "client_decode P (rds ! i) =
    (case map_of (zip (spans 0 ss) ts) (spans 0 rds ! i) of None \<Rightarrow> Inl ValidationError | Some t \<Rightarrow> Inr t)"
proof -
  have len: "length ts = length ss" using traverse_length [OF assms(2)] by simp
  have enc: "tm_sendable ok (ts ! j)" "message_bytes P (ts ! j) = Inr (ss ! j)" if "j < length ss" for j
    using that len assms(1) traverse_nth [OF assms(2), of j] by (auto simp: list_all_length)
  have ne: "[] \<notin> set ss" using message_nonempty [OF enc] by (metis in_set_conv_nth)
  note whole = whole_at [OF assms(3) ne len assms(4)]
  show ?thesis
  proof (cases "map_of (zip (spans 0 ss) ts) (spans 0 rds ! i)")
    case (Some t)
    then obtain j where "j < length ss" "rds ! i = ss ! j" "t = ts ! j" using whole by blast
    then show ?thesis using telemetry_bytes_decode [OF enc(1) enc(2) [unfolded message_bytes_def]] Some by simp
  next
    case None
    obtain js where js: "length js = length ts" "traverse utf8_encode js = Inr ss"
        "\<forall>j \<in> set js. doc_text texts.wr texts.fits (u ''which_type'') j"
      using message_texts [OF assms(1,2)] .
    have "concat ss = concat (take i rds) @ rds ! i @ concat (drop (Suc i) rds) @ rest"
      using concat_take_nth [OF assms(4)] assms(3) by simp
    with utf8_encode_concat [OF js(2)] have e: "utf8_encode (concat js) = Inr (concat (take i rds) @ rds ! i @ concat (drop (Suc i) rds) @ rest)"
      by simp
    obtain x where x: "utf8_decode (rds ! i) = Inr x" using assms(6) by (auto simp: is_ok_def split: sum.splits)
    from utf8_slice [OF e x assms(5)] obtain s1 s2 where
      s: "concat js = s1 @ x @ s2" "utf8_encode s1 = Inr (concat (take i rds))" "utf8_encode x = Inr (rds ! i)" by metis
    have dec: "client_decode P (rds ! i) = telemetry_validate_json P x" using x by (simp add: client_decode_def)
    show ?thesis
    proof (cases "rbind (pd_parse P x) (telemetry_validate P)")
      case (Inl e)
      then show ?thesis using None dec by (simp add: telemetry_validate_json_def)
    next
      case (Inr t)
      then obtain v where v: "pd_parse P x = Inr v" "telemetry_validate P v = Inr t" by (auto simp: res_simps)
      then obtain v' where v': "json_loads x = Inr v'" "u ''which_type'' \<in> dict_keys v'"
        using read_keys telemetry_validate_key by blast
      from texts.read_is_document [OF js(3) _ s(1) [symmetric] v'] obtain j where
        j: "j < length js" "s1 = concat (take j js)" "x = js ! j" by auto
      have "utf8_encode (js ! j) = Inr (ss ! j)" using traverse_nth [OF js(2) j(1)] .
      moreover have "traverse utf8_encode (take j js) = Inr (take j ss)"
        using traverse_take [OF js(2)] .
      ultimately have "concat (take i rds) = concat (take j ss)" "rds ! i = ss ! j"
        using s(2,3) j(2,3) utf8_encode_concat by force+
      then show ?thesis using whole [of "ts ! j"] j(1) js(1) len None by auto
    qed
  qed
qed

end

lemma messages_read:
  assumes "\<And>i. i < length rds \<Longrightarrow> read_message P (rds ! i) = Inr (case f (sps ! i) of None \<Rightarrow> [] | Some t \<Rightarrow> [tm_data t])"
    and "length sps = length rds"
  shows "\<exists>mss. traverse (read_message P) rds = Inr mss \<and> concat mss = map tm_data (List.map_filter f sps)"
  using assms
proof (induction rds arbitrary: sps)
  case Nil
  then show ?case by (simp add: map_filter_simps)
next
  case (Cons rd rds)
  then obtain sp sps' where s: "sps = sp # sps'" "length sps' = length rds" by (cases sps) auto
  have "\<exists>mss. traverse (read_message P) rds = Inr mss \<and> concat mss = map tm_data (List.map_filter f sps')"
    by (rule Cons.IH [OF _ s(2)]) (use Cons.prems(1) [of "Suc _"] s in auto)
  then obtain mss where "traverse (read_message P) rds = Inr mss" "concat mss = map tm_data (List.map_filter f sps')" by blast
  with Cons.prems(1) [of 0] s(1) show ?case by (auto simp: map_filter_simps split: option.splits)
qed

lemma sync_passes_fail:
  "rd \<in> set rds \<Longrightarrow> (\<And>h. \<not> is_ok (fst (sync_pass P order rd h))) \<Longrightarrow> \<not> is_ok (fst (sync_passes P order rds h))"
proof (induction rds arbitrary: h)
  case (Cons rd' rds)
  obtain r1 h1 where 1: "sync_pass P order rd' h = (r1, h1)" by fastforce
  from Cons.prems(2) [of h] Cons.prems(1) Cons.IH [OF _ Cons.prems(2), of h1] show ?case
    by (cases r1) (auto simp: 1 is_ok_def)
qed simp

lemma whole_message_read:
  assumes "traverse enc ts = Inr ss" "concat rds @ rest = concat ss" "[] \<notin> set ss" "t \<in> set (whole_messages ts ss rds)"
  shows "\<exists>rd \<in> set rds. enc t = Inr rd"
proof -
  have len: "length ts = length ss" using traverse_length [OF assms(1)] by simp
  obtain sp where "sp \<in> set (spans 0 rds)" "map_of (zip (spans 0 ss) ts) sp = Some t"
    using assms(4) by (auto simp: whole_messages_def map_filter_def)
  then obtain i where i: "i < length rds" "map_of (zip (spans 0 ss) ts) (spans 0 rds ! i) = Some t"
    by (metis in_set_conv_nth length_spans)
  then obtain j where "j < length ss" "rds ! i = ss ! j" "t = ts ! j" using whole_at [OF assms(2,3) len i(1)] by blast
  then have "enc t = Inr (rds ! i)" using traverse_nth [OF assms(1)] len by simp
  with i(1) show ?thesis by (auto intro: nth_mem)
qed

subsection \<open>Properties\<close>

text \<open>A sample of a metric whose name has a letter beyond ASCII, which takes two bytes.\<close>

definition demo_accent :: telemetry where
  "demo_accent = sample_telemetry (demo_wire\<lparr>metadata := (metadata demo_wire)\<lparr>metric_id := [233]\<rparr>\<rparr>)"

definition demo_accent_bytes :: "byte list" where
  "demo_accent_bytes = (case message_bytes compact_pydantic demo_accent of Inr bs \<Rightarrow> bs | Inl _ \<Rightarrow> [])"

lemma read_undecodable:
  "bs \<noteq> [] \<Longrightarrow> \<not> is_ok (utf8_decode bs) \<Longrightarrow>
    read_message P bs = Inl UnicodeDecodeError \<and> client_decode P bs = Inl UnicodeDecodeError"
  by (auto simp: read_message_def client_decode_def is_ok_def dest: utf8_decode_error split: sum.splits)

text \<open>C7: The two readers of a stream of messages at the ground station, however the bytes arrive and whatever the messages hold: as
  long as the reads decode as UTF-8, the subscriber's handler receives, in order, the samples of exactly the messages that
  are a read of their own, so none that is longer than a read can be; parts of a message and messages read together
  leave no trace, and no part of a message is taken for another. A read that ends or starts inside a character ends the
  subscription with a decoding error. The task that synchronises the metric ids ends at the first read that is not a whole
  message. The messages are JSON in UTF-8 as the library's compact writer has it.\<close>

theorem stream_in_any_reads:
  assumes "compact_api P ok ftext fok" "list_all (tm_sendable ok) ts" "traverse (message_bytes P) ts = Inr ss"
    and "concat as @ later = concat ss" "[] \<notin> set as" "unread s = []"
    and "stream_reads 4096 (map Inr as) [] = (map Inr rds, unseen)"
  defines "good \<equiv> takeWhile (\<lambda>rd. is_ok (utf8_decode rd)) rds"
  shows "(\<exists>s'. subscribe_passes P (\<lambda>_. Inr ()) (map Inr as) s = (if good = rds then Inr () else Inl UnicodeDecodeError, s') \<and>
      handled s' = handled s @ samples_of (map tm_data (whole_messages ts ss good))) \<and>
    (\<forall>t \<in> set (whole_messages ts ss good). \<exists>rd \<in> set good. message_bytes P t = Inr rd \<and> length rd \<le> 4096) \<and>
    (\<not> set (spans 0 rds) \<subseteq> set (spans 0 ss) \<longrightarrow> \<not> is_ok (fst (sync_passes P order (map Inr rds) h)))"
proof (intro conjI impI ballI)
  let ?f = "map_of (zip (spans 0 ss) ts)"
  obtain bss where "map Inr rds = (map Inr bss :: byte list res list)" "concat bss @ unseen = concat as"
      "\<forall>bs \<in> set bss. bs \<noteq> [] \<and> length bs \<le> 4096"
    using stream_reads_pieces [OF assms(7) _ assms(5)] by auto
  then have rds: "concat rds @ unseen @ later = concat ss" "\<forall>rd \<in> set rds. rd \<noteq> [] \<and> length rd \<le> 4096"
    using assms(4) by (auto simp: inj_map_eq_map [OF inj_Inr] simp flip: append_assoc)
  note read = compact_api.read_of_stream [OF assms(1-3)]
  obtain bad where bad: "rds = good @ bad" "bad = [] \<or> (\<exists>bs bad'. bad = bs # bad' \<and> \<not> is_ok (utf8_decode bs))"
    using takeWhile_dropWhile_id [of "\<lambda>rd. is_ok (utf8_decode rd)" rds] hd_dropWhile [of "\<lambda>rd. is_ok (utf8_decode rd)" rds]
    unfolding good_def by (metis list.collapse)
  then have g: "concat good @ concat bad @ unseen @ later = concat ss" using rds(1) by simp
  have decodes: "is_ok (utf8_decode (good ! i))" "good ! i \<noteq> []" if "i < length good" for i
    using set_takeWhileD [of "good ! i" "\<lambda>rd. is_ok (utf8_decode rd)" rds] rds(2) nth_mem [OF that] unfolding good_def by auto
  have ne: "[] \<notin> set ss"
    using compact_api.message_nonempty [OF assms(1)] traverse_nth [OF assms(3)] traverse_length [OF assms(3)] assms(2)
    by (fastforce simp: in_set_conv_nth list_all_length)
  show "\<exists>rd \<in> set good. message_bytes P t = Inr rd \<and> length rd \<le> 4096" if "t \<in> set (whole_messages ts ss good)" for t
    using whole_message_read [OF assms(3) g ne that] rds(2) bad(1) by auto
  have "read_message P (good ! i) = Inr (case ?f (spans 0 good ! i) of None \<Rightarrow> [] | Some t \<Rightarrow> [tm_data t])"
    if "i < length good" for i
    using read [OF g that] decodes [OF that] by (simp add: read_message_def split: option.split)
  from messages_read [OF this] obtain mss where mss: "traverse (read_message P) good = Inr mss"
      "concat mss = map tm_data (whole_messages ts ss good)"
    by (auto simp: whole_messages_def)
  have "bad = [] \<or> (\<exists>bs bad'. bad = bs # bad' \<and> read_message P bs = Inl UnicodeDecodeError)"
    using bad rds(2) read_undecodable by auto
  from subscribe_passes_reads [OF refl _ mss(1) this, of "map Inr as" s] assms(6,7) bad(1) mss(2)
  show "\<exists>s'. subscribe_passes P (\<lambda>_. Inr ()) (map Inr as) s = (if good = rds then Inr () else Inl UnicodeDecodeError, s') \<and>
      handled s' = handled s @ samples_of (map tm_data (whole_messages ts ss good))" by auto
  assume "\<not> set (spans 0 rds) \<subseteq> set (spans 0 ss)"
  then obtain sp where "sp \<in> set (spans 0 rds)" "sp \<notin> set (spans 0 ss)" by blast
  then obtain i where i: "i < length rds" "spans 0 rds ! i \<notin> set (spans 0 ss)" by (metis in_set_conv_nth length_spans)
  then have "?f (spans 0 rds ! i) = None" by (auto simp: map_of_eq_None_iff dest: set_zip_leftD)
  moreover have n: "rds ! i \<noteq> []" using rds(2) i(1) by auto
  ultimately have "\<not> is_ok (client_decode P (rds ! i))"
    using read [OF rds(1) i(1)] read_undecodable [OF n] by (cases "is_ok (utf8_decode (rds ! i))") (auto simp: is_ok_def)
  then have "\<not> is_ok (fst (sync_pass P order (Inr (rds ! i)) h))" for h
    using n by (auto simp: sync_pass_def is_ok_def split: sum.splits)
  with i(1) show "\<not> is_ok (fst (sync_passes P order (map Inr rds) h))" by (intro sync_passes_fail) auto
qed

text \<open>A message, then the same message in two parts that meet inside its letter, then the message again.\<close>

lemma demo_accent_values:
  "message_bytes compact_pydantic demo_accent = Inr demo_accent_bytes"
  "length demo_accent_bytes \<le> 4096" "58 \<le> length demo_accent_bytes"
  "is_ok (utf8_decode demo_accent_bytes)" "\<not> is_ok (utf8_decode (take 57 demo_accent_bytes))"
  by code_simp+

lemma demo_accent_sendable: "tm_sendable (json_fits finite_float) demo_accent"
  by (simp add: demo_accent_def demo_wire_def tm_sendable_def tm_ok_def telemetry_py_def sample_ok_def primitive_ok_def
      cpu_sample_def sample_py_def metadata_py_def primitive_py_def scalar_def dict_ok_def)

theorem stream_in_any_reads_witness:
  "\<exists>s'. subscribe_passes compact_pydantic (\<lambda>_. Inr ())
      (map Inr [demo_accent_bytes, take 57 demo_accent_bytes, drop 57 demo_accent_bytes, demo_accent_bytes]) new_subscription
      = (Inl UnicodeDecodeError, s') \<and> map (metric_id \<circ> metadata) (handled s') = [[233]]"
proof -
  let ?b = demo_accent_bytes and ?t = demo_accent
  let ?as = "[?b, take 57 ?b, drop 57 ?b, ?b]"
  note v = demo_accent_values
  have ne: "?b \<noteq> []" "take 57 ?b \<noteq> []" "drop 57 ?b \<noteq> []" using v(3) by auto
  have r: "stream_reads 4096 (map Inr ?as) [] = (map Inr ?as, [])" using v(2) by (intro stream_reads_short) auto
  have g: "takeWhile (\<lambda>rd. is_ok (utf8_decode rd)) ?as = [?b]" using v(4,5) by simp
  have w: "whole_messages [?t, ?t, ?t] [?b, ?b, ?b] [?b] = [?t]" using v(3) by (auto simp: whole_messages_def map_filter_simps)
  have "\<exists>s'. subscribe_passes compact_pydantic (\<lambda>_. Inr ()) (map Inr ?as) new_subscription = (Inl UnicodeDecodeError, s') \<and>
      handled s' = samples_of (map tm_data [?t])"
    using stream_in_any_reads [OF compact.compact_api_axioms, of "[?t, ?t, ?t]" "[?b, ?b, ?b]" ?as "[]" new_subscription ?as "[]"]
      demo_accent_sendable v(1) ne r by (simp only: g w) (simp add: new_subscription_def)
  then show ?thesis by (fastforce simp: demo_accent_def simp del: subscribe_passes.simps)
qed

end
