(* ===== verification/Spec2Isabelle.thy ===== *)
theory Spec2Isabelle
  imports SharedTelemetry SharedCommand CommandStation CommandApp OnboardService PackageExports MessageStream
begin

text \<open>
  \<^bold>\<open>bvex-link.\<close> The Python services that bring the measurements of a balloon telescope to the
  ground, and the library of their shared wire formats.

  \<^bold>\<open>The parts of the program.\<close> Instruments store samples in a Redis server through the Redis client.
  The payload computer (onboard-server-py) answers commands that arrive over TCP: for each
  subscription it sends the new samples of a metric at a limited rate. The ground station
  (command) holds one subscription per metric, shares a maximal rate among them, and passes
  each sample on to websocket clients, to a history in Redis and to files; a shell sets the
  rates. The messages are the classes of codec. The library shared is a wire
  format of its own, which cuts a sample into datagrams; none of the services uses it.

  \<^bold>\<open>Theories and sources.\<close>
  \<^item> Prelude: exceptions as a sum type, computations on a state, ordered dictionaries, and the
    interfaces of the development: codec, machine (an invariant and reachability) and simulation
    (a component and its contract).
  \<^item> PyStr, Utf8, PyFloat, PyVal, Base64, Json, JsonCodec, JsonFraming, JsonStream: the parts of Python's standard library
    the program relies on. They model the language, not this repository, so no definition of
    theirs is mapped to a file; Utf8 shows that a part of an encoded text decodes only when it consists of whole
    characters; JsonCodec, that every writer of JSON (locale json_writer) is undone by the reader, with Python's writer
    as an instance; JsonFraming, that a proper part of a document is not read; JsonStream, which parts of a stream
    of documents are documents.
  \<^item> SharedTelemetry: shared/src/sample.py, encode_telemetry.py, decode_telemetry.py.
    SharedCommand: encode_command.py, decode_command.py, encode.py, decode.py.
  \<^item> Pydantic: pydantic as a parameter, with the laws its use relies on (locale pydantic_api) and
    an instance that satisfies them. CompactJson: what the library's own writer puts on the wire (locale
    compact_api), with an instance. CodecSample, CodecTelecommand, CodecTelemetry: the files of
    codec/src/bvex_codec with the same names.
  \<^item> RedisClient: bcp-redis-client, sample.py and asyncio.py; the Redis server is a parameter with
    the laws of GET, SET and PUBLISH (locale redis_api) and a dictionary as an instance.
  \<^item> OnboardCommands: onboard_server/handle_commands.py. OnboardServer: server.py, config.py, with one
    connection; OnboardService: server.py, the server with all its connections and their stop event.
  \<^item> CommandSubscriber: command/src/subscriber.py. CommandMetrics: sync_metric_ids.py, its
    operations as single steps; CommandInterleaving: the same file with updates suspended where they await a task;
    CommandStation: that file driven by the three coroutines of server.py, which interleave.
    CommandTelemetry: telemetry_server.py, telemetry_realtime_manager.py,
    telemetry_history_manager.py, store_file_sample.py. CommandServer: server.py, cli.py,
    config.py, netcdf.py. CommandApp: the routes of telemetry_server.py, telemetry_realtime_interactive.py,
    image_drawer.py, command/run.py.
  \<^item> PackageExports: the files __init__.py of bvex_codec, bcp_redis_client and onboard_server.
  \<^item> DataPath: the lemmas that join the components from a producer to the ground station, and from the
    scan of the store to the metrics the ground station knows. MessageStream: what the ground station makes of a
    stream of messages, in whatever parts its bytes arrive.
  \<^item> This theory: properties of the payload computer and the ground station together.

  \<^bold>\<open>How code becomes definitions.\<close> An exception is the left side of a result, and a computation that
  was interrupted keeps the changes it made. A coroutine that loops forever is followed pass
  by pass: what the network, the clock or Redis answers to each pass is its input. Concurrent
  code is a step relation or a step function over events, one event for each stretch between two
  suspension points (an \<open>await\<close>, or a critical section of a lock); the invariants hold in
  every reachable state, hence in every interleaving. A task of asyncio is a position in the
  list of all tasks a handler ever created. The loop of subscriber.py gets what arrives and reads at most 4096 bytes of what is
  unread; the other loops get what their reads returned.

  \<^bold>\<open>What the lemmas show.\<close> Every wire format round-trips and the sizes it promises hold
  (SharedTelemetry, SharedCommand, Codec theories); the samples stored are the samples read, and
  a subscriber's readers see only valid samples (RedisClient); the downlink sends what is new,
  once, in order, and in bytes per second not more than its rate (OnboardCommands); no task outlives its connection
  (OnboardServer); leaving the server waits until the transport of every client is closed (OnboardService); each running subscription is the registered one for its metric and runs at its
  rate, and the rates are shared fairly (CommandMetrics), also while updates of different metrics
  interleave (CommandInterleaving). The coroutines of the ground station refine that interleaved handler: while they take
  turns they keep its promises, in every interleaving the rate shown is that of the last update, and updates can always
  be completed (CommandStation). The websocket manager refines the
  contract of its clients and the history answers queries (CommandTelemetry); the last rate set
  wins (CommandServer); requests reach their endpoints (CommandApp); of a stream of messages exactly those
  that are a read of their own are handled, until a read cuts a character in two (MessageStream). Some theorems state what the code does where that is hardly what it was
  meant to do: commands after the first one are never run, two commands of the shell may leak a
  task, a failed task keeps a writer open, a waiting reader can miss its wake-up, a metric without a sample ends its
  subscription, a malformed websocket command ends a subscription, received files are not stored,
  and too many metrics for the maximal rate get one sample each.

  \<^bold>\<open>Bounds and fuel.\<close> Floats are exact rationals rounded to double precision. The JSON parser has a fuel
  of twice the length of its text, plus two; reading is proved never to fail for lack of it. The scan of the Redis
  keys may not end and is a partial function with that outcome.

  \<^bold>\<open>Simplifications.\<close> The code has no framing. The properties on delivery say which reads they suppose (each
  one whole message); what the code makes of a stream in any reads is the theorem stream_in_any_reads. Whether closing the
  connection of a cancelled task fails is an input (\<open>closing\<close>); the connection of a task that is never cancelled is not
  followed. In
  CommandMetrics and CommandServer an operation of the metric handler is one step; CommandInterleaving
  takes \<open>update_bps\<close> apart at its \<open>await\<close>. In CommandStation the
  coroutines may be interrupted at more places than in the code (between the additions of two metrics), waiting updates of a metric
  are woken in the order in which they began, as asyncio does, the ten-second limit of the synchronising task covers only its read, and a station whose \<open>gather\<close> has
  raised is not followed further. Logging and prints are left out, and so is the
  limit of 4300 digits that Python sets to converting integers from and to text.

  \<^bold>\<open>Not modelled.\<close> telemetry_info_server.py (one import of a name that does not exist), the start script of the payload
  computer (a call of \<open>run\<close>), code that is commented out (in subscriber.py) and tests; the C code (bcp-fetch-client, the C
  parts of codec and bcp-redis-client) and the TypeScript code (openmct), which are other programs
  in other languages. Pydantic, Redis, FastAPI, Pillow, Tk, dotenv and dateutil are parameters.
\<close>

section \<open>Properties of the whole system\<close>

text \<open>C1: The samples that producers store are what the ground station handles, as long as every read returns one
  whole message: a client that subscribes to a metric with a request of at most the 4096 bytes of a read, read in one piece, gets its command
  run by the server; when no pass of the downlink fails and the reads of the client, however the bytes arrive, are the messages one
  by one (none is then longer than 4096 bytes), its handler receives, each once and in order, the samples the polls of the store
  found that differ from the one before, where a poll finds the last sample that was set for the metric.\<close>

theorem end_to_end:
  assumes "redis_api R" "pydantic_api P ok"
    and "get_sample_async R P m s = Inr (Some x)" "store_run R P m calls s = (Inr (map got es), s')"
    and "\<And>m' y. Produce m' y \<in> set calls \<Longrightarrow> sample_sendable ok y"
    and "\<And>y. y \<in> set (polled m x calls) \<Longrightarrow> tm_sendable ok (sample_telemetry y)"
    and "tc_sendable ok \<lparr>which_command = W_SUBSCRIBE, tc_data = Subscribe m bps\<rparr>"
    and "subscribe_request P m bps = Inr req" "req \<noteq> []" "length req \<le> 4096"
    and "downlink_loop P (Some b) bps es = (Inr (), as)" "[] \<notin> set (writes as)"
    and "fst (stream_reads 4096 arrs []) = map Inr (writes as)"
  shows "current_task (conn_step P (Pass False (Inr (take 4096 req)) wc) new_connection) = Some (Pending (Subscribe m bps)) \<and>
    run_command P order ids dr (Some b) (\<lambda>_. es) (Subscribe m bps) = Some (Inr (), as) \<and>
    (\<exists>t. subscribe P m bps (Inr ()) (Inr ()) wc (\<lambda>_. Inr ()) arrs = (None, t) \<and>
      sent t = [req] \<and> handled t = fresh None (map Some (polled m x calls)))"
proof -
  note api = assms(2)
  have S: "sample_store R P ok" using assms(1,2) by (rule sample_store.intro)
  have "map got es = map (\<lambda>y. Inr (Some y)) (polled m x calls)"
    by (rule sample_store.store_run_polled [OF S assms(4,3)]) (rule assms(5))
  then have "traverse got es = Inr (map Some (polled m x calls))" by (rule traverse_got)
  then have "\<exists>t. subscribe P m bps (Inr ()) (Inr ()) wc (\<lambda>_. Inr ()) arrs = (None, t) \<and>
      sent t = [req] \<and> handled t = fresh None (map Some (polled m x calls))"
    by (rule pydantic_api.downlink_handled [OF api assms(8,11)]) (use assms(6,12,13) in auto)
  moreover have "current_task (conn_step P (Pass False (Inr (take 4096 req)) wc) new_connection) = Some (Pending (Subscribe m bps))"
    using pydantic_api.request_decodes [OF api assms(7-9)] assms(10) by (simp add: new_connection_def conn_pass_def handle_envelope)
  moreover have "run_command P order ids dr (Some b) (\<lambda>_. es) (Subscribe m bps) = Some (Inr (), as)"
    using assms(11) by (simp add: run_command_def handle_subscribe_def)
  ultimately show ?thesis by blast
qed

text \<open>The message and the request in numbers of bytes.\<close>

lemma demo_lengths:
  "case sample_bytes strict_pydantic demo_wire of Inl _ \<Rightarrow> False | Inr bs \<Rightarrow> length bs \<le> 4096"
  "case subscribe_request strict_pydantic (u ''cpu'') demo_bps of Inl _ \<Rightarrow> False | Inr req \<Rightarrow> length req \<le> 4096"
  by code_simp+

text \<open>The message arrives in one piece.\<close>

theorem end_to_end_witness:
  "\<exists>as t. downlink_loop strict_pydantic (Some 4096) demo_bps [demo_pass, demo_pass] = (Inr (), as) \<and>
    subscribe strict_pydantic (u ''cpu'') demo_bps (Inr ()) (Inr ()) (Inr ()) (\<lambda>_. Inr ()) (map Inr (writes as)) = (None, t) \<and>
    handled t = [demo_wire]"
proof -
  obtain s where s: "set_sample dict_redis strict_pydantic (u ''cpu'') cpu_sample empty_store = (Inr (), s)"
    using dict_set_succeeds [OF cpu_sendable] by blast
  have c: "metric_id (metadata cpu_sample) = u ''cpu''" by (simp add: cpu_sample_def)
  have g: "get_sample_async dict_redis strict_pydantic (u ''cpu'') s = Inr (Some demo_wire)"
    using dict_samples.set_get(2) [OF cpu_sendable s] c by (simp add: demo_wire_def del: u_simps)
  have r: "store_run dict_redis strict_pydantic (u ''cpu'') [Poll, Poll] s = (Inr (map got [demo_pass, demo_pass]), s)"
    using g by (simp add: demo_pass_def lift_res_def abind_def del: u_simps)
  obtain as where run: "downlink_loop strict_pydantic (Some 4096) demo_bps [demo_pass, demo_pass] = (Inr (), as)"
    using demo_two_passes by blast
  obtain req where req: "subscribe_request strict_pydantic (u ''cpu'') demo_bps = Inr req" "req \<noteq> []"
    using demo_request by blast
  have ok: "tm_sendable json_ok (sample_telemetry y)" if "y \<in> set (polled (u ''cpu'') demo_wire [Poll, Poll])" for y
    using that demo_tm_sendable by (simp add: demo_wire_def)
  have f: "fresh None (map Some (polled (u ''cpu'') demo_wire [Poll, Poll])) = [demo_wire]"
    by (simp add: is_new_def demo_wire_same)
  obtain bs where bs: "sample_bytes strict_pydantic demo_wire = Inr bs" "bs \<noteq> []" using demo_wire_bytes by blast
  have "traverse (sample_bytes strict_pydantic) [demo_wire] = Inr (writes as)"
    using downlink_writes [OF run, of "[Some demo_wire, Some demo_wire]"] f by (simp add: demo_pass_def)
  then have w: "writes as = [bs]" using bs(1) by simp
  then have ne: "[] \<notin> set (writes as)" using bs(2) by simp
  have l: "length req \<le> 4096" "fst (stream_reads 4096 (map Inr (writes as)) []) = map Inr (writes as)"
    using demo_lengths req(1) bs(1) w by (simp_all add: stream_read_def del: u_simps)
  have "\<exists>t. subscribe strict_pydantic (u ''cpu'') demo_bps (Inr ()) (Inr ()) (Inr ()) (\<lambda>_. Inr ()) (map Inr (writes as)) = (None, t) \<and>
      sent t = [req] \<and> handled t = fresh None (map Some (polled (u ''cpu'') demo_wire [Poll, Poll]))"
    by (rule end_to_end [OF dict_store.redis_api_axioms strict.pydantic_api_axioms g r _ _ demo_request_sendable req l(1) run ne l(2),
          THEN conjunct2, THEN conjunct2])
      (auto intro: ok simp del: u_simps)
  with f run show ?thesis by metis
qed

text \<open>C27: A websocket client of a metric that sends \<open>subscribe\<close> without an id ends its endpoint but stays
  registered: once a send to it raises, the next sample of the metric makes \<open>add_sample\<close> raise, which ends
  the ground station's subscription to the metric.\<close>

theorem malformed_command_stops_metric:
  assumes "ws \<in> rt_running s" "ws \<in> set (recipients (metric_id (metadata x)) (rt_manager s))"
    and "ts_realtime w = rt_step (Receive ws (Inr (u ''subscribe''))) s" "send ws = Inl e"
    and "subscribe_request P m bps = Inr req"
    and "client_decode P (take 4096 bs) = Inr (sample_telemetry x)" "bs \<noteq> []"
  shows "ws \<notin> rt_running (ts_realtime w) \<and> fst (add_sample P Z F dir send cut2 cut3 x w) = Inl ExceptionGroup \<and>
    (\<exists>t. subscribe P m bps (Inr ()) (Inr ()) (Inr ()) (\<lambda>x. fst (add_sample P Z F dir send cut2 cut3 x w)) (Inr bs # rds)
      = (Some ExceptionGroup, t) \<and> handled t = [x])"
proof -
  have z: "zombie (ts_realtime w) ws (metric_id (metadata x))"
    unfolding assms(3) by (rule malformed_makes_zombie [OF assms(1,2)])
  have a: "fst (add_sample P Z F dir send cut2 cut3 x w) = Inl ExceptionGroup"
    using z assms(4) unfolding zombie_def by (intro add_sample_fails notify_zombie) blast+
  with assms(5-7) have "\<exists>t. subscribe P m bps (Inr ()) (Inr ()) (Inr ())
      (\<lambda>x. fst (add_sample P Z F dir send cut2 cut3 x w)) (Inr bs # rds) = (Some ExceptionGroup, t) \<and> handled t = [x]"
    by (simp add: subscribe_def subscribe_start_def subscribe_pass_def subscribe_take_def stream_read_def
        new_subscription_def abind_def Let_def)
  with a z show ?thesis by (simp add: zombie_def)
qed

definition demo_watched :: rt_server where
  "demo_watched = rt_step (Receive 1 (Inr (u ''subscribe cpu''))) (rt_step (Connect 1) new_realtime)"

definition demo_telemetry :: "(zset_store, (pystr \<times> byte list) list) telemetry_server" where
  "demo_telemetry = \<lparr>ts_realtime = rt_step (Receive 1 (Inr (u ''subscribe''))) demo_watched,
     ts_history = [], ts_files = [], ts_sent = []\<rparr>"

lemma demo_watched_facts:
  "1 \<in> rt_running demo_watched" "1 \<in> set (recipients (metric_id (metadata demo_wire)) (rt_manager demo_watched))"
proof -
  have e: "demo_watched = fold (\<lambda>e. rt_step (render e)) [Join 1, Ask 1 (u ''cpu'')] new_realtime"
    by (simp add: demo_watched_def)
  have "list_all sayable [Join 1, Ask 1 (u ''cpu'')]" by simp
  note r = realtime.run [OF new_realtime_inv(1) this, folded e]
  then have a: "rt_abs demo_watched 1 = Some {u ''cpu''}"
    by (simp add: new_realtime_inv(2))
  from r a show "1 \<in> rt_running demo_watched" by (auto simp: rt_inv_def)
  from r a show "1 \<in> set (recipients (metric_id (metadata demo_wire)) (rt_manager demo_watched))"
    by (simp add: rt_inv_def recipients_iff rt_abs_def demo_wire_def cpu_sample_def)
qed

theorem malformed_command_stops_metric_witness:
  "fst (add_sample strict_pydantic dict_zset demo_files (u ''/files'') (\<lambda>_. Inl RuntimeError) False False demo_wire demo_telemetry)
    = Inl ExceptionGroup"
proof -
  obtain bs where bs: "sample_bytes strict_pydantic demo_wire = Inr bs" "bs \<noteq> []" using demo_wire_bytes by blast
  have "length bs \<le> 4096" using demo_lengths(1) bs(1) by simp
  then have "client_decode strict_pydantic (take 4096 bs) = Inr (sample_telemetry demo_wire)"
    using strict.sample_bytes_decode [OF _ bs(1)] demo_tm_sendable by (simp add: demo_wire_def)
  moreover obtain req where "subscribe_request strict_pydantic (u ''cpu'') 0 = Inr req" using demo_request by blast
  moreover have "ts_realtime demo_telemetry = rt_step (Receive 1 (Inr (u ''subscribe''))) demo_watched"
    by (simp add: demo_telemetry_def)
  ultimately show ?thesis
    using malformed_command_stops_metric [OF demo_watched_facts, of demo_telemetry "\<lambda>_. Inl RuntimeError" RuntimeError] bs(2)
    by blast
qed

text \<open>C2: How a ground station discovers the metrics, from the scan of the store to its own handler: its one request starts
  the command at the payload computer, the one message that answers it holds the ids of the cache keys that have no
  colon, and once a read gave all of it the handler knows these metrics besides those it knew, each once and each with a
  subscription. No operation on the way fails as long as no subscription task has and no
  connection fails to close, and time-outs between the reads change nothing.\<close>

theorem discovery_end_to_end:
  fixes scan cs ks k defines "S \<equiv> {m. 58 \<notin> set m \<and> (\<exists>i \<le> k. cache_key m \<in> set (ks i))}"
  assumes "pydantic_api P ok" "full_scan scan cs ks k" "set (order S) = S"
    and "tc_sendable ok \<lparr>which_command = W_GET_METRIC_IDS, tc_data = GetMetricIds\<rparr>" "sync_request P = Inr req" "req \<noteq> []"
    and "tm_sendable ok \<lparr>which_type = T_METRIC_IDS, tm_data = MetricIdsMsg (order S)\<rparr>"
    and "rbind (telemetry_dump_json P \<lparr>which_type = T_METRIC_IDS, tm_data = MetricIdsMsg (order S)\<rparr>) utf8_encode = Inr bs" "bs \<noteq> []"
    and "reach (\<lambda>h. \<exists>mode b cl. h = new_handler mode b cl) handler_step h" "quiet h"
    and "\<And>A. A \<subseteq> S \<Longrightarrow> set (order' A) = A \<and> distinct (order' A)"
    and "set rds \<subseteq> {Inl TimeoutError, Inr [], Inr bs}"
  shows "current_task (conn_step P (Pass False (Inr req) wc) new_connection) = Some (Pending GetMetricIds) \<and>
    run_command P order (get_all_metric_ids scan) dr sock passes GetMetricIds = Some (dr, [Write bs]) \<and>
    (\<exists>h'. sync_metric_ids P order' (Inr ()) (Inr ()) rds h = ((Inr (), [req]), h') \<and>
      distinct (map fst (metrics h')) \<and> fst ` set (metrics h') = fst ` set (metrics h) \<union> (if Inr bs \<in> set rds then S else {}) \<and>
      fst ` set (metric_subscriptions h') = fst ` set (metrics h'))"
proof -
  note api = assms(2)
  have ids: "get_all_metric_ids scan = Some (Inr S)" unfolding S_def by (rule all_metric_ids_full [OF assms(3)])
  have inv: "unfailed_inv h" using handlers.reach_inv [OF assms(11)] assms(12) by (simp add: unfailed_inv_def)
  note r = pydantic_api.answer_reads [OF api assms(8-10,14), unfolded assms(4)]
  have "set (order' A) = A \<and> distinct (order' A)" if "A \<subseteq> \<Union>(ids_read P ` set rds)" for A
    using that r(2) by (intro assms(13)) (auto split: if_splits)
  from sync_passes_ok [OF inv r(1) this] obtain h' where h': "sync_passes P order' rds h = (Inr (), h')" "unfailed_inv h'"
      "fst ` set (metrics h') = fst ` set (metrics h) \<union> (if Inr bs \<in> set rds then S else {})"
    unfolding r(2) by blast
  then have "handler_inv h'" by (simp add: unfailed_inv_def)
  note i = handler_invD(1,3) [OF this]
  have "sync_metric_ids P order' (Inr ()) (Inr ()) rds h = ((Inr (), [req]), h')"
    using h'(1) assms(6) by (simp add: sync_metric_ids_def)
  moreover have "distinct (map fst (metrics h'))" using i(1) by (simp add: dict_ok_def)
  moreover have "fst ` set (metric_subscriptions h') = fst ` set (metrics h')" using i(2) by (simp add: dom_map_of_conv_image_fst)
  moreover have "current_task (conn_step P (Pass False (Inr req) wc) new_connection) = Some (Pending GetMetricIds)"
    using pydantic_api.telecommand_decodes [OF api assms(5) _ assms(7)] assms(6) pydantic_api.sync_request_eq [OF api]
    by (simp add: new_connection_def conn_pass_def handle_envelope)
  moreover have "run_command P order (get_all_metric_ids scan) dr sock passes GetMetricIds = Some (dr, [Write bs])"
    using pydantic_api.ids_written [OF api, of order S, OF assms(9)] by (simp add: run_command_def ids)
  ultimately show ?thesis using h'(3) by blast
qed

theorem discovery_end_to_end_witness:
  "\<exists>req bs h'. run_command strict_pydantic (\<lambda>_. [u ''a'']) (get_all_metric_ids demo_scan) (Inr ()) None (\<lambda>_. []) GetMetricIds
      = Some (Inr (), [Write bs]) \<and>
    sync_metric_ids strict_pydantic (\<lambda>A. filter (\<lambda>m. m \<in> A) [u ''a'']) (Inr ()) (Inr ()) [Inl TimeoutError, Inr bs]
      (new_handler (u ''fair'') 1000 (\<lambda>_. Inr ())) = ((Inr (), [req]), h') \<and> fst ` set (metrics h') = {u ''a''}"
proof -
  let ?S = "{m. (58::int) \<notin> set m \<and> (\<exists>i \<le> (1::nat). cache_key m \<in>
      set (if i = 0 then [cache_key (u ''a'')] else [cache_key (u ''b:c'')]))}"
  let ?tc = "\<lparr>which_command = W_GET_METRIC_IDS, tc_data = GetMetricIds\<rparr>"
  let ?t = "\<lparr>which_type = T_METRIC_IDS, tm_data = MetricIdsMsg [u ''a'']\<rparr>"
  have S: "?S = {u ''a''}"
    by (auto simp: le_Suc_eq simp del: u_simps) (auto simp: split: if_splits)
  have tc: "tc_sendable json_ok ?tc" by (simp add: tc_sendable_def tc_ok_def telecommand_py_def scalar_def dict_ok_def)
  obtain req where req: "sync_request strict_pydantic = Inr req" "req \<noteq> []"
    using strict_telecommand_bytes [OF tc] strict.sync_request_eq by auto
  have t: "tm_sendable json_ok ?t" by (simp add: tm_sendable_def tm_ok_def telemetry_py_def scalar_def dict_ok_def)
  then obtain bs where bs: "rbind (telemetry_dump_json strict_pydantic ?t) utf8_encode = Inr bs" "bs \<noteq> []"
    using strict_telemetry_bytes by blast
  have h: "reach (\<lambda>h. \<exists>mode b cl. h = new_handler mode b cl) handler_step (new_handler (u ''fair'') 1000 (\<lambda>_. Inr ()))"
    by (rule reach_start) blast
  have u: "quiet (new_handler (u ''fair'') 1000 (\<lambda>_. Inr ()))" by (simp add: new_handler_def quiet_def)
  have o: "set (filter (\<lambda>m. m \<in> A) [u ''a'']) = A \<and> distinct (filter (\<lambda>m. m \<in> A) [u ''a''])" if "A \<subseteq> ?S" for A
    using that unfolding S by auto
  have s: "set ((\<lambda>_. [u ''a'']) ?S) = ?S" unfolding S by simp
  note d = discovery_end_to_end [OF strict.pydantic_api_axioms demo_full, of "\<lambda>_. [u ''a'']", OF s tc req t bs h u o,
    where rds = "[Inl TimeoutError, Inr bs]" and dr = "Inr ()" and sock = None and passes = "\<lambda>_. []"]
  have "metrics (new_handler (u ''fair'') 1000 (\<lambda>_. Inr ())) = []" by (simp add: new_handler_def)
  with d show ?thesis unfolding S by fastforce
qed


text \<open>Two metrics that share the rate 1.\<close>

definition starved_handler :: metric_handler where
  "starved_handler = snd (set_max_bps 1 demo_handler)"


end
